(* ===== verification/Prelude.thy ===== *)
theory Prelude
  imports Main "HOL-Library.Word" "HOL-Library.Monad_Syntax"
begin

text \<open>
  The vocabulary shared by every component of the development.

  \<^item> Machine integers: \<open>u8\<close>, \<open>u16\<close>, \<open>u32\<close> and \<open>u64\<close> are words of that width; the kernel
    and its libc are built for a 32-bit i486, so \<open>unsigned long\<close>, \<open>size_t\<close> and \<open>uintptr_t\<close>
    are \<open>u32\<close>.
  \<^item> Addresses of kernel objects are natural numbers and \<open>0\<close> is \<open>NULL\<close>; a heap of objects of
    one type is a partial map from addresses. Reading or writing through a pointer that is not
    in the heap is the value \<open>None\<close> of the option monad, and so is a failed \<open>kassert\<close>.
  \<^item> A system call that returns \<open>-E...\<close> on failure returns \<open>Inl E...\<close> here, and \<open>Inr\<close> of its
    result otherwise.
\<close>

unbundle bit_operations_syntax

type_synonym u8 = "8 word"
type_synonym u16 = "16 word"
type_synonym u32 = "32 word"
type_synonym u64 = "64 word"

type_synonym ptr = nat

abbreviation NULL :: ptr where
  "NULL \<equiv> 0"

subsection \<open>Error numbers\<close>

datatype errno =
    ENOSYS | EINVAL | ERANGE | ENOLCK | ESRCH | EFAULT | EBADF | ENOENT | EBUSY | EPIPE | EIO
  | EAGAIN | E2BIG | ESPIPE | EMFILE | ENFILE | EFBIG | ENOTDIR | EISDIR | ENOMEM | EROFS
  | ENOEXEC | ECHILD | EOVERFLOW | EINTR | ENODEV | ENOTTY | EPERM | EEXIST | ENXIO | EACCES
  | ETIMEDOUT | EOWNERDEAD | ENOTRECOVERABLE | EDEADLK | ENOTSUP | ENAMETOOLONG | EILSEQ
  | ENOSPC | ENOTEMPTY | EXDEV | EMLINK | ELOOP

type_synonym 'a sysret = "errno + 'a"

subsection \<open>Writing through a pointer\<close>

definition upd :: "(ptr \<rightharpoonup> 'n) \<Rightarrow> ptr \<Rightarrow> ('n \<Rightarrow> 'n) \<Rightarrow> (ptr \<rightharpoonup> 'n) option" where
  "upd h p f = (case h p of None \<Rightarrow> None | Some n \<Rightarrow> Some (h(p \<mapsto> f n)))"

lemma upd_Some [simp]: "h p = Some n \<Longrightarrow> upd h p f = Some (h(p \<mapsto> f n))"
  by (simp add: upd_def)

lemma upd_None [simp]: "h p = None \<Longrightarrow> upd h p f = None"
  by (simp add: upd_def)

lemma upd_eq_Some_iff:
  "upd h p f = Some h' \<longleftrightarrow> (\<exists>n. h p = Some n \<and> h' = h(p \<mapsto> f n))"
  by (auto simp: upd_def split: option.splits)

end
