(* ===== verification/RBTree.thy ===== *)
theory RBTree
  imports Prelude
begin

text \<open>
  The intrusive red-black tree of \<open>src/src/rbtree.c\<close>, as the pointer program it is: a heap of
  nodes with parent pointers, and every loop of the source as a partial function in the option
  monad, so that \<open>None\<close> stands for a loop that does not end, an access through \<open>NULL\<close> and a
  failed \<open>kassert\<close> alike. The \<open>parent\<close> word of the source keeps the colour in its bit 0 (nodes
  are aligned, so the bit is free); the model keeps the two halves in two fields.
\<close>

record rbnode =
  rb_parent :: ptr
  rb_red :: bool
  rb_left :: ptr
  rb_right :: ptr
  rb_val :: u32

type_synonym rbheap = "ptr \<rightharpoonup> rbnode"

text \<open>The array \<open>nodes[2]\<close>: index \<open>False\<close> is \<open>0\<close> (left), \<open>True\<close> is \<open>1\<close> (right).\<close>

definition nodes :: "rbnode \<Rightarrow> bool \<Rightarrow> ptr" where
  "nodes n d = (if d then rb_right n else rb_left n)"

definition set_nodes :: "bool \<Rightarrow> ptr \<Rightarrow> rbnode \<Rightarrow> rbnode" where
  "set_nodes d p n = (if d then n\<lparr>rb_right := p\<rparr> else n\<lparr>rb_left := p\<rparr>)"

definition set_parent :: "ptr \<Rightarrow> rbnode \<Rightarrow> rbnode" where
  "set_parent p n = n\<lparr>rb_parent := p\<rparr>"

definition set_red :: "bool \<Rightarrow> rbnode \<Rightarrow> rbnode" where
  "set_red c n = n\<lparr>rb_red := c\<rparr>"

subsection \<open>Traversal and rotation\<close>

partial_function (option) bstree_min :: "rbheap \<Rightarrow> ptr \<Rightarrow> ptr option" where
  "bstree_min h node =
     do { n \<leftarrow> h node;
          if nodes n False \<noteq> NULL then bstree_min h (nodes n False) else Some node }"

partial_function (option) successor_up :: "rbheap \<Rightarrow> ptr \<Rightarrow> ptr \<Rightarrow> ptr option" where
  "successor_up h node parent =
     (if parent \<noteq> NULL
      then do { p \<leftarrow> h parent;
                if node = nodes p True then successor_up h parent (rb_parent p)
                else Some parent }
      else Some parent)"

definition bstree_successor :: "rbheap \<Rightarrow> ptr \<Rightarrow> ptr option" where
  "bstree_successor h node =
     do { n \<leftarrow> h node;
          if nodes n True \<noteq> NULL then bstree_min h (nodes n True)
          else successor_up h node (rb_parent n) }"

definition bstree_rotate :: "rbheap \<Rightarrow> ptr \<Rightarrow> ptr \<Rightarrow> bool \<Rightarrow> (rbheap \<times> ptr) option" where
  "bstree_rotate h tree node dir =
     do { n \<leftarrow> h node;
          let parent = rb_parent n;
          let root = nodes n (\<not> dir);
          if root = NULL then Some (h, tree)
          else do {
            r \<leftarrow> h root;
            let child = nodes r dir;
            h \<leftarrow> upd h node (set_nodes (\<not> dir) child);
            h \<leftarrow> (if child \<noteq> NULL then upd h child (set_parent node) else Some h);
            h \<leftarrow> upd h root (set_nodes dir node);
            h \<leftarrow> upd h root (set_parent parent);
            h \<leftarrow> upd h node (set_parent root);
            if parent \<noteq> NULL
            then do { p \<leftarrow> h parent;
                      h \<leftarrow> upd h parent (set_nodes (node = nodes p True) root);
                      Some (h, tree) }
            else Some (h, root) } }"

subsection \<open>Searches\<close>

partial_function (option) rbtree_search_exact :: "rbheap \<Rightarrow> ptr \<Rightarrow> u32 \<Rightarrow> ptr option" where
  "rbtree_search_exact h tree v =
     (if tree = NULL then Some NULL
      else do { n \<leftarrow> h tree;
                if rb_val n \<noteq> v then rbtree_search_exact h (nodes n (rb_val n < v)) v
                else Some tree })"

partial_function (option) search_lte_loop :: "rbheap \<Rightarrow> ptr \<Rightarrow> u32 \<Rightarrow> ptr \<Rightarrow> ptr option" where
  "search_lte_loop h tree v best =
     (if tree = NULL then Some best
      else do { n \<leftarrow> h tree;
                if rb_val n < v then search_lte_loop h (nodes n True) v tree
                else if rb_val n = v then Some tree
                else search_lte_loop h (nodes n False) v best })"

definition rbtree_search_lte :: "rbheap \<Rightarrow> ptr \<Rightarrow> u32 \<Rightarrow> ptr option" where
  "rbtree_search_lte h tree v = search_lte_loop h tree v NULL"

partial_function (option) search_gte_loop :: "rbheap \<Rightarrow> ptr \<Rightarrow> u32 \<Rightarrow> ptr \<Rightarrow> ptr option" where
  "search_gte_loop h tree v best =
     (if tree = NULL then Some best
      else do { n \<leftarrow> h tree;
                if rb_val n < v then search_gte_loop h (nodes n True) v best
                else if rb_val n = v then Some tree
                else search_gte_loop h (nodes n False) v tree })"

definition rbtree_search_gte :: "rbheap \<Rightarrow> ptr \<Rightarrow> u32 \<Rightarrow> ptr option" where
  "rbtree_search_gte h tree v = search_gte_loop h tree v NULL"

subsection \<open>Insertion\<close>

partial_function (option) add_descend ::
  "rbheap \<Rightarrow> u32 \<Rightarrow> ptr \<Rightarrow> ptr \<Rightarrow> bool \<Rightarrow> (ptr \<times> bool) option" where
  "add_descend h v cur prev idx =
     (if cur \<noteq> NULL
      then do { c \<leftarrow> h cur;
                add_descend h v (nodes c (rb_val c < v)) cur (rb_val c < v) }
      else Some (prev, idx))"

text \<open>
  The recolouring loop. Its body either returns, or moves two levels up; after the loop the
  root is painted black.
\<close>

partial_function (option) add_fixup ::
  "rbheap \<Rightarrow> ptr \<Rightarrow> ptr \<Rightarrow> ptr \<Rightarrow> (rbheap \<times> ptr) option" where
  "add_fixup h tree node prev =
     do { p \<leftarrow> h prev;
          if \<not> rb_red p then Some (h, tree)
          else if rb_parent p = NULL
          then do { h \<leftarrow> upd h prev (set_red False); Some (h, tree) }
          else do {
            g \<leftarrow> h (rb_parent p);
            let gp = rb_parent p;
            let idx = (prev \<noteq> nodes g False);
            if nodes g idx \<noteq> prev then None
            else do {
              let unc = nodes g (\<not> idx);
              unc_red \<leftarrow> (if unc = NULL then Some False else map_option rb_red (h unc));
              if \<not> unc_red
              then do {
                (h, tree, prev) \<leftarrow>
                  (if node = nodes p (\<not> idx)
                   then do { (h, tree) \<leftarrow> bstree_rotate h tree prev idx;
                             g \<leftarrow> h gp;
                             Some (h, tree, nodes g idx) }
                   else Some (h, tree, prev));
                (h, tree) \<leftarrow> bstree_rotate h tree gp (\<not> idx);
                h \<leftarrow> upd h prev (set_red False);
                h \<leftarrow> upd h gp (set_red True);
                Some (h, tree) }
              else do {
                h \<leftarrow> upd h prev (set_red False);
                h \<leftarrow> upd h unc (set_red False);
                h \<leftarrow> upd h gp (set_red True);
                if rb_parent g \<noteq> NULL then add_fixup h tree gp (rb_parent g)
                else do { h \<leftarrow> upd h tree (set_red False); Some (h, tree) } } } } }"

definition rbtree_add :: "rbheap \<Rightarrow> ptr \<Rightarrow> ptr \<Rightarrow> (rbheap \<times> ptr) option" where
  "rbtree_add h tree node =
     (if node = NULL then None
      else do {
        n \<leftarrow> h node;
        h \<leftarrow> upd h node (set_red False \<circ> set_parent NULL \<circ> set_nodes False NULL \<circ> set_nodes True NULL);
        if tree = NULL then Some (h, node)
        else do {
          (prev, idx) \<leftarrow> add_descend h (rb_val n) tree tree False;
          h \<leftarrow> upd h prev (set_nodes idx node);
          h \<leftarrow> upd h node (set_red True \<circ> set_parent prev);
          add_fixup h tree node prev } })"

subsection \<open>Removal\<close>

definition red_at :: "rbheap \<Rightarrow> ptr \<Rightarrow> bool option" where
  "red_at h p = (if p = NULL then Some False else map_option rb_red (h p))"

text \<open>The rebalancing loop (\<open>solve the rbt\<close>).\<close>

partial_function (option) remove_fixup ::
  "rbheap \<Rightarrow> ptr \<Rightarrow> ptr \<Rightarrow> bool \<Rightarrow> (rbheap \<times> ptr) option" where
  "remove_fixup h tree parent idx =
     do { p \<leftarrow> h parent;
          let sibling = nodes p (\<not> idx);
          s \<leftarrow> h sibling;
          (h, tree, sibling) \<leftarrow>
            (if rb_red s
             then do { (h, tree) \<leftarrow> bstree_rotate h tree parent idx;
                       h \<leftarrow> upd h parent (set_red True);
                       h \<leftarrow> upd h sibling (set_red False);
                       s \<leftarrow> h sibling;
                       Some (h, tree, nodes s idx) }
             else Some (h, tree, sibling));
          s \<leftarrow> h sibling;
          let dnephew = nodes s (\<not> idx);
          let cnephew = nodes s idx;
          h \<leftarrow> upd h sibling (set_red False);
          p \<leftarrow> h parent;
          let original_color = rb_red p;
          h \<leftarrow> upd h parent (set_red False);
          dred \<leftarrow> red_at h dnephew;
          if dred
          then do { (h, tree) \<leftarrow> bstree_rotate h tree parent idx;
                    h \<leftarrow> upd h sibling (\<lambda>n. set_red (rb_red n \<or> original_color) n);
                    h \<leftarrow> upd h dnephew (set_red False);
                    Some (h, tree) }
          else do {
            cred \<leftarrow> red_at h cnephew;
            if cred
            then do { (h, tree) \<leftarrow> bstree_rotate h tree sibling (\<not> idx);
                      (h, tree) \<leftarrow> bstree_rotate h tree parent idx;
                      h \<leftarrow> upd h cnephew (set_red original_color);
                      Some (h, tree) }
            else do {
              h \<leftarrow> upd h sibling (set_red True);
              if original_color then Some (h, tree)
              else do {
                p \<leftarrow> h parent;
                if rb_parent p = NULL then Some (h, tree)
                else do { q \<leftarrow> h (rb_parent p);
                          remove_fixup h tree (rb_parent p) (nodes q True = parent) } } } } }"

text \<open>
  The two-child case: the successor is cut out of its place (its right child moves up and is
  painted red) and takes over the node's children.
\<close>

definition remove_splice :: "rbheap \<Rightarrow> ptr \<Rightarrow> (rbheap \<times> ptr) option" where
  "remove_splice h node =
     do { replacement \<leftarrow> bstree_successor h node;
          r \<leftarrow> h replacement;
          let succp = rb_parent r;
          h \<leftarrow> (if nodes r True \<noteq> NULL
               then upd h (nodes r True) (set_red True \<circ> set_parent succp) else Some h);
          sp \<leftarrow> h succp;
          h \<leftarrow> upd h succp (set_nodes (nodes sp False \<noteq> replacement) (nodes r True));
          n \<leftarrow> h node;
          h \<leftarrow> upd h replacement (set_nodes False (nodes n False));
          h \<leftarrow> upd h replacement (set_nodes True (nodes n True));
          h \<leftarrow> upd h (nodes n False) (set_parent replacement);
          h \<leftarrow> upd h (nodes n True) (set_parent replacement);
          Some (h, replacement) }"

definition rbtree_remove :: "rbheap \<Rightarrow> ptr \<Rightarrow> ptr \<Rightarrow> (rbheap \<times> ptr) option" where
  "rbtree_remove h tree node =
     (if tree = NULL \<or> node = NULL then None
      else do {
        n \<leftarrow> h node;
        let parent = rb_parent n;
        (h, replacement) \<leftarrow>
          (if nodes n False = NULL \<or> nodes n True = NULL
           then Some (h, nodes n (nodes n False = NULL))
           else remove_splice h node);
        h \<leftarrow> (if replacement \<noteq> NULL then upd h replacement (set_parent parent) else Some h);
        if node = tree then Some (h, replacement)
        else do {
          p \<leftarrow> h parent;
          let idx = (nodes p False \<noteq> node);
          h \<leftarrow> upd h parent (set_nodes idx replacement);
          if replacement \<noteq> NULL
          then do { h \<leftarrow> upd h replacement (set_red False); Some (h, tree) }
          else do {
            n \<leftarrow> h node;
            if rb_red n then Some (h, tree)
            else remove_fixup h tree parent idx } } })"

partial_function (option) rbtree_free :: "rbheap \<Rightarrow> ptr \<Rightarrow> rbheap option" where
  "rbtree_free h tree =
     (if tree = NULL then Some h
      else do { n \<leftarrow> h tree;
                h \<leftarrow> rbtree_free h (nodes n False);
                n \<leftarrow> h tree;
                h \<leftarrow> rbtree_free h (nodes n True);
                n \<leftarrow> h tree;
                Some (h(tree := None)) })"

end
