(* ===== verification/RBTree_Repr.thy ===== *)
theory RBTree_Repr
  imports RBTree "HOL-Library.Tree"
begin

text \<open>
  What a heap of nodes represents: an ordinary tree whose nodes carry their address, colour and
  key. The tree is taken apart at a focus by a list of frames, the path from the focus to the
  root, because the loops of the source walk upwards through parent pointers. A direction
  (\<open>False\<close> left, \<open>True\<close> right) is kept as a parameter throughout, as in the source, where
  \<open>nodes[idx]\<close> and \<open>nodes[!idx]\<close> treat the two sides at once.
\<close>

type_synonym rblab = "ptr \<times> bool \<times> u32"
type_synonym rbt = "rblab tree"
type_synonym frame = "bool \<times> rblab \<times> rbt"

named_theorems rb_simps \<open>computation with directed trees and nodes\<close>

fun root :: "rbt \<Rightarrow> ptr" where
  "root Leaf = NULL"
| "root (Node l (a, c, v) r) = a"

fun addrs :: "rbt \<Rightarrow> ptr list" where
  "addrs Leaf = []"
| "addrs (Node l (a, c, v) r) = addrs l @ a # addrs r"

fun entries :: "rbt \<Rightarrow> (ptr \<times> u32) list" where
  "entries Leaf = []"
| "entries (Node l (a, c, v) r) = entries l @ (a, v) # entries r"

abbreviation keys :: "rbt \<Rightarrow> u32 list" where
  "keys t \<equiv> map snd (entries t)"

fun repr :: "rbheap \<Rightarrow> ptr \<Rightarrow> rbt \<Rightarrow> bool" where
  "repr h q Leaf = True"
| "repr h q (Node l (a, c, v) r) \<longleftrightarrow>
     a \<noteq> NULL \<and>
     h a = Some \<lparr>rb_parent = q, rb_red = c, rb_left = root l, rb_right = root r, rb_val = v\<rparr> \<and>
     repr h a l \<and> repr h a r"

text \<open>A well-formed heap tree: represented with no parent at the root and no sharing.\<close>

definition rb_tree :: "rbheap \<Rightarrow> ptr \<Rightarrow> rbt \<Rightarrow> bool" where
  "rb_tree h tree t \<longleftrightarrow> tree = root t \<and> repr h NULL t \<and> distinct (addrs t)"

subsection \<open>Directed trees and nodes\<close>

definition mk :: "bool \<Rightarrow> rbt \<Rightarrow> rblab \<Rightarrow> rbt \<Rightarrow> rbt" where
  "mk d t x s = (if d then Node s x t else Node t x s)"

definition mkn :: "bool \<Rightarrow> ptr \<Rightarrow> bool \<Rightarrow> ptr \<Rightarrow> ptr \<Rightarrow> u32 \<Rightarrow> rbnode" where
  "mkn d q c x y v =
     \<lparr>rb_parent = q, rb_red = c, rb_left = (if d then y else x),
      rb_right = (if d then x else y), rb_val = v\<rparr>"

lemma mk_flip: "mk (\<not> d) t x s = mk d s x t"
  by (simp add: mk_def)

lemma mkn_flip: "mkn (\<not> d) q c x y v = mkn d q c y x v"
  by (simp add: mkn_def)

lemma mkn_sel [rb_simps]:
  "rb_parent (mkn d q c x y v) = q" "rb_red (mkn d q c x y v) = c" "rb_val (mkn d q c x y v) = v"
  "nodes (mkn d q c x y v) d = x" "nodes (mkn d q c x y v) (\<not> d) = y"
  by (simp_all add: mkn_def nodes_def)

lemma mkn_upd [rb_simps]:
  "set_parent p (mkn d q c x y v) = mkn d p c x y v"
  "set_red b (mkn d q c x y v) = mkn d q b x y v"
  "set_nodes d p (mkn d q c x y v) = mkn d q c p y v"
  "set_nodes (\<not> d) p (mkn d q c x y v) = mkn d q c x p v"
  by (simp_all add: mkn_def set_parent_def set_red_def set_nodes_def)

lemma root_mk [rb_simps]: "root (mk d t (a, c, v) s) = a"
  by (simp add: mk_def)

lemma repr_mk [rb_simps]:
  "repr h q (mk d t (a, c, v) s) \<longleftrightarrow>
     a \<noteq> NULL \<and> h a = Some (mkn d q c (root t) (root s) v) \<and> repr h a t \<and> repr h a s"
  by (auto simp: mk_def mkn_def)

lemma set_addrs_mk [rb_simps]: "set (addrs (mk d t (a, c, v) s)) = insert a (set (addrs t) \<union> set (addrs s))"
  by (auto simp: mk_def)

lemma distinct_addrs_mk [rb_simps]:
  "distinct (addrs (mk d t (a, c, v) s)) \<longleftrightarrow>
     a \<notin> set (addrs t) \<and> a \<notin> set (addrs s) \<and> set (addrs t) \<inter> set (addrs s) = {} \<and>
     distinct (addrs t) \<and> distinct (addrs s)"
  by (auto simp: mk_def)

lemma Node_mk: "Node l x r = mk False l x r"
  by (simp add: mk_def)

lemma rbt_cases_dir [case_names Leaf mk]:
  obtains "t = Leaf" | l a c v r where "t = mk d l (a, c, v) r"
proof (cases t)
  case (Node l x r)
  obtain a c v where x: "x = (a, c, v)"
    by (cases x) auto
  show ?thesis
  proof (cases d)
    case True
    then have "t = mk d r (a, c, v) l"
      using Node x by (simp add: mk_def)
    then show ?thesis by (rule that(2))
  next
    case False
    then have "t = mk d l (a, c, v) r"
      using Node x by (simp add: mk_def)
    then show ?thesis by (rule that(2))
  qed
qed (rule that(1))

lemma root_eq_NULL_iff: "repr h q t \<Longrightarrow> root t = NULL \<longleftrightarrow> t = Leaf"
  by (cases t) auto

lemma root_in_addrs: "t \<noteq> Leaf \<Longrightarrow> root t \<in> set (addrs t)"
  by (cases t) auto

lemma repr_NULL: "repr h q t \<Longrightarrow> NULL \<notin> set (addrs t)"
  by (induction h q t rule: repr.induct) auto

lemma repr_dom: "repr h q t \<Longrightarrow> a \<in> set (addrs t) \<Longrightarrow> h a \<noteq> None"
  by (induction h q t rule: repr.induct) auto

lemma repr_frame:
  "(\<And>a. a \<in> set (addrs t) \<Longrightarrow> h a = h' a) \<Longrightarrow> repr h q t \<longleftrightarrow> repr h' q t"
  by (induction h q t rule: repr.induct) auto

lemma repr_upd_other [simp]: "p \<notin> set (addrs t) \<Longrightarrow> repr (h(p \<mapsto> n)) q t \<longleftrightarrow> repr h q t"
  by (rule repr_frame) auto

text \<open>Changing the parent pointer of a represented tree's root.\<close>

lemma repr_reparent:
  assumes "repr h q (mk d l (a, c, v) r)" and "distinct (addrs (mk d l (a, c, v) r))"
  shows "repr (h(a \<mapsto> mkn d q' c' (root l) (root r) v)) q' (mk d l (a, c', v) r)"
  using assms by (simp add: rb_simps)

subsection \<open>The path to the root\<close>

fun plug :: "frame list \<Rightarrow> rbt \<Rightarrow> rbt" where
  "plug [] t = t"
| "plug ((d, x, s) # fs) t = plug fs (mk d t x s)"

fun ctx_par :: "frame list \<Rightarrow> ptr" where
  "ctx_par [] = NULL"
| "ctx_par ((d, (a, c, v), s) # fs) = a"

fun ctx_addrs :: "frame list \<Rightarrow> ptr list" where
  "ctx_addrs [] = []"
| "ctx_addrs ((d, (a, c, v), s) # fs) = a # addrs s @ ctx_addrs fs"

fun repr_ctx :: "rbheap \<Rightarrow> frame list \<Rightarrow> ptr \<Rightarrow> bool" where
  "repr_ctx h [] p = True"
| "repr_ctx h ((d, (a, c, v), s) # fs) p \<longleftrightarrow>
     a \<noteq> NULL \<and> h a = Some (mkn d (ctx_par fs) c p (root s) v) \<and> repr h a s \<and> repr_ctx h fs a"

fun ctx_root :: "frame list \<Rightarrow> ptr \<Rightarrow> ptr" where
  "ctx_root [] p = p"
| "ctx_root ((d, (a, c, v), s) # fs) p = ctx_root fs a"

lemma frame_cases:
  obtains d a c v s where "f = (d, (a, c, v), s :: rbt)"
  by (cases f) auto

lemma repr_plug:
  "repr h NULL (plug fs t) \<longleftrightarrow> repr_ctx h fs (root t) \<and> repr h (ctx_par fs) t"
proof (induction fs arbitrary: t)
  case (Cons f fs)
  obtain d a c v s where "f = (d, (a, c, v), s)"
    by (rule frame_cases)
  then show ?case
    using Cons.IH [of "mk d t (a, c, v) s"] by (auto simp: rb_simps)
qed simp

lemma set_addrs_plug: "set (addrs (plug fs t)) = set (ctx_addrs fs) \<union> set (addrs t)"
proof (induction fs arbitrary: t)
  case (Cons f fs)
  show ?case
    using Cons.IH by (cases f rule: frame_cases) (auto simp: rb_simps)
qed simp

lemma distinct_addrs_plug:
  "distinct (addrs (plug fs t)) \<longleftrightarrow>
     distinct (ctx_addrs fs) \<and> distinct (addrs t) \<and> set (ctx_addrs fs) \<inter> set (addrs t) = {}"
proof (induction fs arbitrary: t)
  case (Cons f fs)
  obtain d a c v s where "f = (d, (a, c, v), s)"
    by (rule frame_cases)
  then show ?case
    using Cons.IH [of "mk d t (a, c, v) s"] by (auto simp: rb_simps)
qed simp

lemma root_plug: "root (plug fs t) = ctx_root fs (root t)"
proof (induction fs arbitrary: t)
  case (Cons f fs)
  obtain d a c v s where "f = (d, (a, c, v), s)"
    by (rule frame_cases)
  then show ?case
    using Cons.IH [of "mk d t (a, c, v) s"] by (simp add: rb_simps)
qed simp

lemma ctx_root_Cons: "fs \<noteq> [] \<Longrightarrow> ctx_root fs p = ctx_root fs q"
  by (cases fs rule: ctx_par.cases) auto

lemma repr_ctx_frame:
  "(\<And>a. a \<in> set (ctx_addrs fs) \<Longrightarrow> h a = h' a) \<Longrightarrow> repr_ctx h fs p \<longleftrightarrow> repr_ctx h' fs p"
proof (induction fs arbitrary: p)
  case (Cons f fs)
  obtain d a c v s where f: "f = (d, (a, c, v), s)"
    by (rule frame_cases)
  have "repr h a s \<longleftrightarrow> repr h' a s"
    by (rule repr_frame) (use Cons.prems f in auto)
  moreover have "repr_ctx h fs a \<longleftrightarrow> repr_ctx h' fs a"
    by (rule Cons.IH) (use Cons.prems f in auto)
  moreover have "h a = h' a"
    using Cons.prems f by simp
  ultimately show ?case
    using f by simp
qed simp

lemma repr_ctx_upd_other [simp]:
  "p \<notin> set (ctx_addrs fs) \<Longrightarrow> repr_ctx (h(p \<mapsto> n)) fs q \<longleftrightarrow> repr_ctx h fs q"
  by (rule repr_ctx_frame) auto

lemma ctx_par_in: "fs \<noteq> [] \<Longrightarrow> ctx_par fs \<in> set (ctx_addrs fs)"
  by (cases fs rule: ctx_par.cases) auto

lemma ctx_par_NULL_iff: "repr_ctx h fs p \<Longrightarrow> ctx_par fs = NULL \<longleftrightarrow> fs = []"
  by (cases fs rule: ctx_par.cases) auto

lemma repr_ctx_NULL: "repr_ctx h fs p \<Longrightarrow> NULL \<notin> set (ctx_addrs fs)"
  by (induction h fs p rule: repr_ctx.induct) (auto dest: repr_NULL)

text \<open>
  Replacing the focus pointer in its parent: what \<open>parent->nodes[node == parent->nodes[1]] = root\<close>
  does to the path.
\<close>

lemma ctx_replace:
  assumes "repr_ctx h ((d, (a, c, v), s) # fs) p" and "a \<notin> set (addrs s)" and "a \<notin> set (ctx_addrs fs)"
  shows "repr_ctx (h(a \<mapsto> mkn d (ctx_par fs) c p' (root s) v)) ((d, (a, c, v), s) # fs) p'"
  using assms by simp

end
