(* ===== verification/RBTree_Search.thy ===== *)
theory RBTree_Search
  imports RBTree_Repr
begin

text \<open>
  The three searches of \<open>src/src/rbtree.c\<close> on a heap that represents a tree whose keys are in
  order. Equal keys are allowed, as \<open>rbtree_add\<close> allows them. Each search ends, reads no
  \<open>NULL\<close> and returns the node it promises, whatever the colours are: none of the lookups
  depends on the balance of the tree.
\<close>

definition key_ordered :: "rbt \<Rightarrow> bool" where
  "key_ordered t \<longleftrightarrow> sorted (keys t)"

definition is_lte :: "(ptr \<times> u32) set \<Rightarrow> u32 \<Rightarrow> ptr \<Rightarrow> bool" where
  "is_lte es v p \<longleftrightarrow> (\<exists>k. (p, k) \<in> es \<and> k \<le> v \<and> (\<forall>e \<in> es. snd e \<le> v \<longrightarrow> snd e \<le> k))"

definition is_gte :: "(ptr \<times> u32) set \<Rightarrow> u32 \<Rightarrow> ptr \<Rightarrow> bool" where
  "is_gte es v p \<longleftrightarrow> (\<exists>k. (p, k) \<in> es \<and> v \<le> k \<and> (\<forall>e \<in> es. v \<le> snd e \<longrightarrow> k \<le> snd e))"

lemma key_ordered_Leaf [simp]: "key_ordered Leaf"
  by (simp add: key_ordered_def)

lemma key_ordered_Node:
  "key_ordered (Node l (a, c, v) r) \<longleftrightarrow>
     key_ordered l \<and> key_ordered r \<and> (\<forall>e \<in> set (entries l). snd e \<le> v) \<and>
     (\<forall>e \<in> set (entries r). v \<le> snd e)"
  by (fastforce simp: key_ordered_def sorted_append)

text \<open>How the answer for a subtree gives the answer for the tree.\<close>

lemma is_lte_right:
  assumes "\<forall>e \<in> L. snd e \<le> k" and "k < v"
    and "if \<exists>e \<in> R. snd e \<le> v then is_lte R v p else p = a"
    and "\<forall>e \<in> R. k \<le> snd e"
  shows "is_lte (L \<union> insert (a, k) R) v p"
proof (cases "\<exists>e \<in> R. snd e \<le> v")
  case True
  with assms(3) obtain k' where k': "(p, k') \<in> R" "k' \<le> v" "\<forall>e \<in> R. snd e \<le> v \<longrightarrow> snd e \<le> k'"
    by (auto simp: is_lte_def)
  with assms(4) have "k \<le> k'" by fastforce
  then have "\<forall>e \<in> L \<union> insert (a, k) R. snd e \<le> v \<longrightarrow> snd e \<le> k'"
    using assms(1) k'(3) by (fastforce intro: order_trans)
  then show ?thesis using k'(1,2) unfolding is_lte_def by blast
next
  case False
  then have "p = a" using assms(3) by simp
  then show ?thesis
    using False assms(1,2) unfolding is_lte_def by (intro exI [of _ k]) auto
qed

lemma is_lte_left:
  assumes "is_lte L v p" and "\<forall>e \<in> insert (a, k) R. v < snd e"
  shows "is_lte (L \<union> insert (a, k) R) v p"
  using assms unfolding is_lte_def by (metis Un_iff leD)

lemma is_gte_left:
  assumes "\<forall>e \<in> R. k \<le> snd e" and "v < k"
    and "if \<exists>e \<in> L. v \<le> snd e then is_gte L v p else p = a"
    and "\<forall>e \<in> L. snd e \<le> k"
  shows "is_gte (L \<union> insert (a, k) R) v p"
proof (cases "\<exists>e \<in> L. v \<le> snd e")
  case True
  with assms(3) obtain k' where k': "(p, k') \<in> L" "v \<le> k'" "\<forall>e \<in> L. v \<le> snd e \<longrightarrow> k' \<le> snd e"
    by (auto simp: is_gte_def)
  with assms(4) have "k' \<le> k" by fastforce
  then have "\<forall>e \<in> L \<union> insert (a, k) R. v \<le> snd e \<longrightarrow> k' \<le> snd e"
    using assms(1) k'(3) by (fastforce intro: order_trans)
  then show ?thesis using k'(1,2) unfolding is_gte_def by blast
next
  case False
  then have "p = a" using assms(3) by simp
  then show ?thesis
    using False assms(1,2) unfolding is_gte_def by (intro exI [of _ k]) auto
qed

lemma is_gte_right:
  assumes "is_gte R v p" and "\<forall>e \<in> insert (a, k) L. snd e < v"
  shows "is_gte (L \<union> insert (a, k) R) v p"
  using assms unfolding is_gte_def by (metis Un_iff insert_iff leD)

lemma search_exact_repr:
  "repr h q t \<Longrightarrow> key_ordered t \<Longrightarrow>
   \<exists>p. rbtree_search_exact h (root t) v = Some p \<and>
       (if \<exists>e \<in> set (entries t). snd e = v then (p, v) \<in> set (entries t) else p = NULL)"
proof (induction h q t rule: repr.induct)
  case (1 h q)
  then show ?case by (simp add: rbtree_search_exact.simps)
next
  case (2 h q l a c k r)
  note ord = "2.prems"(2)[unfolded key_ordered_Node]
  have unfold: "rbtree_search_exact h a v =
      (if k \<noteq> v then rbtree_search_exact h (if k < v then root r else root l) v else Some a)"
    using "2.prems"(1) by (subst rbtree_search_exact.simps) (simp add: nodes_def)
  consider "k < v" | "k = v" | "v < k" by fastforce
  then show ?case
  proof cases
    case 1
    then have no: "\<not> (\<exists>e \<in> set (entries l). snd e = v)" using ord by fastforce
    obtain p where "rbtree_search_exact h (root r) v = Some p"
      "if \<exists>e \<in> set (entries r). snd e = v then (p, v) \<in> set (entries r) else p = NULL"
      using "2.IH"(2) "2.prems"(1) ord by auto
    then show ?thesis
      using 1 unfold no by (intro exI [of _ p]) (auto split: if_splits)
  next
    case 2
    then show ?thesis using unfold by simp
  next
    case 3
    then have no: "\<not> (\<exists>e \<in> set (entries r). snd e = v)" using ord by fastforce
    obtain p where "rbtree_search_exact h (root l) v = Some p"
      "if \<exists>e \<in> set (entries l). snd e = v then (p, v) \<in> set (entries l) else p = NULL"
      using "2.IH"(1) "2.prems"(1) ord by auto
    then show ?thesis
      using 3 unfold no by (intro exI [of _ p]) (auto split: if_splits)
  qed
qed

lemma search_lte_repr:
  "repr h q t \<Longrightarrow> key_ordered t \<Longrightarrow>
   \<exists>p. search_lte_loop h (root t) v best = Some p \<and>
       (if \<exists>e \<in> set (entries t). snd e \<le> v then is_lte (set (entries t)) v p else p = best)"
proof (induction h q t arbitrary: best rule: repr.induct)
  case (1 h q)
  then show ?case by (simp add: search_lte_loop.simps)
next
  case (2 h q l a c k r)
  note ord = "2.prems"(2)[unfolded key_ordered_Node]
  have unfold: "search_lte_loop h a v best =
      (if k < v then search_lte_loop h (root r) v a else if k = v then Some a
       else search_lte_loop h (root l) v best)" for best
    using "2.prems"(1) by (subst search_lte_loop.simps) (simp add: nodes_def)
  have es: "set (entries (Node l (a, c, k) r)) = set (entries l) \<union> insert (a, k) (set (entries r))"
    by simp
  consider "k < v" | "k = v" | "v < k" by fastforce
  then show ?case
  proof cases
    case 1
    obtain p where p: "search_lte_loop h (root r) v a = Some p"
      "if \<exists>e \<in> set (entries r). snd e \<le> v then is_lte (set (entries r)) v p else p = a"
      using "2.IH"(2) "2.prems"(1) ord by fastforce
    have "is_lte (set (entries (Node l (a, c, k) r))) v p"
      unfolding es using ord 1 p(2) by (intro is_lte_right) auto
    then show ?thesis using p(1) 1 unfold by (auto simp: is_lte_def)
  next
    case 2
    then have "is_lte (set (entries (Node l (a, c, k) r))) v a"
      unfolding is_lte_def by (intro exI [of _ k]) auto
    then show ?thesis using 2 unfold by auto
  next
    case 3
    obtain p where p: "search_lte_loop h (root l) v best = Some p"
      "if \<exists>e \<in> set (entries l). snd e \<le> v then is_lte (set (entries l)) v p else p = best"
      using "2.IH"(1) "2.prems"(1) ord by fastforce
    have none: "\<forall>e \<in> insert (a, k) (set (entries r)). v < snd e"
      using 3 ord by auto
    have "is_lte (set (entries (Node l (a, c, k) r))) v p" if "is_lte (set (entries l)) v p"
      unfolding es using that none by (rule is_lte_left)
    moreover have "(\<exists>e \<in> set (entries (Node l (a, c, k) r)). snd e \<le> v) \<longleftrightarrow>
        (\<exists>e \<in> set (entries l). snd e \<le> v)"
      unfolding es using none by (meson UnE UnI1 leD)
    ultimately show ?thesis using p 3 unfold by (auto split: if_splits)
  qed
qed

lemma search_gte_repr:
  "repr h q t \<Longrightarrow> key_ordered t \<Longrightarrow>
   \<exists>p. search_gte_loop h (root t) v best = Some p \<and>
       (if \<exists>e \<in> set (entries t). v \<le> snd e then is_gte (set (entries t)) v p else p = best)"
proof (induction h q t arbitrary: best rule: repr.induct)
  case (1 h q)
  then show ?case by (simp add: search_gte_loop.simps)
next
  case (2 h q l a c k r)
  note ord = "2.prems"(2)[unfolded key_ordered_Node]
  have unfold: "search_gte_loop h a v best =
      (if k < v then search_gte_loop h (root r) v best else if k = v then Some a
       else search_gte_loop h (root l) v a)" for best
    using "2.prems"(1) by (subst search_gte_loop.simps) (simp add: nodes_def)
  have es: "set (entries (Node l (a, c, k) r)) = set (entries l) \<union> insert (a, k) (set (entries r))"
    by simp
  consider "k < v" | "k = v" | "v < k" by fastforce
  then show ?case
  proof cases
    case 1
    obtain p where p: "search_gte_loop h (root r) v best = Some p"
      "if \<exists>e \<in> set (entries r). v \<le> snd e then is_gte (set (entries r)) v p else p = best"
      using "2.IH"(2) "2.prems"(1) ord by fastforce
    have none: "\<forall>e \<in> insert (a, k) (set (entries l)). snd e < v"
      using 1 ord by auto
    have "is_gte (set (entries (Node l (a, c, k) r))) v p" if "is_gte (set (entries r)) v p"
      unfolding es using that none by (rule is_gte_right)
    moreover have "(\<exists>e \<in> set (entries (Node l (a, c, k) r)). v \<le> snd e) \<longleftrightarrow>
        (\<exists>e \<in> set (entries r). v \<le> snd e)"
      unfolding es using none by (metis UnCI UnE insert_iff leD)
    ultimately show ?thesis using p 1 unfold by (auto split: if_splits)
  next
    case 2
    then have "is_gte (set (entries (Node l (a, c, k) r))) v a"
      unfolding is_gte_def by (intro exI [of _ k]) auto
    then show ?thesis using 2 unfold by auto
  next
    case 3
    obtain p where p: "search_gte_loop h (root l) v a = Some p"
      "if \<exists>e \<in> set (entries l). v \<le> snd e then is_gte (set (entries l)) v p else p = a"
      using "2.IH"(1) "2.prems"(1) ord by fastforce
    have "is_gte (set (entries (Node l (a, c, k) r))) v p"
      unfolding es using ord 3 p(2) by (intro is_gte_left) auto
    then show ?thesis using p(1) 3 unfold by (auto simp: is_gte_def)
  qed
qed

end
