(* ===== verification/RBTree_Rotate.thy ===== *)
theory RBTree_Rotate
  imports RBTree_Search
begin

text \<open>
  \<open>bstree_rotate\<close> in place: anywhere below any path, it turns the represented tree by one
  rotation, keeps every parent pointer right, updates the root pointer when the rotated node was
  the root, and touches no node outside the tree.
\<close>

abbreviation same_outside :: "rbt \<Rightarrow> rbheap \<Rightarrow> rbheap \<Rightarrow> bool" where
  "same_outside t h h' \<equiv> \<forall>a. a \<notin> set (addrs t) \<longrightarrow> h' a = h a"

lemma root_neq:
  assumes "repr h q s" and "x \<notin> set (addrs s)" and "x \<noteq> NULL"
  shows "root s \<noteq> x"
  using assms root_in_addrs by (cases "s = Leaf") auto

lemma nodes_True_mkn: "nodes (mkn e q c x y v) True = (if e then x else y)"
  by (simp add: nodes_def mkn_def)

lemma nodes_False_mkn: "nodes (mkn e q c x y v) False = (if e then y else x)"
  by (simp add: nodes_def mkn_def)

lemma rb_tree_plug:
  "rb_tree h tree (plug fs t) \<longleftrightarrow>
     tree = ctx_root fs (root t) \<and> repr_ctx h fs (root t) \<and> repr h (ctx_par fs) t \<and>
     distinct (ctx_addrs fs) \<and> distinct (addrs t) \<and> set (ctx_addrs fs) \<inter> set (addrs t) = {}"
  by (auto simp: rb_tree_def repr_plug distinct_addrs_plug root_plug)

text \<open>The first part of the rotation, up to the write to the parent's child slot.\<close>

lemma rotate_subtree:
  assumes "repr h q (mk d A (x, cx, vx) (mk d C (y, cy, vy) Z))"
    and "distinct (addrs (mk d A (x, cx, vx) (mk d C (y, cy, vy) Z)))"
  obtains h' where
    "bstree_rotate h tree x d =
       (if q \<noteq> NULL
        then do { p \<leftarrow> h' q; h'' \<leftarrow> upd h' q (set_nodes (x = nodes p True) y); Some (h'', tree) }
        else Some (h', y))"
    and "repr h' q (mk d (mk d A (x, cx, vx) C) (y, cy, vy) Z)"
    and "same_outside (mk d A (x, cx, vx) (mk d C (y, cy, vy) Z)) h h'"
proof -
  have hx: "h x = Some (mkn d q cx (root A) y vx)" and hy: "h y = Some (mkn d x cy (root C) (root Z) vy)"
    and xy: "x \<noteq> NULL" "y \<noteq> NULL" "x \<noteq> y" "x \<notin> set (addrs A)" "x \<notin> set (addrs C)" "x \<notin> set (addrs Z)"
      "y \<notin> set (addrs A)" "y \<notin> set (addrs C)" "y \<notin> set (addrs Z)"
    and rA: "repr h x A" and rC: "repr h y C" and rZ: "repr h y Z"
    and dj: "set (addrs A) \<inter> set (addrs C) = {}" "set (addrs C) \<inter> set (addrs Z) = {}" "distinct (addrs C)"
    using assms by (auto simp: rb_simps)
  show thesis
  proof (cases C rule: rbt_cases_dir [where d = d])
    case Leaf
    show thesis
    proof (rule that [of "h(x \<mapsto> mkn d y cx (root A) NULL vx, y \<mapsto> mkn d q cy x (root Z) vy)"])
      show "bstree_rotate h tree x d = (if q \<noteq> NULL
        then do { p \<leftarrow> (h(x \<mapsto> mkn d y cx (root A) NULL vx, y \<mapsto> mkn d q cy x (root Z) vy)) q;
                  h'' \<leftarrow> upd (h(x \<mapsto> mkn d y cx (root A) NULL vx, y \<mapsto> mkn d q cy x (root Z) vy)) q
                          (set_nodes (x = nodes p True) y); Some (h'', tree) }
        else Some (h(x \<mapsto> mkn d y cx (root A) NULL vx, y \<mapsto> mkn d q cy x (root Z) vy), y))"
        using hx hy xy Leaf by (simp add: bstree_rotate_def rb_simps Let_def fun_upd_twist)
    qed (use hx hy xy rA rZ Leaf in \<open>auto simp: rb_simps\<close>)
  next
    case (mk C1 z cz vz C2)
    have hz: "h z = Some (mkn d y cz (root C1) (root C2) vz)"
      and z: "z \<noteq> NULL" "z \<noteq> x" "z \<noteq> y" "z \<notin> set (addrs A)" "z \<notin> set (addrs Z)"
        "z \<notin> set (addrs C1)" "z \<notin> set (addrs C2)"
        "x \<notin> set (addrs C1)" "x \<notin> set (addrs C2)" "y \<notin> set (addrs C1)" "y \<notin> set (addrs C2)"
      and rC12: "repr h z C1" "repr h z C2"
      using rC xy dj mk by (auto simp: rb_simps)
    define h' where "h' = h(x \<mapsto> mkn d y cx (root A) z vx, z \<mapsto> mkn d x cz (root C1) (root C2) vz,
        y \<mapsto> mkn d q cy x (root Z) vy)"
    have eq: "h(x \<mapsto> mkn d q cx (root A) z vx, z \<mapsto> mkn d x cz (root C1) (root C2) vz,
        y \<mapsto> mkn d q cy x (root Z) vy, x \<mapsto> mkn d y cx (root A) z vx) = h'"
      unfolding h'_def using xy(3) z(2) by (intro ext) simp
    show thesis
    proof (rule that [of h'])
      show "bstree_rotate h tree x d = (if q \<noteq> NULL
        then do { p \<leftarrow> h' q; h'' \<leftarrow> upd h' q (set_nodes (x = nodes p True) y); Some (h'', tree) }
        else Some (h', y))"
        using hx hy hz xy z mk eq by (simp add: bstree_rotate_def rb_simps Let_def)
    qed (use hx hy hz xy z rA rZ rC12 mk in \<open>auto simp: rb_simps h'_def\<close>)
  qed
qed

lemma rotate_repr:
  assumes "rb_tree h tree (plug fs (mk d A (x, cx, vx) (mk d C (y, cy, vy) Z)))"
  obtains h' where
    "bstree_rotate h tree x d =
       Some (h', root (plug fs (mk d (mk d A (x, cx, vx) C) (y, cy, vy) Z)))"
    and "rb_tree h' (root (plug fs (mk d (mk d A (x, cx, vx) C) (y, cy, vy) Z)))
           (plug fs (mk d (mk d A (x, cx, vx) C) (y, cy, vy) Z))"
    and "same_outside (plug fs (mk d A (x, cx, vx) (mk d C (y, cy, vy) Z))) h h'"
proof -
  let ?old = "mk d A (x, cx, vx) (mk d C (y, cy, vy) Z)"
  let ?new = "mk d (mk d A (x, cx, vx) C) (y, cy, vy) Z"
  note wf = assms[unfolded rb_tree_plug]
  have old: "repr h (ctx_par fs) ?old" "distinct (addrs ?old)"
    using wf by auto
  obtain h1 where h1: "bstree_rotate h tree x d = (if ctx_par fs \<noteq> NULL
        then do { p \<leftarrow> h1 (ctx_par fs); h'' \<leftarrow> upd h1 (ctx_par fs) (set_nodes (x = nodes p True) y);
                  Some (h'', tree) }
        else Some (h1, y))"
    "repr h1 (ctx_par fs) ?new" "same_outside ?old h h1"
    by (rule rotate_subtree [OF old])
  have addrs_eq: "set (addrs ?new) = set (addrs ?old)"
    by (auto simp: rb_simps)
  have dist: "distinct (addrs ?new)"
    using wf by (auto simp: rb_simps)
  have ctx1: "repr_ctx h1 fs x"
  proof -
    have "repr_ctx h fs x = repr_ctx h1 fs x"
      by (rule repr_ctx_frame) (use h1(3) wf in auto)
    then show ?thesis using wf by (simp add: rb_simps)
  qed
  show thesis
  proof (cases fs rule: ctx_par.cases)
    case 1
    show thesis
      by (rule that [of h1]) (use 1 h1 dist wf in \<open>auto simp: rb_tree_plug rb_simps rb_tree_def\<close>)
  next
    case (2 e a c v s fs')
    have ha: "h1 a = Some (mkn e (ctx_par fs') c x (root s) v)" and a0: "a \<noteq> NULL"
      and rs: "repr h1 a s" and rf: "repr_ctx h1 fs' a"
      using ctx1 2 by auto
    have anin: "a \<notin> set (addrs ?new)" "a \<notin> set (addrs s)" "a \<notin> set (ctx_addrs fs')"
      using wf 2 by (auto simp: rb_simps)
    have "x \<notin> set (addrs s)" "x \<noteq> NULL"
      using wf 2 by (auto simp: rb_simps)
    then have "root s \<noteq> x" using rs by (metis root_neq)
    then have side: "(x = nodes (mkn e (ctx_par fs') c x (root s) v) True) = e"
      by (auto simp: nodes_True_mkn)
    define h2 where "h2 = h1(a \<mapsto> mkn e (ctx_par fs') c y (root s) v)"
    show thesis
    proof (rule that [of h2])
      show "bstree_rotate h tree x d = Some (h2, root (plug fs ?new))"
        using h1(1) ha a0 side wf 2 by (simp add: rb_simps h2_def root_plug)
      show "rb_tree h2 (root (plug fs ?new)) (plug fs ?new)"
        unfolding rb_tree_plug using h1(2) rs rf a0 anin dist wf 2 addrs_eq
        by (auto simp: h2_def rb_simps root_plug)
      show "same_outside (plug fs ?old) h h2"
        using h1(3) 2 by (auto simp: h2_def set_addrs_plug rb_simps)
    qed
  qed
qed

subsection \<open>What a rotation and a recolouring keep\<close>

lemma entries_mk: "entries (mk d t (a, c, v) s) =
    (if d then entries s @ (a, v) # entries t else entries t @ (a, v) # entries s)"
  by (simp add: mk_def)

lemma entries_rotate:
  "entries (mk d (mk d A x C) y Z) = entries (mk d A x (mk d C y Z))"
  by (cases x; cases y) (simp add: mk_def)

lemma entries_plug_cong: "entries t = entries t' \<Longrightarrow> entries (plug fs t) = entries (plug fs t')"
proof (induction fs arbitrary: t t')
  case (Cons f fs)
  show ?case
  proof (cases f rule: frame_cases)
    case (1 d a c v s)
    then show ?thesis
      using Cons.prems Cons.IH [of "mk d t (a, c, v) s" "mk d t' (a, c, v) s"]
      by (simp add: entries_mk)
  qed
qed simp

end
