(* ===== verification/RBTree_Add.thy ===== *)
theory RBTree_Add
  imports RBTree_Rotate
begin

text \<open>
  \<open>rbtree_add\<close> of \<open>src/src/rbtree.c\<close>. The recolouring loop is refined to \<open>fixup\<close>, a function on
  a path and a focus; the colour and black-height invariants and the in-order sequence are proved
  of \<open>fixup\<close> and carried to the heap by the refinement.
\<close>

fun is_red :: "rbt \<Rightarrow> bool" where
  "is_red Leaf = False"
| "is_red (Node l (a, c, v) r) = c"

fun paint :: "bool \<Rightarrow> rbt \<Rightarrow> rbt" where
  "paint c Leaf = Leaf"
| "paint c (Node l (a, c', v) r) = Node l (a, c, v) r"

lemma mk_neq_Leaf [simp]: "mk d l x r \<noteq> Leaf"
  by (simp add: mk_def)

lemma is_red_mk [rb_simps]: "is_red (mk d l (a, c, v) r) = c"
  by (simp add: mk_def)

lemma paint_mk [rb_simps]: "paint c (mk d l (a, c', v) r) = mk d l (a, c, v) r"
  by (simp add: mk_def)

lemma set_addrs_paint: "set (addrs (paint c t)) = set (addrs t)"
  by (cases "(c, t)" rule: paint.cases) auto

text \<open>The tree the loop builds when the uncle is not red.\<close>

definition restructure ::
  "bool \<Rightarrow> bool \<Rightarrow> rbt \<Rightarrow> rblab \<Rightarrow> rbt \<Rightarrow> rblab \<Rightarrow> rbt \<Rightarrow> rbt" where
  "restructure d e t p s g u =
     (case (p, g) of ((pa, pc, pv), (ga, gc, gv)) \<Rightarrow>
        if d = e then mk e t (pa, False, pv) (mk e s (ga, True, gv) u)
        else case t of Leaf \<Rightarrow> Leaf
             | Node l (x, cx, vx) r \<Rightarrow>
                 mk e (mk e s (pa, pc, pv) (if e then r else l)) (x, False, vx)
                      (mk e (if e then l else r) (ga, True, gv) u))"

fun fixup :: "frame list \<Rightarrow> rbt \<Rightarrow> rbt" where
  "fixup [] t = paint False t"
| "fixup [(d, (p, c, v), s)] t = mk d t (p, False, v) s"
| "fixup ((d, (p, c, v), s) # (e, (g, cg, vg), u) # fs) t =
     (if \<not> c then plug ((d, (p, c, v), s) # (e, (g, cg, vg), u) # fs) t
      else if \<not> is_red u then plug fs (restructure d e t (p, c, v) s (g, cg, vg) u)
      else fixup fs (mk e (mk d t (p, False, v) s) (g, True, vg) (paint False u)))"

lemma restructure_outer:
  "restructure d d t (p, c, v) s (g, cg, vg) u = mk d t (p, False, v) (mk d s (g, True, vg) u)"
  by (simp add: restructure_def)

lemma restructure_inner:
  "restructure (\<not> e) e (mk e t1 (x, cx, vx) t2) (p, c, v) s (g, cg, vg) u =
     mk e (mk e s (p, c, v) t1) (x, False, vx) (mk e t2 (g, True, vg) u)"
  by (cases e) (simp_all add: restructure_def mk_def)

subsection \<open>Refinement\<close>

lemma recolour_repr:
  assumes "rb_tree h tree (plug fs (mk d l (a, c, v) r))"
  obtains h' where "upd h a (set_red c') = Some h'"
    and "rb_tree h' tree (plug fs (mk d l (a, c', v) r))"
    and "same_outside (plug fs (mk d l (a, c, v) r)) h h'"
proof -
  have ha: "h a = Some (mkn d (ctx_par fs) c (root l) (root r) v)"
    using assms by (auto simp: rb_tree_plug rb_simps)
  show thesis
  proof (rule that [of "h(a \<mapsto> mkn d (ctx_par fs) c' (root l) (root r) v)"])
    show "upd h a (set_red c') = Some (h(a \<mapsto> mkn d (ctx_par fs) c' (root l) (root r) v))"
      using ha by (simp add: rb_simps)
    show "rb_tree (h(a \<mapsto> mkn d (ctx_par fs) c' (root l) (root r) v)) tree
        (plug fs (mk d l (a, c', v) r))"
      using assms unfolding rb_tree_plug by (auto simp: rb_simps)
  qed (auto simp: set_addrs_plug rb_simps)
qed

text \<open>Reading the neighbourhood of the focus.\<close>

lemma rb_tree_lookup:
  assumes "rb_tree h tree (plug ((d, (p, c, v), s) # fs) t)"
  shows "h p = Some (mkn d (ctx_par fs) c (root t) (root s) v)"
    and "p \<noteq> NULL"
  using assms by (auto simp: rb_tree_plug rb_simps)

lemma rb_tree_root_red:
  assumes "rb_tree h tree (plug ((d, x, s) # fs) t)"
  shows "(if root s = NULL then Some False else map_option rb_red (h (root s))) = Some (is_red s)"
proof (cases s)
  case (Node l y r)
  obtain a c v where y: "y = (a, c, v)" by (cases y) auto
  obtain p pc pv where x: "x = (p, pc, pv)" by (cases x) auto
  have "repr h p s" using assms x by (auto simp: rb_tree_plug rb_simps)
  then show ?thesis using Node y by auto
qed simp

lemma rb_tree_focus_neq:
  assumes "rb_tree h tree (plug ((d, x, s) # fs) t)" and "t \<noteq> Leaf"
  shows "root t \<noteq> root s"
proof -
  obtain p pc pv where x: "x = (p, pc, pv)" by (cases x) auto
  have "root t \<in> set (addrs t)" using assms(2) by (rule root_in_addrs)
  moreover have "set (addrs t) \<inter> set (addrs s) = {}" "repr h p t" "repr h p s"
    using assms(1) x by (auto simp: rb_tree_plug rb_simps)
  moreover have "root t \<noteq> NULL"
    using assms(2) \<open>repr h p t\<close> root_eq_NULL_iff by blast
  ultimately show ?thesis
    by (metis disjoint_iff root.simps(1) root_in_addrs)
qed

lemma add_fixup_outer:
  assumes wf: "rb_tree h tree (plug ((e, (p, c, v), s) # (e, (g, cg, vg), u) # fs) t)"
  obtains h1 h2 h3 T where "bstree_rotate h tree g (\<not> e) = Some (h1, T)"
    and "upd h1 p (set_red False) = Some h2" and "upd h2 g (set_red True) = Some h3"
    and "T = root (plug fs (mk e t (p, False, v) (mk e s (g, True, vg) u)))"
    and "rb_tree h3 T (plug fs (mk e t (p, False, v) (mk e s (g, True, vg) u)))"
    and "same_outside (plug ((e, (p, c, v), s) # (e, (g, cg, vg), u) # fs) t) h h3"
proof -
  let ?t0 = "plug fs (mk (\<not> e) u (g, cg, vg) (mk (\<not> e) s (p, c, v) t))"
  have t0: "plug ((e, (p, c, v), s) # (e, (g, cg, vg), u) # fs) t = ?t0"
    by (simp add: mk_flip)
  let ?t1 = "plug fs (mk e t (p, c, v) (mk e s (g, cg, vg) u))"
  obtain h1 where h1: "bstree_rotate h tree g (\<not> e) = Some (h1, root ?t1)"
      "rb_tree h1 (root ?t1) ?t1" "same_outside ?t0 h h1"
    using rotate_repr [OF wf [unfolded t0]] unfolding mk_flip by blast
  obtain h2 where h2: "upd h1 p (set_red False) = Some h2"
      "rb_tree h2 (root ?t1) (plug fs (mk e t (p, False, v) (mk e s (g, cg, vg) u)))"
      "same_outside ?t1 h1 h2"
    by (rule recolour_repr [OF h1(2)])
  have t2: "plug fs (mk e t (p, False, v) (mk e s (g, b, vg) u)) =
      plug ((\<not> e, (p, False, v), t) # fs) (mk e s (g, b, vg) u)" for b
    by (simp add: mk_flip)
  obtain h3 where h3: "upd h2 g (set_red True) = Some h3"
      "rb_tree h3 (root ?t1) (plug fs (mk e t (p, False, v) (mk e s (g, True, vg) u)))"
      "same_outside (plug fs (mk e t (p, False, v) (mk e s (g, cg, vg) u))) h2 h3"
    using recolour_repr [OF h2(2) [unfolded t2]] unfolding t2 by blast
  show thesis
  proof (rule that [OF h1(1) h2(1) h3(1) _ h3(2)])
    show "same_outside (plug ((e, (p, c, v), s) # (e, (g, cg, vg), u) # fs) t) h h3"
      using h1(3) h2(3) h3(3) unfolding t0 by (auto simp: set_addrs_plug rb_simps mk_flip)
  qed (simp add: root_plug rb_simps)
qed

lemma add_fixup_inner:
  assumes wf: "rb_tree h tree (plug ((\<not> e, (p, c, v), s) # (e, (g, cg, vg), u) # fs) (mk e t1 (x, cx, vx) t2))"
  obtains h1 where "bstree_rotate h tree p e = Some (h1, tree)"
    and "rb_tree h1 tree (plug ((e, (x, cx, vx), t2) # (e, (g, cg, vg), u) # fs) (mk e s (p, c, v) t1))"
    and "same_outside (plug ((\<not> e, (p, c, v), s) # (e, (g, cg, vg), u) # fs) (mk e t1 (x, cx, vx) t2)) h h1"
proof -
  let ?fs = "(e, (g, cg, vg), u) # fs"
  let ?t0 = "plug ?fs (mk e s (p, c, v) (mk e t1 (x, cx, vx) t2))"
  have t0: "plug ((\<not> e, (p, c, v), s) # ?fs) (mk e t1 (x, cx, vx) t2) = ?t0"
    by (simp add: mk_flip)
  let ?t1 = "plug ?fs (mk e (mk e s (p, c, v) t1) (x, cx, vx) t2)"
  have tree: "root ?t1 = tree"
    using wf by (simp add: rb_tree_def root_plug rb_simps)
  obtain h1 where "bstree_rotate h tree p e = Some (h1, root ?t1)"
      "rb_tree h1 (root ?t1) ?t1" "same_outside ?t0 h h1"
    by (rule rotate_repr [OF wf [unfolded t0]])
  then show thesis
    using that unfolding t0 tree by simp
qed

lemma add_fixup_red:
  assumes wf: "rb_tree h tree (plug ((d, (p, c, v), s) # (e, (g, cg, vg), u) # fs) t)"
    and u: "is_red u"
  obtains h1 h2 h3 where "upd h p (set_red False) = Some h1"
    and "upd h1 (root u) (set_red False) = Some h2" and "upd h2 g (set_red True) = Some h3"
    and "rb_tree h3 tree (plug fs (mk e (mk d t (p, False, v) s) (g, True, vg) (paint False u)))"
    and "same_outside (plug ((d, (p, c, v), s) # (e, (g, cg, vg), u) # fs) t) h h3"
proof -
  let ?t0 = "plug ((d, (p, c, v), s) # (e, (g, cg, vg), u) # fs) t"
  obtain ul ua uc uv ur where u': "u = mk e ul (ua, uc, uv) ur"
    by (rule rbt_cases_dir [where t = u and d = e]) (use u in auto)
  have t0: "?t0 = plug ((e, (g, cg, vg), u) # fs) (mk d t (p, c, v) s)"
    by simp
  obtain h1 where h1: "upd h p (set_red False) = Some h1"
      "rb_tree h1 tree (plug ((e, (g, cg, vg), u) # fs) (mk d t (p, False, v) s))"
      "same_outside ?t0 h h1"
    using recolour_repr [OF wf [unfolded t0], of False] unfolding t0 by blast
  have t1: "plug ((e, (g, cg, vg), mk e ul (ua, b, uv) ur) # fs) (mk d t (p, False, v) s) =
      plug ((\<not> e, (g, cg, vg), mk d t (p, False, v) s) # fs) (mk e ul (ua, b, uv) ur)" for b
    by (simp add: mk_flip)
  obtain h2 where h2: "upd h1 ua (set_red False) = Some h2"
      "rb_tree h2 tree (plug ((\<not> e, (g, cg, vg), mk d t (p, False, v) s) # fs) (mk e ul (ua, False, uv) ur))"
      "same_outside (plug ((\<not> e, (g, cg, vg), mk d t (p, False, v) s) # fs) (mk e ul (ua, uc, uv) ur)) h1 h2"
    by (rule recolour_repr [OF h1(2) [unfolded u' t1]])
  obtain h3 where h3: "upd h2 g (set_red True) = Some h3"
      "rb_tree h3 tree (plug fs (mk e (mk d t (p, False, v) s) (g, True, vg) (mk e ul (ua, False, uv) ur)))"
      "same_outside (plug fs (mk e (mk d t (p, False, v) s) (g, cg, vg) (mk e ul (ua, False, uv) ur))) h2 h3"
    by (rule recolour_repr [OF h2(2) [folded t1, unfolded plug.simps]])
  have "same_outside ?t0 h h3"
    using h1(3) h2(3) h3(3) unfolding u' by (auto simp: set_addrs_plug rb_simps)
  then show thesis
    using that [OF h1(1) _ h3(1)] h2(1) h3(2) by (simp add: u' rb_simps)
qed

lemma add_fixup_repr:
  assumes "rb_tree h tree (plug fs t)" and "fs \<noteq> []" and "t \<noteq> Leaf"
  shows "\<exists>h'. add_fixup h tree (root t) (ctx_par fs) = Some (h', root (fixup fs t)) \<and>
      rb_tree h' (root (fixup fs t)) (fixup fs t) \<and> same_outside (plug fs t) h h'"
  using assms
proof (induction fs t arbitrary: h rule: fixup.induct)
  case (1 t)
  then show ?case by simp
next
  case (2 d p c v s t)
  have hp: "h p = Some (mkn d NULL c (root t) (root s) v)"
    using rb_tree_lookup [OF "2.prems"(1)] by simp
  have tree: "tree = p" using "2.prems"(1) by (simp add: rb_tree_def rb_simps)
  show ?case
  proof (cases c)
    case True
    obtain h' where "upd h p (set_red False) = Some h'" "rb_tree h' tree (plug [] (mk d t (p, False, v) s))"
        "same_outside (plug [] (mk d t (p, c, v) s)) h h'"
      by (rule recolour_repr [of h tree "[]" d t p c v s False]) (use "2.prems" in simp_all)
    then show ?thesis
      using hp True tree by (subst add_fixup.simps) (simp add: rb_simps)
  next
    case False
    then show ?thesis
      using hp tree "2.prems"(1) by (subst add_fixup.simps) (simp add: rb_simps)
  qed
next
  case (3 d p c v s e g cg vg u fs t)
  let ?fs = "(d, (p, c, v), s) # (e, (g, cg, vg), u) # fs"
  note wf = "3.prems"(1)
  have hp: "h p = Some (mkn d g c (root t) (root s) v)"
    using rb_tree_lookup(1) [OF wf] by simp
  have wf': "rb_tree h tree (plug ((e, (g, cg, vg), u) # fs) (mk d t (p, c, v) s))"
    using wf by simp
  have hg: "h g = Some (mkn e (ctx_par fs) cg p (root u) vg)" and g0: "g \<noteq> NULL"
    using rb_tree_lookup [OF wf'] by (simp_all add: rb_simps)
  have up: "root u \<noteq> p"
    using rb_tree_focus_neq [OF wf'] by (simp add: rb_simps)
  have st: "root t \<noteq> root s"
    using rb_tree_focus_neq [OF wf] "3.prems"(3) by simp
  have idx: "(p \<noteq> nodes (mkn e (ctx_par fs) cg p (root u) vg) False) = e"
    using up by (simp add: nodes_False_mkn)
  have ured: "(if root u = NULL then Some False else map_option rb_red (h (root u))) = Some (is_red u)"
    by (rule rb_tree_root_red [OF wf'])
  have body: "add_fixup h tree (root t) p =
     (if \<not> c then Some (h, tree)
      else if \<not> is_red u
      then do {
        (h, tree, prev) \<leftarrow>
          (if root t = (if d = e then root s else root t)
           then do { (h, tree) \<leftarrow> bstree_rotate h tree p e; g \<leftarrow> h g; Some (h, tree, nodes g e) }
           else Some (h, tree, p));
        (h, tree) \<leftarrow> bstree_rotate h tree g (\<not> e);
        h \<leftarrow> upd h prev (set_red False);
        h \<leftarrow> upd h g (set_red True);
        Some (h, tree) }
      else do {
        h \<leftarrow> upd h p (set_red False);
        h \<leftarrow> upd h (root u) (set_red False);
        h \<leftarrow> upd h g (set_red True);
        if ctx_par fs \<noteq> NULL then add_fixup h tree g (ctx_par fs)
        else do { h \<leftarrow> upd h tree (set_red False); Some (h, tree) } })"
    using hp hg g0 idx ured
    by (subst add_fixup.simps) (cases d; cases e; simp add: Let_def rb_simps nodes_True_mkn nodes_False_mkn cong: if_cong)
  consider "\<not> c" | "c" "\<not> is_red u" "d = e" | "c" "\<not> is_red u" "d = (\<not> e)" | "c" "is_red u"
    by blast
  then show ?case
  proof cases
    case 1
    then show ?thesis
      using wf body by (simp add: rb_tree_def)
  next
    case 2
    obtain h1 h2 h3 T where "bstree_rotate h tree g (\<not> e) = Some (h1, T)"
      "upd h1 p (set_red False) = Some h2" "upd h2 g (set_red True) = Some h3"
      "T = root (plug fs (mk e t (p, False, v) (mk e s (g, True, vg) u)))"
      "rb_tree h3 T (plug fs (mk e t (p, False, v) (mk e s (g, True, vg) u)))"
      "same_outside (plug ?fs t) h h3"
      using wf unfolding 2(3) by (rule add_fixup_outer)
    then show ?thesis
      using body 2 st by (simp add: restructure_outer)
  next
    case 3
    obtain t1 x cx vx t2 where t: "t = mk e t1 (x, cx, vx) t2"
      by (rule rbt_cases_dir [where t = t and d = e]) (use "3.prems"(3) in auto)
    obtain h0 where h0: "bstree_rotate h tree p e = Some (h0, tree)"
      "rb_tree h0 tree (plug ((e, (x, cx, vx), t2) # (e, (g, cg, vg), u) # fs) (mk e s (p, c, v) t1))"
      "same_outside (plug ?fs t) h h0"
      using wf unfolding 3(3) t by (rule add_fixup_inner)
    have g1: "h0 g = Some (mkn e (ctx_par fs) cg x (root u) vg)"
      using rb_tree_lookup(1) [of h0 tree e g cg vg u fs "mk e (mk e s (p, c, v) t1) (x, cx, vx) t2"] h0(2)
      by (simp add: rb_simps)
    let ?t' = "plug fs (mk e (mk e s (p, c, v) t1) (x, False, vx) (mk e t2 (g, True, vg) u))"
    obtain h1 h2 h3 T where "bstree_rotate h0 tree g (\<not> e) = Some (h1, T)"
      "upd h1 x (set_red False) = Some h2" "upd h2 g (set_red True) = Some h3" "T = root ?t'"
      "rb_tree h3 T ?t'"
      and so: "same_outside (plug ((e, (x, cx, vx), t2) # (e, (g, cg, vg), u) # fs) (mk e s (p, c, v) t1)) h0 h3"
      using h0(2) by (rule add_fixup_outer)
    moreover have "same_outside (plug ?fs t) h h3"
      using h0(3) so unfolding t by (auto simp: set_addrs_plug rb_simps)
    moreover have "fixup ?fs t = ?t'"
      using 3 t by (simp add: restructure_inner)
    ultimately show ?thesis
      using body 3 h0(1) g1 by (simp add: rb_simps)
  next
    case 4
    let ?t' = "mk e (mk d t (p, False, v) s) (g, True, vg) (paint False u)"
    obtain h1 h2 h3 where h: "upd h p (set_red False) = Some h1"
      "upd h1 (root u) (set_red False) = Some h2" "upd h2 g (set_red True) = Some h3"
      and wf3: "rb_tree h3 tree (plug fs ?t')" and so3: "same_outside (plug ?fs t) h h3"
      using wf 4(2) by (rule add_fixup_red)
    show ?thesis
    proof (cases "fs = []")
      case True
      obtain h4 where "upd h3 g (set_red False) = Some h4"
        "rb_tree h4 tree (plug fs (mk e (mk d t (p, False, v) s) (g, False, vg) (paint False u)))"
        "same_outside (plug fs ?t') h3 h4"
        by (rule recolour_repr [OF wf3])
      moreover have "tree = g"
        using wf True by (simp add: rb_tree_def rb_simps)
      ultimately show ?thesis
        using body 4 h True so3 by (auto simp: rb_simps set_addrs_plug set_addrs_paint)
    next
      case False
      have "ctx_par fs \<noteq> NULL"
        using False wf3 ctx_par_NULL_iff unfolding rb_tree_plug by blast
      moreover obtain h' where "add_fixup h3 tree (root ?t') (ctx_par fs) = Some (h', root (fixup fs ?t'))"
        "rb_tree h' (root (fixup fs ?t')) (fixup fs ?t')" "same_outside (plug fs ?t') h3 h'"
        using "3.IH" [of h3] 4 wf3 False by auto
      ultimately show ?thesis
        using body 4 h so3 by (auto simp: rb_simps set_addrs_plug set_addrs_paint)
    qed
  qed
qed

subsection \<open>The colour and black-height invariants\<close>

fun invc :: "rbt \<Rightarrow> bool" where
  "invc Leaf = True"
| "invc (Node l (a, c, v) r) \<longleftrightarrow> (c \<longrightarrow> \<not> is_red l \<and> \<not> is_red r) \<and> invc l \<and> invc r"

fun bh :: "rbt \<Rightarrow> nat" where
  "bh Leaf = 0"
| "bh (Node l (a, c, v) r) = bh l + (if c then 0 else 1)"

fun invh :: "rbt \<Rightarrow> bool" where
  "invh Leaf = True"
| "invh (Node l (a, c, v) r) \<longleftrightarrow> bh l = bh r \<and> invh l \<and> invh r"

definition rb_inv :: "rbt \<Rightarrow> bool" where
  "rb_inv t \<longleftrightarrow> invc t \<and> invh t \<and> key_ordered t"

fun invc_ctx :: "frame list \<Rightarrow> bool \<Rightarrow> bool" where
  "invc_ctx [] b = True"
| "invc_ctx ((d, (a, c, v), s) # fs) b \<longleftrightarrow> (c \<longrightarrow> \<not> b \<and> \<not> is_red s) \<and> invc s \<and> invc_ctx fs c"

fun invh_ctx :: "frame list \<Rightarrow> nat \<Rightarrow> bool" where
  "invh_ctx [] n = True"
| "invh_ctx ((d, (a, c, v), s) # fs) n \<longleftrightarrow>
     invh s \<and> bh s = n \<and> invh_ctx fs (n + (if c then 0 else 1))"

lemma inv_mk [rb_simps]:
  "invc (mk d l (a, c, v) r) \<longleftrightarrow> (c \<longrightarrow> \<not> is_red l \<and> \<not> is_red r) \<and> invc l \<and> invc r"
  "invh (mk d l (a, c, v) r) \<longleftrightarrow> bh l = bh r \<and> invh l \<and> invh r"
  "bh l = bh r \<Longrightarrow> bh (mk d l (a, c, v) r) = bh r + (if c then 0 else 1)"
  by (auto simp: mk_def)

lemma inv_paint [rb_simps]:
  "invc t \<Longrightarrow> invc (paint False t)" "invh (paint c t) = invh t" "\<not> is_red (paint False t)"
  "is_red t \<Longrightarrow> bh (paint False t) = bh t + 1"
  by (cases t rule: root.cases; simp)+

lemma invc_plug: "invc (plug fs t) \<longleftrightarrow> invc t \<and> invc_ctx fs (is_red t)"
proof (induction fs arbitrary: t)
  case (Cons f fs)
  obtain d a c v s where "f = (d, (a, c, v), s)"
    by (rule frame_cases)
  then show ?case
    using Cons.IH [of "mk d t (a, c, v) s"] by (auto simp: inv_mk is_red_mk)
qed simp

lemma invh_plug: "invh (plug fs t) \<longleftrightarrow> invh t \<and> invh_ctx fs (bh t)"
proof (induction fs arbitrary: t)
  case (Cons f fs)
  obtain d a c v s where "f = (d, (a, c, v), s)"
    by (rule frame_cases)
  then show ?case
    using Cons.IH [of "mk d t (a, c, v) s"] by (cases "bh t = bh s") (auto simp: inv_mk)
qed simp

lemma restructure_inv:
  assumes "invh_ctx ((d, (p, True, v), s) # (e, (g, False, vg), u) # fs) (bh t)" "invh t"
    and "invc t" "is_red t" "invc_ctx ((d, (p, True, v), s) # (e, (g, False, vg), u) # fs) False"
    and "\<not> is_red u"
  shows "invh (plug fs (restructure d e t (p, True, v) s (g, False, vg) u)) \<and>
         invc (plug fs (restructure d e t (p, True, v) s (g, False, vg) u))"
proof (cases "d = e")
  case True
  then show ?thesis
    using assms by (simp add: restructure_outer invh_plug invc_plug rb_simps)
next
  case False
  then have d: "d = (\<not> e)" by simp
  obtain t1 x cx vx t2 where t: "t = mk e t1 (x, cx, vx) t2"
    by (rule rbt_cases_dir [where t = t and d = e]) (use assms(4) in auto)
  obtain n where n: "bh t = n" by simp
  have "cx" using assms(4) unfolding t by (simp add: rb_simps)
  then have t12: "bh t2 = n" "bh t1 = n" "invh t1" "invh t2" "invc t1" "invc t2" "\<not> is_red t1" "\<not> is_red t2"
    using n assms(2,3) unfolding t inv_mk by (simp_all add: rb_simps)
  have su: "bh s = n" "bh u = n" "invh s" "invh u" "invc s" "invc u" "\<not> is_red s" "\<not> is_red u"
    "invh_ctx fs (n + 1)" "invc_ctx fs False"
    using assms n by simp_all
  show ?thesis
    unfolding d t restructure_inner using t12 su
    by (simp add: invh_plug invc_plug rb_simps)
qed

lemma fixup_inv:
  assumes "invh_ctx fs (bh t)" "invh t" "invc t" "is_red t" "invc_ctx fs False"
  shows "invh (fixup fs t) \<and> invc (fixup fs t)"
  using assms
proof (induction fs t rule: fixup.induct)
  case (1 t)
  then show ?case by (simp add: rb_simps)
next
  case (2 d p c v s t)
  then show ?case by (simp add: rb_simps)
next
  case (3 d p c v s e g cg vg u fs t)
  consider "\<not> c" | "c" "\<not> is_red u" | "c" "is_red u"
    by blast
  then show ?case
  proof cases
    case 1
    then have "fixup ((d, (p, c, v), s) # (e, (g, cg, vg), u) # fs) t =
        plug ((d, (p, c, v), s) # (e, (g, cg, vg), u) # fs) t"
      by simp
    moreover have "invc_ctx ((d, (p, c, v), s) # (e, (g, cg, vg), u) # fs) (is_red t)"
      using 1 "3.prems"(5) by simp
    ultimately show ?thesis
      using "3.prems" unfolding invh_plug invc_plug by (simp only: invh_plug invc_plug simp_thms)
  next
    case 2
    then have "c = True" "cg = False"
      using "3.prems" by simp_all
    then show ?thesis
      using restructure_inv [of d p v s e g vg u fs t] "3.prems" 2 by simp
  next
    case 3
    then have c: "c = True" "cg = False"
      using "3.prems" by simp_all
    obtain n where n: "bh t = n" by simp
    have su: "bh s = n" "bh u = n" "invh s" "invh u" "invc s" "invc u" "\<not> is_red s"
      "invh_ctx fs (n + 1)" "invc_ctx fs False"
      using "3.prems" n c by simp_all
    let ?t' = "mk e (mk d t (p, False, v) s) (g, True, vg) (paint False u)"
    have "bh (mk d t (p, False, v) s) = n + 1" "bh (paint False u) = n + 1"
      using n su 3 by (simp_all add: inv_mk inv_paint)
    then have "bh ?t' = n + 1" "invh ?t'" "invc ?t'"
      using n su "3.prems"(2,3) by (simp_all add: inv_mk inv_paint is_red_mk)
    then show ?thesis
      using "3.IH" 3 su by (simp add: is_red_mk)
  qed
qed

lemma entries_restructure:
  assumes "t \<noteq> Leaf"
  shows "entries (restructure d e t p s g u) = entries (mk e (mk d t p s) g u)"
proof -
  obtain pa pc pv ga gc gv where pg: "p = (pa, pc, pv)" "g = (ga, gc, gv)"
    by (cases p; cases g) auto
  obtain t1 x cx vx t2 where t: "t = mk e t1 (x, cx, vx) t2"
    by (rule rbt_cases_dir [where t = t and d = e]) (use assms in auto)
  show ?thesis
  proof (cases "d = e")
    case True
    then show ?thesis
      unfolding pg by (simp add: restructure_outer entries_mk)
  next
    case False
    then have d: "d = (\<not> e)" by simp
    show ?thesis
      unfolding pg d t restructure_inner by (simp add: entries_mk)
  qed
qed

lemma entries_paint: "entries (paint c t) = entries t"
  by (cases "(c, t)" rule: paint.cases) auto

lemma entries_fixup: "t \<noteq> Leaf \<Longrightarrow> entries (fixup fs t) = entries (plug fs t)"
proof (induction fs t rule: fixup.induct)
  case (1 t)
  then show ?case by (simp add: entries_paint)
next
  case (2 d p c v s t)
  then show ?case by (simp add: entries_mk)
next
  case (3 d p c v s e g cg vg u fs t)
  have r: "entries (restructure d e t (p, c, v) s (g, cg, vg) u) =
      entries (mk e (mk d t (p, c, v) s) (g, cg, vg) u)"
    by (rule entries_restructure [OF "3.prems"])
  have q: "entries (mk e (mk d t (p, False, v) s) (g, True, vg) (paint False u)) =
      entries (mk e (mk d t (p, c, v) s) (g, cg, vg) u)"
    by (simp add: entries_mk entries_paint)
  show ?case
    using entries_plug_cong [OF r, of fs] entries_plug_cong [OF q, of fs] "3.IH" by (cases c) simp_all
qed

subsection \<open>The descent and the whole operation\<close>

fun ins_path :: "u32 \<Rightarrow> rbt \<Rightarrow> frame list \<Rightarrow> frame list" where
  "ins_path v Leaf fs = fs"
| "ins_path v (Node l (a, c, w) r) fs =
     (if w < v then ins_path v r ((True, (a, c, w), l) # fs)
      else ins_path v l ((False, (a, c, w), r) # fs))"

fun ctx_dir :: "frame list \<Rightarrow> bool" where
  "ctx_dir [] = False"
| "ctx_dir ((d, x, s) # fs) = d"

lemma plug_ins_path: "plug (ins_path v t fs) Leaf = plug fs t"
  by (induction v t fs rule: ins_path.induct) (simp_all add: mk_def)

lemma ins_path_neq_Nil: "t \<noteq> Leaf \<or> fs \<noteq> [] \<Longrightarrow> ins_path v t fs \<noteq> []"
  by (induction v t fs rule: ins_path.induct) auto

lemma add_descend_repr:
  assumes "repr h q t" and "t \<noteq> Leaf \<or> prev = ctx_par fs \<and> idx = ctx_dir fs"
  shows "add_descend h v (root t) prev idx =
    Some (ctx_par (ins_path v t fs), ctx_dir (ins_path v t fs))"
  using assms
proof (induction v t fs arbitrary: q prev idx rule: ins_path.induct)
  case (1 v fs)
  then show ?case by (subst add_descend.simps) simp
next
  case (2 v l a c w r fs)
  then show ?case
    by (subst add_descend.simps) (auto simp: nodes_def)
qed

definition ins :: "rbt \<Rightarrow> ptr \<Rightarrow> u32 \<Rightarrow> rbt" where
  "ins t a v = fixup (ins_path v t []) (Node Leaf (a, True, v) Leaf)"

text \<open>Linking a fresh node below the end of the path.\<close>

lemma link_leaf:
  assumes "rb_tree h tree (plug fs Leaf)" and "fs \<noteq> []" and "a \<noteq> NULL"
    and "a \<notin> set (addrs (plug fs Leaf))" and "h a = Some (mkn False NULL False NULL NULL v)"
  obtains h1 h2 where "upd h (ctx_par fs) (set_nodes (ctx_dir fs) a) = Some h1"
    and "upd h1 a (set_red True \<circ> set_parent (ctx_par fs)) = Some h2"
    and "rb_tree h2 tree (plug fs (Node Leaf (a, True, v) Leaf))"
    and "\<forall>b. b \<notin> insert a (set (addrs (plug fs Leaf))) \<longrightarrow> h2 b = h b"
proof -
  obtain d p c w s fs' where fs: "fs = (d, (p, c, w), s) # fs'"
    using assms(2) by (cases fs rule: ctx_par.cases) auto
  let ?h1 = "h(p \<mapsto> mkn d (ctx_par fs') c a (root s) w)"
  let ?h2 = "?h1(a \<mapsto> mkn False p True NULL NULL v)"
  note wf = assms(1)[unfolded fs rb_tree_plug, simplified]
  have a: "a \<noteq> p" "a \<notin> set (addrs s)" "a \<notin> set (ctx_addrs fs')"
    using assms(4) unfolding fs set_addrs_plug by auto
  show thesis
  proof (rule that [of ?h1 ?h2])
    show "upd h (ctx_par fs) (set_nodes (ctx_dir fs) a) = Some ?h1"
      using wf by (simp add: fs rb_simps)
    show "upd ?h1 a (set_red True \<circ> set_parent (ctx_par fs)) = Some ?h2"
      using assms(5) a by (simp add: fs rb_simps)
    show "rb_tree ?h2 tree (plug fs (Node Leaf (a, True, v) Leaf))"
      unfolding fs rb_tree_plug Node_mk using wf a assms(3) by (simp add: rb_simps)
  qed (simp add: fs set_addrs_plug rb_simps)
qed

lemma rbtree_add_repr:
  assumes "rb_tree h tree t" and "h a = Some n" and "a \<noteq> NULL" and "a \<notin> set (addrs t)"
  obtains h' where "rbtree_add h tree a = Some (h', root (ins t a (rb_val n)))"
    and "rb_tree h' (root (ins t a (rb_val n))) (ins t a (rb_val n))"
    and "\<forall>b. b \<notin> insert a (set (addrs t)) \<longrightarrow> h' b = h b"
proof -
  let ?v = "rb_val n"
  let ?h0 = "h(a \<mapsto> mkn False NULL False NULL NULL ?v)"
  have h0: "upd h a (set_red False \<circ> set_parent NULL \<circ> set_nodes False NULL \<circ> set_nodes True NULL) = Some ?h0"
    using assms(2) by (cases n) (simp add: set_red_def set_parent_def set_nodes_def mkn_def)
  have wf0: "rb_tree ?h0 tree t"
    using assms(1,4) by (simp add: rb_tree_def)
  show thesis
  proof (cases "t = Leaf")
    case True
    then have "rbtree_add h tree a = Some (?h0, a)"
      using assms(1-3) h0 by (simp add: rbtree_add_def rb_tree_def)
    then show thesis
      using True assms(3) by (intro that [of ?h0]) (simp_all add: ins_def rb_tree_def mkn_def)
  next
    case False
    let ?fs = "ins_path ?v t []"
    have fs: "?fs \<noteq> []" "plug ?fs Leaf = t"
      using False by (simp_all add: ins_path_neq_Nil plug_ins_path)
    obtain h1 h2 where h12: "upd ?h0 (ctx_par ?fs) (set_nodes (ctx_dir ?fs) a) = Some h1"
      "upd h1 a (set_red True \<circ> set_parent (ctx_par ?fs)) = Some h2"
      "rb_tree h2 tree (plug ?fs (Node Leaf (a, True, ?v) Leaf))"
      "\<forall>b. b \<notin> insert a (set (addrs t)) \<longrightarrow> h2 b = ?h0 b"
      using link_leaf [of ?h0 tree ?fs a ?v] wf0 fs assms(3,4) by auto
    obtain h3 where h3: "add_fixup h2 tree a (ctx_par ?fs) = Some (h3, root (ins t a ?v))"
      "rb_tree h3 (root (ins t a ?v)) (ins t a ?v)"
      "same_outside (plug ?fs (Node Leaf (a, True, ?v) Leaf)) h2 h3"
      using add_fixup_repr [OF h12(3) fs(1)] by (auto simp: ins_def)
    have "tree \<noteq> NULL" "repr ?h0 NULL t" "root t = tree"
      using wf0 False root_eq_NULL_iff unfolding rb_tree_def by auto
    then have "rbtree_add h tree a = Some (h3, root (ins t a ?v))"
      using assms(2,3) h0 h12(1,2) h3(1) add_descend_repr [of ?h0 NULL t tree "[]" False ?v] False
      by (simp add: rbtree_add_def)
    moreover have "set (addrs (plug ?fs (Node Leaf (a, True, ?v) Leaf))) = insert a (set (addrs t))"
      using set_addrs_plug [of ?fs Leaf] fs(2) by (auto simp: set_addrs_plug)
    ultimately show thesis
      using h3 h12(4) by (intro that [of h3]) auto
  qed
qed

subsection \<open>What an insertion does to the tree\<close>

definition insert_entry :: "ptr \<Rightarrow> u32 \<Rightarrow> (ptr \<times> u32) list \<Rightarrow> (ptr \<times> u32) list" where
  "insert_entry a v es = filter (\<lambda>e. snd e < v) es @ (a, v) # filter (\<lambda>e. v \<le> snd e) es"

fun bst_ins :: "ptr \<Rightarrow> u32 \<Rightarrow> rbt \<Rightarrow> rbt" where
  "bst_ins a v Leaf = Node Leaf (a, True, v) Leaf"
| "bst_ins a v (Node l (b, c, w) r) =
     (if w < v then Node l (b, c, w) (bst_ins a v r) else Node (bst_ins a v l) (b, c, w) r)"

lemma plug_ins_path_node:
  "plug (ins_path v t fs) (Node Leaf (a, True, v) Leaf) = plug fs (bst_ins a v t)"
  by (induction v t fs rule: ins_path.induct) (simp_all add: mk_def)

lemma entries_bst_ins: "key_ordered t \<Longrightarrow> entries (bst_ins a v t) = insert_entry a v (entries t)"
proof (induction a v t rule: bst_ins.induct)
  case (1 a v)
  then show ?case by (simp add: insert_entry_def)
next
  case (2 a v l b c w r)
  have lr: "key_ordered l" "key_ordered r"
    and l: "\<And>e. e \<in> set (entries l) \<Longrightarrow> snd e \<le> w" and r: "\<And>e. e \<in> set (entries r) \<Longrightarrow> w \<le> snd e"
    using "2.prems" by (auto simp: key_ordered_def sorted_append)
  show ?case
  proof (cases "w < v")
    case True
    then have "filter (\<lambda>e. snd e < v) (entries l) = entries l" "filter (\<lambda>e. v \<le> snd e) (entries l) = []"
      using l by (fastforce simp: filter_id_conv filter_empty_conv)+
    then show ?thesis
      using True "2.IH"(1) [OF True lr(2)] by (simp add: insert_entry_def)
  next
    case False
    then have "filter (\<lambda>e. v \<le> snd e) (entries r) = entries r" "filter (\<lambda>e. snd e < v) (entries r) = []"
      using r by (fastforce simp: filter_id_conv filter_empty_conv)+
    then show ?thesis
      using False "2.IH"(2) [OF False lr(1)] by (simp add: insert_entry_def)
  qed
qed

lemma entries_ins: "key_ordered t \<Longrightarrow> entries (ins t a v) = insert_entry a v (entries t)"
  by (simp add: ins_def entries_fixup plug_ins_path_node entries_bst_ins)

lemma key_ordered_insert_entry:
  "sorted (map snd es) \<Longrightarrow> sorted (map snd (insert_entry a v es))"
  by (auto simp: insert_entry_def sorted_append sorted_filter)

lemma rb_inv_ins:
  assumes "rb_inv t"
  shows "rb_inv (ins t a v)"
proof -
  let ?N = "Node Leaf (a, True, v) Leaf"
  have "invh (plug (ins_path v t []) Leaf)" "invc (plug (ins_path v t []) Leaf)"
    using assms by (simp_all add: plug_ins_path rb_inv_def)
  then have "invh (ins t a v) \<and> invc (ins t a v)"
    unfolding ins_def by (intro fixup_inv) (simp_all add: invh_plug invc_plug)
  moreover have "key_ordered (ins t a v)"
    using assms entries_ins [of t a v] key_ordered_insert_entry [of "entries t"]
    by (simp add: rb_inv_def key_ordered_def)
  ultimately show ?thesis
    by (simp add: rb_inv_def)
qed

subsection \<open>The height bound\<close>

lemma height_bh: "invc t \<Longrightarrow> invh t \<Longrightarrow> height t \<le> 2 * bh t + (if is_red t then 1 else 0)"
  by (induction t rule: invh.induct) (auto split: if_splits)

lemma size_bh: "invh t \<Longrightarrow> 2 ^ bh t \<le> size t + 1"
  by (induction t rule: invh.induct) auto

lemma height_bound:
  assumes "rb_inv t"
  shows "2 ^ height t \<le> 2 * (size t + 1) ^ 2"
proof -
  have "height t \<le> 2 * bh t + 1"
    using height_bh [of t] assms by (auto simp: rb_inv_def split: if_splits)
  then have "(2::nat) ^ height t \<le> 2 ^ (2 * bh t + 1)"
    by (rule power_increasing) simp
  also have "\<dots> = 2 * (2 ^ bh t) ^ 2"
    by (simp add: power_mult mult.commute)
  also have "\<dots> \<le> 2 * (size t + 1) ^ 2"
    using size_bh [of t] assms by (simp add: rb_inv_def power_mono)
  finally show ?thesis .
qed

end
