(* ===== verification/RBTree_Rebalance.thy ===== *)
theory RBTree_Rebalance
  imports RBTree_Add
begin

text \<open>
  The rebalancing loop of \<open>rbtree_remove\<close> (\<open>src/src/rbtree.c\<close>), one lemma per branch of a round:
  what the heap represents afterwards, that the in-order sequence is kept and, when no sibling on
  the path is red, that the missing black node is made up for. The red-sibling branch is shown
  as the source has it; it keeps the sequence but not the black height.
\<close>

subsection \<open>Reading and relinking at a focus\<close>

lemma repr_red_at: "repr h q t \<Longrightarrow> red_at h (root t) = Some (is_red t)"
  by (cases t rule: root.cases) (simp_all add: red_at_def)

lemma relink_focus:
  assumes "rb_tree h tree (plug fs t0)" and "t0 \<noteq> Leaf" and "fs \<noteq> []"
    and eq: "\<And>a. a \<in> set (ctx_addrs fs) \<Longrightarrow> h' a = h a"
    and t: "repr h' (ctx_par fs) t" "distinct (addrs t)" "set (addrs t) \<inter> set (ctx_addrs fs) = {}"
  obtains p h'' where "h' (ctx_par fs) = Some p" and "(nodes p False \<noteq> root t0) = ctx_dir fs"
    and "upd h' (ctx_par fs) (set_nodes (ctx_dir fs) (root t)) = Some h''"
    and "rb_tree h'' tree (plug fs t)"
    and "\<forall>a. a \<noteq> ctx_par fs \<longrightarrow> h'' a = h' a"
proof -
  obtain d p c v s fs' where fs: "fs = (d, (p, c, v), s) # fs'"
    using assms(3) by (cases fs rule: ctx_par.cases) auto
  note wf = assms(1)[unfolded fs rb_tree_plug, simplified]
  have hp: "h' p = Some (mkn d (ctx_par fs') c (root t0) (root s) v)"
    using wf eq [of p] by (simp add: fs rb_simps)
  have neq: "root t0 \<noteq> root s"
    using rb_tree_focus_neq [of h tree d "(p, c, v)" s fs' t0] assms(1,2) fs by simp
  have rs: "repr h' p s" and rc: "repr_ctx h' fs' p"
    using wf eq repr_frame [of s h h'] repr_ctx_frame [of fs' h h'] by (auto simp: fs rb_simps)
  let ?h = "h'(p \<mapsto> mkn d (ctx_par fs') c (root t) (root s) v)"
  show thesis
  proof (rule that [of _ ?h])
    show "h' (ctx_par fs) = Some (mkn d (ctx_par fs') c (root t0) (root s) v)"
      using hp by (simp add: fs)
    show "(nodes (mkn d (ctx_par fs') c (root t0) (root s) v) False \<noteq> root t0) = ctx_dir fs"
      using neq by (simp add: fs nodes_False_mkn)
    show "upd h' (ctx_par fs) (set_nodes (ctx_dir fs) (root t)) = Some ?h"
      using hp by (simp add: fs rb_simps)
    show "rb_tree ?h tree (plug fs t)"
      unfolding fs rb_tree_plug using wf rs rc t by (auto simp: fs rb_simps)
  qed (simp add: fs)
qed

subsection \<open>The rebalancing loop\<close>

definition child :: "bool \<Rightarrow> rbt \<Rightarrow> rbt" where
  "child d t = (case t of Leaf \<Rightarrow> Leaf | Node l x r \<Rightarrow> if d then r else l)"

lemma child_mk [rb_simps]: "child d (mk d l x r) = l" "child (\<not> d) (mk d l x r) = r"
  by (simp_all add: child_def mk_def)

definition sib_ok :: "bool \<Rightarrow> rbt \<Rightarrow> bool" where
  "sib_ok d s \<longleftrightarrow> s \<noteq> Leaf \<and>
     (is_red s \<longrightarrow> child (\<not> d) s \<noteq> Leaf \<and> \<not> is_red (child d s) \<and> \<not> is_red (child (\<not> d) s))"

fun path_ok :: "frame list \<Rightarrow> bool" where
  "path_ok [] = True"
| "path_ok ((d, x, s) # fs) \<longleftrightarrow> sib_ok d s \<and> path_ok fs"

text \<open>
  A black sibling \<open>mk d cn (sa, False, sv) dn\<close>: the focus \<open>t\<close> is on side \<open>d\<close> of \<open>p\<close>. The common
  first part of a round paints the parent and the sibling black.
\<close>

definition rest :: "rbheap \<Rightarrow> ptr \<Rightarrow> ptr \<Rightarrow> bool \<Rightarrow> bool \<Rightarrow> ptr \<Rightarrow> rbt \<Rightarrow> rbt \<Rightarrow> (rbheap \<times> ptr) option" where
  "rest h tree p d c sa cn dn =
     (if is_red dn
      then do { (h, tree) \<leftarrow> bstree_rotate h tree p d;
                h \<leftarrow> upd h sa (\<lambda>n. set_red (rb_red n \<or> c) n);
                h \<leftarrow> upd h (root dn) (set_red False);
                Some (h, tree) }
      else if is_red cn
      then do { (h, tree) \<leftarrow> bstree_rotate h tree sa (\<not> d);
                (h, tree) \<leftarrow> bstree_rotate h tree p d;
                h \<leftarrow> upd h (root cn) (set_red c);
                Some (h, tree) }
      else do {
        h \<leftarrow> upd h sa (set_red True);
        if c then Some (h, tree)
        else do {
          p' \<leftarrow> h p;
          if rb_parent p' = NULL then Some (h, tree)
          else do { q \<leftarrow> h (rb_parent p');
                    remove_fixup h tree (rb_parent p') (nodes q True = p) } } })"

lemma round_head:
  assumes wf: "rb_tree h tree (plug fs (mk d t (p, c, v) (mk d cn (sa, False, sv) dn)))"
  obtains h2 where "remove_fixup h tree p d = rest h2 tree p d c sa cn dn"
    and "rb_tree h2 tree (plug fs (mk d t (p, False, v) (mk d cn (sa, False, sv) dn)))"
    and "same_outside (plug fs (mk d t (p, c, v) (mk d cn (sa, False, sv) dn))) h h2"
proof -
  let ?s = "mk d cn (sa, False, sv) dn"
  have hp: "h p = Some (mkn d (ctx_par fs) c (root t) sa v)"
    and hs: "h sa = Some (mkn d p False (root cn) (root dn) sv)"
    using wf unfolding rb_tree_plug by (simp_all add: rb_simps)
  have h1: "upd h sa (set_red False) = Some h"
    using hs by (auto simp: rb_simps)
  obtain h2 where h2: "upd h p (set_red False) = Some h2"
      "rb_tree h2 tree (plug fs (mk d t (p, False, v) ?s))"
      "same_outside (plug fs (mk d t (p, c, v) ?s)) h h2"
    by (rule recolour_repr [OF wf])
  have "red_at h2 (root dn) = Some (is_red dn)" "red_at h2 (root cn) = Some (is_red cn)"
    using h2(2) repr_red_at unfolding rb_tree_plug by (auto simp: rb_simps)
  then have "remove_fixup h tree p d = rest h2 tree p d c sa cn dn"
    using hp hs h1 h2(1) by (subst remove_fixup.simps) (simp add: Let_def rb_simps rest_def)
  then show thesis
    using h2 that by blast
qed

lemma round_far_red:
  assumes wf: "rb_tree h tree (plug fs (mk d t (p, c, v) (mk d cn (sa, False, sv) (mk d d1 (x, True, xv) d2))))"
  obtains h' t' where "remove_fixup h tree p d = Some (h', root t')"
    and "rb_tree h' (root t') t'"
    and "t' = plug fs (mk d (mk d t (p, False, v) cn) (sa, c, sv) (mk d d1 (x, False, xv) d2))"
    and "same_outside (plug fs (mk d t (p, c, v) (mk d cn (sa, False, sv) (mk d d1 (x, True, xv) d2)))) h h'"
proof -
  let ?dn = "mk d d1 (x, True, xv) d2"
  obtain h2 where h2: "remove_fixup h tree p d = rest h2 tree p d c sa cn ?dn"
    "rb_tree h2 tree (plug fs (mk d t (p, False, v) (mk d cn (sa, False, sv) ?dn)))"
    "same_outside (plug fs (mk d t (p, c, v) (mk d cn (sa, False, sv) ?dn))) h h2"
    by (rule round_head [OF wf])
  let ?t3 = "plug fs (mk d (mk d t (p, False, v) cn) (sa, False, sv) ?dn)"
  obtain h3 where h3: "bstree_rotate h2 tree p d = Some (h3, root ?t3)" "rb_tree h3 (root ?t3) ?t3"
    "same_outside (plug fs (mk d t (p, False, v) (mk d cn (sa, False, sv) ?dn))) h2 h3"
    by (rule rotate_repr [OF h2(2)])
  have hs: "h3 sa = Some (mkn d (ctx_par fs) False p x sv)"
    using h3(2) unfolding rb_tree_plug by (simp add: rb_simps)
  obtain h4 where h4: "upd h3 sa (set_red c) = Some h4"
    "rb_tree h4 (root ?t3) (plug fs (mk d (mk d t (p, False, v) cn) (sa, c, sv) ?dn))"
    "same_outside ?t3 h3 h4"
    by (rule recolour_repr [OF h3(2)])
  have h4': "upd h3 sa (\<lambda>n. set_red (rb_red n \<or> c) n) = Some h4"
    using h4(1) hs by (simp add: rb_simps)
  have fl: "plug fs (mk d (mk d t (p, False, v) cn) (sa, c, sv) (mk d d1 (x, b, xv) d2)) =
      plug ((\<not> d, (sa, c, sv), mk d t (p, False, v) cn) # fs) (mk d d1 (x, b, xv) d2)" for b
    by (simp add: mk_flip)
  let ?t5 = "plug fs (mk d (mk d t (p, False, v) cn) (sa, c, sv) (mk d d1 (x, False, xv) d2))"
  obtain h5 where h5: "upd h4 x (set_red False) = Some h5" "rb_tree h5 (root ?t3) ?t5"
    "same_outside (plug fs (mk d (mk d t (p, False, v) cn) (sa, c, sv) ?dn)) h4 h5"
    unfolding fl by (rule recolour_repr [OF h4(2) [unfolded fl]])
  have r: "root ?t3 = root ?t5"
    by (simp add: root_plug rb_simps)
  show thesis
  proof (rule that [of h5 ?t5])
    show "remove_fixup h tree p d = Some (h5, root ?t5)"
      using h2(1) h3(1) h4' h5(1) r by (simp add: rest_def rb_simps)
    show "rb_tree h5 (root ?t5) ?t5"
      using h5(2) r by simp
    show "same_outside (plug fs (mk d t (p, c, v) (mk d cn (sa, False, sv) ?dn))) h h5"
      using h2(3) h3(3) h4(3) h5(3) by (auto simp: set_addrs_plug rb_simps)
  qed simp
qed

lemma round_near_red:
  assumes wf: "rb_tree h tree (plug fs (mk d t (p, c, v) (mk d (mk d c1 (x, True, xv) c2) (sa, False, sv) dn)))"
    and dn: "\<not> is_red dn"
  obtains h' t' where "remove_fixup h tree p d = Some (h', root t')"
    and "rb_tree h' (root t') t'"
    and "t' = plug fs (mk d (mk d t (p, False, v) c1) (x, c, xv) (mk d c2 (sa, False, sv) dn))"
    and "same_outside (plug fs (mk d t (p, c, v) (mk d (mk d c1 (x, True, xv) c2) (sa, False, sv) dn))) h h'"
proof -
  let ?cn = "mk d c1 (x, True, xv) c2"
  obtain h2 where h2: "remove_fixup h tree p d = rest h2 tree p d c sa ?cn dn"
    "rb_tree h2 tree (plug fs (mk d t (p, False, v) (mk d ?cn (sa, False, sv) dn)))"
    "same_outside (plug fs (mk d t (p, c, v) (mk d ?cn (sa, False, sv) dn))) h h2"
    by (rule round_head [OF wf])
  let ?fs = "(\<not> d, (p, False, v), t) # fs"
  have fl: "plug fs (mk d t (p, False, v) (mk d ?cn (sa, False, sv) dn)) =
      plug ?fs (mk (\<not> d) dn (sa, False, sv) (mk (\<not> d) c2 (x, True, xv) c1))"
    by (simp add: mk_flip)
  let ?t3 = "plug ?fs (mk (\<not> d) (mk (\<not> d) dn (sa, False, sv) c2) (x, True, xv) c1)"
  obtain h3 where h3: "bstree_rotate h2 tree sa (\<not> d) = Some (h3, root ?t3)" "rb_tree h3 (root ?t3) ?t3"
    "same_outside (plug fs (mk d t (p, False, v) (mk d ?cn (sa, False, sv) dn))) h2 h3"
    unfolding fl by (rule rotate_repr [OF h2(2) [unfolded fl]])
  have t3: "?t3 = plug fs (mk d t (p, False, v) (mk d c1 (x, True, xv) (mk d c2 (sa, False, sv) dn)))"
    by (simp add: mk_flip)
  let ?t4 = "plug fs (mk d (mk d t (p, False, v) c1) (x, True, xv) (mk d c2 (sa, False, sv) dn))"
  obtain h4 where h4: "bstree_rotate h3 (root ?t3) p d = Some (h4, root ?t4)" "rb_tree h4 (root ?t4) ?t4"
    "same_outside ?t3 h3 h4"
    unfolding t3 by (rule rotate_repr [OF h3(2) [unfolded t3]])
  let ?t5 = "plug fs (mk d (mk d t (p, False, v) c1) (x, c, xv) (mk d c2 (sa, False, sv) dn))"
  obtain h5 where h5: "upd h4 x (set_red c) = Some h5" "rb_tree h5 (root ?t4) ?t5"
    "same_outside ?t4 h4 h5"
    by (rule recolour_repr [OF h4(2)])
  have r: "root ?t4 = root ?t5"
    by (simp add: root_plug rb_simps)
  show thesis
  proof (rule that [of h5 ?t5])
    show "remove_fixup h tree p d = Some (h5, root ?t5)"
      using h2(1) h3(1) h4(1) h5(1) r dn by (simp add: rest_def rb_simps)
    show "rb_tree h5 (root ?t5) ?t5"
      using h5(2) r by simp
    show "same_outside (plug fs (mk d t (p, c, v) (mk d ?cn (sa, False, sv) dn))) h h5"
      using h2(3) h3(3) h4(3) h5(3) by (auto simp: set_addrs_plug rb_simps)
  qed simp
qed

lemma round_both_black:
  assumes wf: "rb_tree h tree (plug fs (mk d t (p, c, v) (mk d cn (sa, False, sv) dn)))"
    and "\<not> is_red dn" "\<not> is_red cn"
  obtains h' where "remove_fixup h tree p d =
      (if c \<or> fs = [] then Some (h', tree) else remove_fixup h' tree (ctx_par fs) (ctx_dir fs))"
    and "rb_tree h' tree (plug fs (mk d t (p, False, v) (mk d cn (sa, True, sv) dn)))"
    and "same_outside (plug fs (mk d t (p, c, v) (mk d cn (sa, False, sv) dn))) h h'"
proof -
  obtain h2 where h2: "remove_fixup h tree p d = rest h2 tree p d c sa cn dn"
    "rb_tree h2 tree (plug fs (mk d t (p, False, v) (mk d cn (sa, False, sv) dn)))"
    "same_outside (plug fs (mk d t (p, c, v) (mk d cn (sa, False, sv) dn))) h h2"
    by (rule round_head [OF wf])
  have fl: "plug fs (mk d t (p, False, v) (mk d cn (sa, b, sv) dn)) =
      plug ((\<not> d, (p, False, v), t) # fs) (mk d cn (sa, b, sv) dn)" for b
    by (simp add: mk_flip)
  let ?t3 = "plug fs (mk d t (p, False, v) (mk d cn (sa, True, sv) dn))"
  obtain h3 where h3: "upd h2 sa (set_red True) = Some h3" "rb_tree h3 tree ?t3"
    "same_outside (plug fs (mk d t (p, False, v) (mk d cn (sa, False, sv) dn))) h2 h3"
    unfolding fl by (rule recolour_repr [OF h2(2) [unfolded fl]])
  have hp: "h3 p = Some (mkn d (ctx_par fs) False (root t) sa v)"
    using h3(2) unfolding rb_tree_plug by (simp add: rb_simps)
  have up: "(nodes q True = p) = ctx_dir fs" "ctx_par fs \<noteq> NULL" if q: "h3 (ctx_par fs) = Some q" "fs \<noteq> []" for q
  proof -
    obtain e g cg vg u fs' where fs: "fs = (e, (g, cg, vg), u) # fs'"
      using q(2) by (cases fs rule: ctx_par.cases) auto
    have wf': "rb_tree h3 tree (plug ((e, (g, cg, vg), u) # fs') (mk d t (p, False, v) (mk d cn (sa, True, sv) dn)))"
      using h3(2) fs by simp
    show "(nodes q True = p) = ctx_dir fs" "ctx_par fs \<noteq> NULL"
      using q rb_tree_lookup [OF wf'] rb_tree_focus_neq [OF wf'] by (auto simp: fs rb_simps nodes_True_mkn split: if_splits)
  qed
  have "\<exists>q. h3 (ctx_par fs) = Some q" if "fs \<noteq> []"
    using h3(2) that unfolding rb_tree_plug by (cases fs rule: ctx_par.cases) auto
  then have "remove_fixup h tree p d =
      (if c \<or> fs = [] then Some (h3, tree) else remove_fixup h3 tree (ctx_par fs) (ctx_dir fs))"
    using h2(1) h3(1) hp assms(2,3) up by (cases "fs = []") (auto simp: rest_def rb_simps)
  then show thesis
    using that [OF _ h3(2)] h2(3) h3(3) by (auto simp: set_addrs_plug rb_simps)
qed

text \<open>
  A red sibling. After the rotation the source takes \<open>sibling->nodes[idx]\<close> for the close nephew,
  but that slot now holds the parent: the parent is painted red and the next round starts at the
  old sibling.
\<close>

lemma round_red_sibling:
  assumes wf: "rb_tree h tree (plug fs (mk d t (p, c, v) (mk d cn (sa, True, sv) dn)))"
    and black: "\<not> is_red t" "\<not> is_red cn"
  obtains h' T where "remove_fixup h tree p d = remove_fixup h' T sa d"
    and "rb_tree h' T (plug ((d, (sa, False, sv), dn) # fs) (mk d t (p, True, v) cn))"
    and "same_outside (plug fs (mk d t (p, c, v) (mk d cn (sa, True, sv) dn))) h h'"
proof -
  let ?t0 = "plug fs (mk d t (p, c, v) (mk d cn (sa, True, sv) dn))"
  let ?t1 = "plug fs (mk d (mk d t (p, c, v) cn) (sa, True, sv) dn)"
  have hp: "h p = Some (mkn d (ctx_par fs) c (root t) sa v)"
    and hs: "h sa = Some (mkn d p True (root cn) (root dn) sv)"
    using wf unfolding rb_tree_plug by (simp_all add: rb_simps)
  obtain h1 where h1: "bstree_rotate h tree p d = Some (h1, root ?t1)" "rb_tree h1 (root ?t1) ?t1"
    "same_outside ?t0 h h1"
    by (rule rotate_repr [OF wf])
  have fl: "plug fs (mk d (mk d t (p, b, v) cn) (sa, True, sv) dn) =
      plug ((d, (sa, True, sv), dn) # fs) (mk d t (p, b, v) cn)" for b
    by simp
  obtain h2 where h2: "upd h1 p (set_red True) = Some h2"
    "rb_tree h2 (root ?t1) (plug fs (mk d (mk d t (p, True, v) cn) (sa, True, sv) dn))"
    "same_outside ?t1 h1 h2"
    unfolding fl by (rule recolour_repr [OF h1(2) [unfolded fl]])
  obtain h3 where h3: "upd h2 sa (set_red False) = Some h3"
    "rb_tree h3 (root ?t1) (plug fs (mk d (mk d t (p, True, v) cn) (sa, False, sv) dn))"
    "same_outside (plug fs (mk d (mk d t (p, True, v) cn) (sa, True, sv) dn)) h2 h3"
    by (rule recolour_repr [OF h2(2)])
  have hs3: "h3 sa = Some (mkn d (ctx_par fs) False p (root dn) sv)"
    and hp3: "h3 p = Some (mkn d sa True (root t) (root cn) v)"
    and sa: "sa \<noteq> NULL" "sa \<noteq> p" and reps: "repr h3 p t" "repr h3 p cn"
    and notp: "p \<notin> set (addrs t)" "p \<notin> set (addrs cn)" and dn: "p \<notin> set (addrs dn)" "repr h3 sa dn" "p \<noteq> NULL"
    using h3(2) unfolding rb_tree_plug by (auto simp: rb_simps)
  have rdn: "root dn \<noteq> p"
    using root_neq dn by blast
  let ?h = "h3(p \<mapsto> mkn d sa False (root t) (root cn) v)"
  have black': "red_at ?h (root cn) = Some False" "red_at ?h (root t) = Some False"
    using repr_red_at [of ?h p cn] repr_red_at [of ?h p t] reps notp black by simp_all
  have upds: "upd h3 p (set_red False) = Some ?h" "upd ?h p (set_red False) = Some ?h"
    "upd ?h p (set_red True) = Some h3"
    using hp3 by (auto simp: rb_simps)
  have "remove_fixup h tree p d = remove_fixup h3 (root ?t1) sa d"
    using hp hs h1(1) h2(1) h3(1) hs3 hp3 sa black' upds rdn
    by (subst remove_fixup.simps) (simp add: Let_def rb_simps nodes_True_mkn)
  moreover have "same_outside ?t0 h h3"
    using h1(3) h2(3) h3(3) by (auto simp: set_addrs_plug rb_simps)
  ultimately show thesis
    using that h3(2) by simp
qed

lemma invc_ctx_False: "invc_ctx fs b \<Longrightarrow> invc_ctx fs False"
  by (cases fs rule: ctx_par.cases) auto

text \<open>The focus is short of one black node; every round keeps or repairs that.\<close>

definition deficient :: "frame list \<Rightarrow> rbt \<Rightarrow> bool" where
  "deficient fs t \<longleftrightarrow> invc t \<and> invh t \<and> \<not> is_red t \<and> invc_ctx fs False \<and> invh_ctx fs (bh t + 1)"

lemma balance_far:
  assumes "deficient ((d, (p, c, v), mk d cn (sa, False, sv) (mk d d1 (x, True, xv) d2)) # fs) t"
  shows "invc (plug fs (mk d (mk d t (p, False, v) cn) (sa, c, sv) (mk d d1 (x, False, xv) d2))) \<and>
         invh (plug fs (mk d (mk d t (p, False, v) cn) (sa, c, sv) (mk d d1 (x, False, xv) d2)))"
proof -
  obtain n where n: "bh t = n" by simp
  have s: "bh cn = bh d2" "bh d1 = bh d2" "invh cn" "invh d1" "invh d2" "invc cn" "invc d1" "invc d2"
    "\<not> is_red d1" "\<not> is_red d2"
    using assms by (auto simp: deficient_def inv_mk is_red_mk)
  then have d2: "bh d2 = n"
    using assms n by (simp add: deficient_def inv_mk)
  then have bhs: "bh cn = n" "bh d1 = n"
    using s by simp_all
  have "invh_ctx fs (n + 1 + (if c then 0 else 1))" "invc_ctx fs c"
    using assms n by (simp_all add: deficient_def)
  then show ?thesis
    using assms s(3-) bhs d2 n by (simp add: deficient_def invc_plug invh_plug inv_mk is_red_mk)
qed

lemma balance_near:
  assumes "deficient ((d, (p, c, v), mk d (mk d c1 (x, True, xv) c2) (sa, False, sv) dn) # fs) t"
    and "\<not> is_red dn"
  shows "invc (plug fs (mk d (mk d t (p, False, v) c1) (x, c, xv) (mk d c2 (sa, False, sv) dn))) \<and>
         invh (plug fs (mk d (mk d t (p, False, v) c1) (x, c, xv) (mk d c2 (sa, False, sv) dn)))"
proof -
  obtain n where n: "bh t = n" by simp
  have s: "bh c1 = bh c2" "bh (mk d c1 (x, True, xv) c2) = bh dn" "invh c1" "invh c2" "invh dn"
    "invc c1" "invc c2" "invc dn" "\<not> is_red c1" "\<not> is_red c2"
    using assms by (auto simp: deficient_def inv_mk is_red_mk)
  then have dn: "bh dn = n"
    using assms n by (simp add: deficient_def inv_mk)
  then have bhs: "bh c2 = n" "bh c1 = n"
    using s(1,2) by (simp_all add: inv_mk)
  have "invh_ctx fs (n + 1 + (if c then 0 else 1))" "invc_ctx fs c"
    using assms n by (simp_all add: deficient_def)
  then show ?thesis
    using assms s(3-) bhs dn n by (simp add: deficient_def invc_plug invh_plug inv_mk is_red_mk)
qed

lemma balance_both_black:
  assumes "deficient ((d, (p, c, v), mk d cn (sa, False, sv) dn) # fs) t"
    and "\<not> is_red dn" "\<not> is_red cn"
  shows "\<not> c \<Longrightarrow> deficient fs (mk d t (p, False, v) (mk d cn (sa, True, sv) dn))"
    and "c \<Longrightarrow> invc (plug fs (mk d t (p, False, v) (mk d cn (sa, True, sv) dn))) \<and>
              invh (plug fs (mk d t (p, False, v) (mk d cn (sa, True, sv) dn)))"
proof -
  let ?t = "mk d t (p, False, v) (mk d cn (sa, True, sv) dn)"
  obtain n where n: "bh t = n" by simp
  have s: "bh cn = bh dn" "invh cn" "invh dn" "invc cn" "invc dn"
    using assms by (auto simp: deficient_def inv_mk is_red_mk)
  then have bhs: "bh dn = n" "bh cn = n"
    using assms n by (simp_all add: deficient_def inv_mk)
  have t: "bh ?t = n + 1" "invh ?t" "invc ?t" "\<not> is_red ?t"
    using assms s(2-) bhs n by (simp_all add: deficient_def inv_mk is_red_mk)
  have "invh_ctx fs (n + 1 + (if c then 0 else 1))" "invc_ctx fs c"
    using assms n by (simp_all add: deficient_def)
  then show "\<not> c \<Longrightarrow> deficient fs ?t" and "c \<Longrightarrow> invc (plug fs ?t) \<and> invh (plug fs ?t)"
    using t by (auto simp: deficient_def invc_plug invh_plug intro: invc_ctx_False)
qed

definition no_red_sibling :: "frame list \<Rightarrow> bool" where
  "no_red_sibling fs \<longleftrightarrow> (\<forall>f \<in> set fs. \<not> is_red (snd (snd f)))"

definition loop_ok :: "rbheap \<Rightarrow> (rbheap \<times> ptr) option \<Rightarrow> frame list \<Rightarrow> rbt \<Rightarrow> bool" where
  "loop_ok h res fs t \<longleftrightarrow>
     (\<exists>h' t'. res = Some (h', root t') \<and> rb_tree h' (root t') t' \<and>
        entries t' = entries (plug fs t) \<and> same_outside (plug fs t) h h' \<and>
        (deficient fs t \<and> no_red_sibling fs \<longrightarrow> invc t' \<and> invh t'))"

lemma round_black:
  assumes wf: "rb_tree h tree (plug ((d, (p, c, v), s) # fs) t)" and s: "s \<noteq> Leaf" "\<not> is_red s"
    and IH: "\<And>h' t'. fs \<noteq> [] \<Longrightarrow> rb_tree h' tree (plug fs t') \<Longrightarrow> \<not> is_red t' \<Longrightarrow>
               loop_ok h' (remove_fixup h' tree (ctx_par fs) (ctx_dir fs)) fs t'"
  shows "loop_ok h (remove_fixup h tree p d) ((d, (p, c, v), s) # fs) t"
proof -
  obtain cn sa sc sv dn where s': "s = mk d cn (sa, sc, sv) dn"
    by (rule rbt_cases_dir [where t = s and d = d]) (use s in auto)
  then have sc: "sc = False"
    using s(2) by (simp add: is_red_mk)
  have wf': "rb_tree h tree (plug fs (mk d t (p, c, v) (mk d cn (sa, False, sv) dn)))"
    using wf s' sc by simp
  consider "is_red dn" | "\<not> is_red dn" "is_red cn" | "\<not> is_red dn" "\<not> is_red cn"
    by blast
  then show ?thesis
  proof cases
    case 1
    obtain d1 x xc xv d2 where dn: "dn = mk d d1 (x, xc, xv) d2"
      by (rule rbt_cases_dir [where t = dn and d = d]) (use 1 in auto)
    then have xc: "xc = True"
      using 1 by (simp add: is_red_mk)
    show ?thesis
      by (rule round_far_red [OF wf' [unfolded dn xc]])
        (use balance_far [of d p c v cn sa sv d1 x xv d2 fs t] in
          \<open>auto simp: loop_ok_def s' sc dn xc entries_mk intro!: entries_plug_cong\<close>)
  next
    case 2
    obtain c1 x xc xv c2 where cn: "cn = mk d c1 (x, xc, xv) c2"
      by (rule rbt_cases_dir [where t = cn and d = d]) (use 2 in auto)
    then have xc: "xc = True"
      using 2 by (simp add: is_red_mk)
    show ?thesis
      by (rule round_near_red [OF wf' [unfolded cn xc] 2(1)])
        (use balance_near [of d p c v c1 x xv c2 sa sv dn fs t] 2 in
          \<open>auto simp: loop_ok_def s' sc cn xc entries_mk intro!: entries_plug_cong\<close>)
  next
    case 3
    let ?t = "mk d t (p, False, v) (mk d cn (sa, True, sv) dn)"
    obtain h' where h': "remove_fixup h tree p d =
        (if c \<or> fs = [] then Some (h', tree) else remove_fixup h' tree (ctx_par fs) (ctx_dir fs))"
      "rb_tree h' tree (plug fs ?t)"
      "same_outside (plug fs (mk d t (p, c, v) (mk d cn (sa, False, sv) dn))) h h'"
      by (rule round_both_black [OF wf' 3])
    have ent: "entries (plug fs ?t) = entries (plug fs (mk d t (p, c, v) (mk d cn (sa, False, sv) dn)))"
      by (rule entries_plug_cong) (simp add: entries_mk)
    have addrs: "set (addrs (plug fs ?t)) = set (addrs (plug fs (mk d t (p, c, v) (mk d cn (sa, False, sv) dn))))"
      by (simp add: set_addrs_plug set_addrs_mk)
    have tree: "tree = root (plug fs ?t)"
      using h'(2) by (simp add: rb_tree_def)
    note bal = balance_both_black [of d p c v cn sa sv dn fs t, OF _ 3]
    show ?thesis
    proof (cases "c \<or> fs = []")
      case True
      have "invc (plug fs ?t) \<and> invh (plug fs ?t)"
        if "deficient ((d, (p, c, v), mk d cn (sa, False, sv) dn) # fs) t"
        using bal [OF that] True by (cases c) (auto simp: deficient_def)
      then show ?thesis
        using True h' ent tree unfolding loop_ok_def by (auto simp: s' sc)
    next
      case False
      then have "loop_ok h' (remove_fixup h' tree (ctx_par fs) (ctx_dir fs)) fs ?t"
        using IH h'(2) by (simp add: is_red_mk)
      then obtain h2 t2 where h2: "remove_fixup h' tree (ctx_par fs) (ctx_dir fs) = Some (h2, root t2)"
        "rb_tree h2 (root t2) t2" "entries t2 = entries (plug fs ?t)" "same_outside (plug fs ?t) h' h2"
        "deficient fs ?t \<and> no_red_sibling fs \<longrightarrow> invc t2 \<and> invh t2"
        unfolding loop_ok_def by blast
      have "same_outside (plug ((d, (p, c, v), s) # fs) t) h h2"
        using h'(3) h2(4) addrs s' sc by simp
      moreover have "no_red_sibling ((d, (p, c, v), s) # fs) \<longrightarrow> no_red_sibling fs"
        by (simp add: no_red_sibling_def)
      ultimately show ?thesis
        using False h'(1) h2 ent bal(1) unfolding loop_ok_def
        by (intro exI [of _ h2] exI [of _ t2]) (simp add: s' sc)
    qed
  qed
qed

lemma remove_fixup_repr:
  assumes "rb_tree h tree (plug fs t)" and "fs \<noteq> []" and "path_ok fs" and "\<not> is_red t"
  shows "loop_ok h (remove_fixup h tree (ctx_par fs) (ctx_dir fs)) fs t"
  using assms
proof (induction fs arbitrary: h tree t)
  case (Cons f fs)
  obtain d p c v s where f: "f = (d, (p, c, v), s)"
    by (rule frame_cases)
  have ok: "sib_ok d s" "path_ok fs"
    using Cons.prems(3) f by simp_all
  have wf: "rb_tree h tree (plug ((d, (p, c, v), s) # fs) t)"
    using Cons.prems(1) f by simp
  show ?case
  proof (cases "is_red s")
    case False
    then show ?thesis
      using round_black [OF wf] ok Cons.IH unfolding f by (simp add: sib_ok_def)
  next
    case True
    obtain cn sa sc sv dn where s': "s = mk d cn (sa, sc, sv) dn"
      by (rule rbt_cases_dir [where t = s and d = d]) (use True in auto)
    then have s: "s = mk d cn (sa, True, sv) dn"
      using True by (simp add: is_red_mk)
    have nephews: "dn \<noteq> Leaf" "\<not> is_red dn" "\<not> is_red cn"
      using ok(1) s by (auto simp: sib_ok_def rb_simps)
    have wf': "rb_tree h tree (plug fs (mk d t (p, c, v) (mk d cn (sa, True, sv) dn)))"
      using wf s by simp
    obtain h' T where h': "remove_fixup h tree p d = remove_fixup h' T sa d"
      "rb_tree h' T (plug ((d, (sa, False, sv), dn) # fs) (mk d t (p, True, v) cn))"
      "same_outside (plug fs (mk d t (p, c, v) (mk d cn (sa, True, sv) dn))) h h'"
      by (rule round_red_sibling [OF wf' Cons.prems(4) nephews(3)])
    have "loop_ok h' (remove_fixup h' T sa d) ((d, (sa, False, sv), dn) # fs) (mk d t (p, True, v) cn)"
      by (rule round_black [OF h'(2) nephews(1,2)]) (use Cons.IH ok(2) in simp)
    moreover have "entries (plug fs (mk d (mk d t (p, True, v) cn) (sa, False, sv) dn)) =
        entries (plug fs (mk d t (p, c, v) (mk d cn (sa, True, sv) dn)))"
      by (rule entries_plug_cong) (simp add: entries_mk)
    moreover have "set (addrs (plug fs (mk d (mk d t (p, True, v) cn) (sa, False, sv) dn))) =
        set (addrs (plug fs (mk d t (p, c, v) (mk d cn (sa, True, sv) dn))))"
      by (auto simp: set_addrs_plug set_addrs_mk)
    ultimately show ?thesis
      using h'(1,3) unfolding loop_ok_def f s by (auto simp: no_red_sibling_def is_red_mk)
  qed
qed simp

end
