(* ===== verification/RBTree_Remove.thy ===== *)
theory RBTree_Remove
  imports RBTree_Rebalance
begin

text \<open>
  The whole of \<open>rbtree_remove\<close> and \<open>rbtree_free\<close> (\<open>src/src/rbtree.c\<close>): exactly when a removal
  dereferences \<open>NULL\<close>, that every other removal takes the node and nothing else out of the
  in-order sequence, and where the red-black invariant survives it.
\<close>

subsection \<open>Entries around a focus\<close>

lemma addrs_entries: "addrs t = map fst (entries t)"
  by (induction t rule: addrs.induct) simp_all

fun ctx_pre :: "frame list \<Rightarrow> (ptr \<times> u32) list" where
  "ctx_pre [] = []"
| "ctx_pre ((d, (p, c, v), s) # fs) = ctx_pre fs @ (if d then entries s @ [(p, v)] else [])"

fun ctx_post :: "frame list \<Rightarrow> (ptr \<times> u32) list" where
  "ctx_post [] = []"
| "ctx_post ((d, (p, c, v), s) # fs) = (if d then [] else (p, v) # entries s) @ ctx_post fs"

lemma entries_plug: "entries (plug fs t) = ctx_pre fs @ entries t @ ctx_post fs"
proof (induction fs arbitrary: t)
  case (Cons f fs)
  obtain d a c v s where "f = (d, (a, c, v), s)"
    by (rule frame_cases)
  then show ?case
    using Cons.IH [of "mk d t (a, c, v) s"] by (simp add: entries_mk)
qed simp

lemma ctx_addrs_entries: "set (ctx_addrs fs) = fst ` set (ctx_pre fs @ ctx_post fs)"
proof (induction fs)
  case (Cons f fs)
  obtain d a c v s where "f = (d, (a, c, v), s)"
    by (rule frame_cases)
  then show ?case
    using Cons.IH by (cases d) (simp_all add: addrs_entries image_Un Un_ac)
qed simp

lemma filter_entries: "a \<notin> set (addrs t) \<Longrightarrow> filter (\<lambda>e. fst e \<noteq> a) (entries t) = entries t"
  by (force simp: filter_id_conv addrs_entries)

lemma entries_delete:
  assumes "rb_tree h tree (plug fs (Node l (a, c, v) r))" and "entries t = entries l @ entries r"
  shows "entries (plug fs t) = filter (\<lambda>e. fst e \<noteq> a) (entries (plug fs (Node l (a, c, v) r)))"
proof -
  have a: "a \<notin> set (addrs l)" "a \<notin> set (addrs r)" "a \<notin> set (ctx_addrs fs)"
    using assms(1) unfolding rb_tree_plug by auto
  then have "filter (\<lambda>e. fst e \<noteq> a) (ctx_pre fs) = ctx_pre fs"
    "filter (\<lambda>e. fst e \<noteq> a) (ctx_post fs) = ctx_post fs"
    by (auto simp: filter_id_conv ctx_addrs_entries)
  then show ?thesis
    using assms(2) a by (simp add: entries_plug filter_entries)
qed

lemma ctx_root_in: "fs \<noteq> [] \<Longrightarrow> ctx_root fs p \<in> set (ctx_addrs fs)"
proof (induction fs arbitrary: p)
  case (Cons f fs)
  obtain d a c v s where "f = (d, (a, c, v), s)"
    by (rule frame_cases)
  then show ?case
    using Cons.IH [of a] by (cases "fs = []") auto
qed simp

lemma plug_eq_Leaf: "plug fs t = Leaf \<longleftrightarrow> fs = [] \<and> t = Leaf"
proof (induction fs arbitrary: t)
  case (Cons f fs)
  then show ?case by (cases f rule: frame_cases) simp
qed simp

lemma rb_tree_root_NULL: "rb_tree h tree t \<Longrightarrow> tree = NULL \<longleftrightarrow> t = Leaf"
  using root_eq_NULL_iff unfolding rb_tree_def by auto

lemma paint_root: "root (paint c t) = root t"
  by (cases t rule: root.cases) simp_all

subsection \<open>At most one child\<close>

lemma repr_set_parent:
  assumes "repr h q t" and "distinct (addrs t)"
  obtains h' where "(if root t \<noteq> NULL then upd h (root t) (set_parent q') else Some h) = Some h'"
    and "repr h' q' t" and "\<forall>a. a \<noteq> root t \<longrightarrow> h' a = h a" and "\<forall>a. a \<notin> set (addrs t) \<longrightarrow> h' a = h a"
proof (cases t rule: root.cases)
  case 1
  then show thesis by (intro that [of h]) simp_all
next
  case (2 l a c v r)
  show thesis
    by (rule that [of "h(a \<mapsto> mkn False q' c (root l) (root r) v)"])
      (use assms 2 in \<open>simp_all add: mkn_def set_parent_def\<close>)
qed

text \<open>The zipper form of a node with at most one child: the child is \<open>t\<close>, on either side.\<close>

lemma remove_one_child:
  assumes wf: "rb_tree h tree (plug fs (mk d t (a, c, v) Leaf))"
    and ok: "t = Leaf \<Longrightarrow> \<not> c \<Longrightarrow> path_ok fs"
  obtains h' t' where "rbtree_remove h tree a = Some (h', root t')"
    and "rb_tree h' (root t') t'" and "entries t' = entries (plug fs t)"
    and "same_outside (plug fs (mk d t (a, c, v) Leaf)) h h'"
    and "fs = [] \<Longrightarrow> t' = t"
    and "fs \<noteq> [] \<Longrightarrow> t \<noteq> Leaf \<Longrightarrow> t' = plug fs (paint False t)"
    and "t = Leaf \<Longrightarrow> c \<Longrightarrow> t' = plug fs t"
    and "deficient fs t \<Longrightarrow> no_red_sibling fs \<Longrightarrow> t = Leaf \<Longrightarrow> \<not> c \<Longrightarrow> invc t' \<and> invh t'"
proof -
  let ?N = "mk d t (a, c, v) Leaf"
  have ha: "h a = Some (mkn d (ctx_par fs) c (root t) NULL v)" and a0: "a \<noteq> NULL"
    and rt: "repr h a t" and dt: "distinct (addrs t)" and at: "a \<notin> set (addrs t)"
    and disj: "set (addrs t) \<inter> set (ctx_addrs fs) = {}" and afs: "a \<notin> set (ctx_addrs fs)"
    and tree: "tree = ctx_root fs a"
    using wf unfolding rb_tree_plug by (auto simp: rb_simps)
  obtain h1 where h1: "(if root t \<noteq> NULL then upd h (root t) (set_parent (ctx_par fs)) else Some h) = Some h1"
    "repr h1 (ctx_par fs) t" "\<forall>x. x \<noteq> root t \<longrightarrow> h1 x = h x" "\<forall>x. x \<notin> set (addrs t) \<longrightarrow> h1 x = h x"
    by (rule repr_set_parent [OF rt dt])
  have tree0: "tree \<noteq> NULL"
    using wf root_eq_NULL_iff [of h NULL "plug fs ?N"] set_addrs_plug [of fs ?N]
    unfolding rb_tree_def by (auto simp: rb_simps)
  have repl: "nodes (mkn d (ctx_par fs) c (root t) NULL v) (nodes (mkn d (ctx_par fs) c (root t) NULL v) False = NULL) = root t"
    "nodes (mkn d (ctx_par fs) c (root t) NULL v) False = NULL \<or> nodes (mkn d (ctx_par fs) c (root t) NULL v) True = NULL"
    by (cases d; cases "root t = NULL"; simp add: nodes_True_mkn nodes_False_mkn)+
  have t0: "root t = NULL \<longleftrightarrow> t = Leaf"
    by (rule root_eq_NULL_iff [OF rt])
  show thesis
  proof (cases "fs = []")
    case True
    then have "rbtree_remove h tree a = Some (h1, root t)"
      using ha a0 tree tree0 h1(1) repl
      by (cases "root t = NULL") (simp_all add: rbtree_remove_def Let_def rb_simps)
    then show thesis
      using True h1(2,4) dt by (intro that [of h1 t]) (simp_all add: rb_tree_def rb_simps deficient_def)
  next
    case False
    obtain p h2 where h2: "h1 (ctx_par fs) = Some p" "(nodes p False \<noteq> root ?N) = ctx_dir fs"
      "upd h1 (ctx_par fs) (set_nodes (ctx_dir fs) (root t)) = Some h2" "rb_tree h2 tree (plug fs t)"
      "\<forall>x. x \<noteq> ctx_par fs \<longrightarrow> h2 x = h1 x"
    proof (rule relink_focus [OF wf _ False _ h1(2) dt disj])
      show "h1 b = h b" if "b \<in> set (ctx_addrs fs)" for b
        using that disj h1(4) by blast
    qed simp
    have cp: "ctx_par fs \<in> set (ctx_addrs fs)"
      using False by (rule ctx_par_in)
    then have anp: "a \<noteq> ctx_par fs"
      using afs by auto
    then have ha2: "h2 a = Some (mkn d (ctx_par fs) c (root t) NULL v)"
      using h2(5) h1(4) ha at by simp
    have so2: "same_outside (plug fs ?N) h h2"
    proof (intro allI impI)
      fix b assume "b \<notin> set (addrs (plug fs ?N))"
      then have "b \<noteq> ctx_par fs" "b \<notin> set (addrs t)"
        using cp by (auto simp: set_addrs_plug rb_simps)
      then show "h2 b = h b"
        using h2(5) h1(4) by simp
    qed
    have "a \<noteq> tree"
      using afs ctx_root_in [OF False] tree by metis
    then have rem: "rbtree_remove h tree a =
        (if t \<noteq> Leaf then do { h \<leftarrow> upd h2 (root t) (set_red False); Some (h, tree) }
         else if c then Some (h2, tree) else remove_fixup h2 tree (ctx_par fs) (ctx_dir fs))"
      using ha a0 tree0 h1(1) repl h2(1-3) ha2 t0 anp
      by (cases "t = Leaf") (simp_all add: rbtree_remove_def Let_def rb_simps)
    show thesis
    proof (cases "t = Leaf")
      case leaf: True
      show thesis
      proof (cases c)
        case True
        then show thesis
          using rem leaf h2(4) so2 by (intro that [of h2 "plug fs t"]) (auto simp: rb_tree_def)
      next
        case c: False
        have "loop_ok h2 (remove_fixup h2 tree (ctx_par fs) (ctx_dir fs)) fs t"
          using remove_fixup_repr [OF h2(4) False] ok leaf c by simp
        then obtain h3 t3 where "remove_fixup h2 tree (ctx_par fs) (ctx_dir fs) = Some (h3, root t3)"
          "rb_tree h3 (root t3) t3" "entries t3 = entries (plug fs t)" "same_outside (plug fs t) h2 h3"
          "deficient fs t \<and> no_red_sibling fs \<longrightarrow> invc t3 \<and> invh t3"
          unfolding loop_ok_def by blast
        then show thesis
          using rem leaf c so2 False
          by (intro that [of h3 t3]) (auto simp: set_addrs_plug rb_simps)
      qed
    next
      case nleaf: False
      obtain l x xc xv r where t: "t = mk False l (x, xc, xv) r"
        by (rule rbt_cases_dir [where t = t and d = False]) (use nleaf in auto)
      obtain h3 where h3: "upd h2 x (set_red False) = Some h3"
        "rb_tree h3 tree (plug fs (mk False l (x, False, xv) r))" "same_outside (plug fs t) h2 h3"
        using recolour_repr [OF h2(4) [unfolded t]] t by blast
      have "same_outside (plug fs ?N) h h3"
        using so2 h3(3) by (auto simp: set_addrs_plug rb_simps)
      then show thesis
        using rem nleaf h3(1,2) False t
        by (intro that [of h3 "plug fs (paint False t)"])
          (auto simp: rb_tree_def rb_simps entries_mk mk_neq_Leaf [symmetric] intro!: entries_plug_cong)
    qed
  qed
qed

subsection \<open>Two children\<close>

lemma plug_append: "plug (fs @ gs) t = plug gs (plug fs t)"
proof (induction fs arbitrary: t)
  case (Cons f fs)
  then show ?case by (cases f rule: frame_cases) simp
qed simp

lemma ctx_pre_append: "ctx_pre (fs @ gs) = ctx_pre gs @ ctx_pre fs"
proof (induction fs)
  case (Cons f fs)
  then show ?case by (cases f rule: frame_cases) simp
qed simp

text \<open>\<open>bstree_min\<close> finds the leftmost node, whose left child is empty.\<close>

lemma bstree_min_repr:
  assumes "repr h q t" and "t \<noteq> Leaf"
  shows "\<exists>gs x c v r. t = plug gs (Node Leaf (x, c, v) r) \<and> ctx_pre gs = [] \<and>
    bstree_min h (root t) = Some x"
  using assms
proof (induction t arbitrary: q)
  case (Node l y r)
  obtain a c v where y: "y = (a, c, v)" by (cases y) auto
  show ?case
  proof (cases "l = Leaf")
    case True
    then have "bstree_min h a = Some a"
      using Node.prems y by (subst bstree_min.simps) (simp add: nodes_def)
    then show ?thesis
      using True y by (intro exI [of _ "[]"]) auto
  next
    case False
    have l: "repr h a l" using Node.prems y by simp
    obtain gs x cx vx xr where IH: "l = plug gs (Node Leaf (x, cx, vx) xr)" "ctx_pre gs = []"
        "bstree_min h (root l) = Some x"
      using Node.IH(1) [OF l False] by blast
    have "Node l y r = plug (gs @ [(False, y, r)]) (Node Leaf (x, cx, vx) xr)"
      by (simp add: plug_append IH(1) [symmetric] mk_def)
    moreover have "bstree_min h (root (Node l y r)) = Some x"
      using Node.prems y IH(3) root_eq_NULL_iff [OF l] False
      by (subst bstree_min.simps) (simp add: nodes_def)
    moreover have "ctx_pre (gs @ [(False, y, r)]) = []"
      using IH(2) y by (simp add: ctx_pre_append)
    ultimately show ?thesis by blast
  qed
qed simp

text \<open>Cutting out the successor: its right child takes its place and is painted red.\<close>

lemma cut_successor:
  assumes wf: "rb_tree h tree (plug ps (Node Leaf (x, cx, vx) xr))" and ps: "ps \<noteq> []"
  obtains h1 sp h2 where
    "(if root xr \<noteq> NULL then upd h (root xr) (set_red True \<circ> set_parent (ctx_par ps)) else Some h) = Some h1"
    and "h1 (ctx_par ps) = Some sp"
    and "upd h1 (ctx_par ps) (set_nodes (nodes sp False \<noteq> x) (root xr)) = Some h2"
    and "rb_tree h2 tree (plug ps (paint True xr))"
    and "h2 x = h x" and "same_outside (plug ps (Node Leaf (x, cx, vx) xr)) h h2"
proof -
  let ?N = "Node Leaf (x, cx, vx) xr"
  have rx: "repr h x xr" and dx: "distinct (addrs xr)" and xx: "x \<notin> set (addrs xr)"
    and disj: "set (addrs xr) \<inter> set (ctx_addrs ps) = {}" and xps: "x \<notin> set (ctx_addrs ps)"
    using wf unfolding rb_tree_plug by auto
  obtain h1 where h1: "(if root xr \<noteq> NULL then upd h (root xr) (set_red True \<circ> set_parent (ctx_par ps)) else Some h) = Some h1"
    "repr h1 (ctx_par ps) (paint True xr)" "\<forall>b. b \<notin> set (addrs xr) \<longrightarrow> h1 b = h b"
  proof (cases xr rule: root.cases)
    case 1
    then show ?thesis by (intro that [of h]) simp_all
  next
    case (2 l a c v r)
    show ?thesis
      by (rule that [of "h(a \<mapsto> mkn False (ctx_par ps) True (root l) (root r) v)"])
        (use rx dx 2 in \<open>simp_all add: mkn_def set_parent_def set_red_def\<close>)
  qed
  have dp: "distinct (addrs (paint True xr))" "root (paint True xr) = root xr"
    using dx by (cases xr rule: root.cases; simp)+
  obtain p h2 where h2: "h1 (ctx_par ps) = Some p" "(nodes p False \<noteq> root ?N) = ctx_dir ps"
      "upd h1 (ctx_par ps) (set_nodes (ctx_dir ps) (root (paint True xr))) = Some h2"
      "rb_tree h2 tree (plug ps (paint True xr))" "\<forall>b. b \<noteq> ctx_par ps \<longrightarrow> h2 b = h1 b"
  proof (rule relink_focus [OF wf _ ps _ h1(2) dp(1)])
    show "h1 b = h b" if "b \<in> set (ctx_addrs ps)" for b
      using that disj h1(3) by blast
    show "set (addrs (paint True xr)) \<inter> set (ctx_addrs ps) = {}"
      using disj by (simp add: set_addrs_paint)
  qed simp
  have cp: "ctx_par ps \<in> set (ctx_addrs ps)"
    using ps by (rule ctx_par_in)
  show thesis
  proof (rule that [OF h1(1) h2(1) _ h2(4)])
    show "upd h1 (ctx_par ps) (set_nodes (nodes p False \<noteq> x) (root xr)) = Some h2"
      using h2(2,3) dp by simp
    show "h2 x = h x"
      using h2(5) h1(3) cp xx xps by metis
    show "same_outside (plug ps ?N) h h2"
    proof (intro allI impI)
      fix b assume "b \<notin> set (addrs (plug ps ?N))"
      then have "b \<noteq> ctx_par ps" "b \<notin> set (addrs xr)"
        using cp by (auto simp: set_addrs_plug)
      then show "h2 b = h b"
        using h2(5) h1(3) by simp
    qed
  qed
qed

text \<open>Putting a node outside the tree in the place of \<open>a\<close>.\<close>

lemma take_place:
  assumes wf: "rb_tree h tree (plug fs (Node l (a, c, v) r))"
    and l: "l \<noteq> Leaf" and r: "r \<noteq> Leaf"
    and x: "h x = Some nx" "x \<noteq> NULL" "x \<notin> set (addrs (plug fs (Node l (a, c, v) r)))"
  obtains h1 h2 h3 h4 h5 where "upd h x (set_nodes False (root l)) = Some h1"
    and "upd h1 x (set_nodes True (root r)) = Some h2"
    and "upd h2 (root l) (set_parent x) = Some h3" and "upd h3 (root r) (set_parent x) = Some h4"
    and "upd h4 x (set_parent (ctx_par fs)) = Some h5"
    and "repr h5 (ctx_par fs) (Node l (x, rb_red nx, rb_val nx) r)"
    and "\<forall>b. b \<notin> insert x (set (addrs l) \<union> set (addrs r)) \<longrightarrow> h5 b = h b"
proof -
  have facts: "repr h a l" "repr h a r" "distinct (addrs l)" "distinct (addrs r)"
    "set (addrs l) \<inter> set (addrs r) = {}" "x \<notin> set (addrs l)" "x \<notin> set (addrs r)"
    using wf x(3) unfolding rb_tree_plug set_addrs_plug by auto
  let ?n1 = "set_nodes False (root l) nx"
  let ?n2 = "set_nodes True (root r) ?n1"
  let ?h2 = "h(x \<mapsto> ?n2)"
  obtain h3 where h3: "(if root l \<noteq> NULL then upd ?h2 (root l) (set_parent x) else Some ?h2) = Some h3"
    "repr h3 x l" "\<forall>b. b \<noteq> root l \<longrightarrow> h3 b = ?h2 b" "\<forall>b. b \<notin> set (addrs l) \<longrightarrow> h3 b = ?h2 b"
    by (rule repr_set_parent [OF _ facts(3), of ?h2 a]) (use facts(1,6) in simp)
  have "h3 b = h b" if "b \<in> set (addrs r)" for b
  proof -
    have "b \<notin> set (addrs l)" "b \<noteq> x"
      using that facts by blast+
    then show ?thesis
      using h3(4) by simp
  qed
  then have r3: "repr h3 a r"
    using repr_frame [of r h3 h a] facts(2) by simp
  obtain h4 where h4: "(if root r \<noteq> NULL then upd h3 (root r) (set_parent x) else Some h3) = Some h4"
    "repr h4 x r" "\<forall>b. b \<noteq> root r \<longrightarrow> h4 b = h3 b" "\<forall>b. b \<notin> set (addrs r) \<longrightarrow> h4 b = h3 b"
    by (rule repr_set_parent [OF r3 facts(4)])
  have "h4 b = h3 b" if "b \<in> set (addrs l)" for b
    using that facts(5) h4(4) by blast
  then have l4: "repr h4 x l"
    using repr_frame [of l h4 h3 x] h3(2) by simp
  have lr0: "root l \<noteq> NULL" "root r \<noteq> NULL"
    using l r root_eq_NULL_iff [OF facts(1)] root_eq_NULL_iff [OF facts(2)] by simp_all
  have x4: "h4 x = Some ?n2"
    using h4(4) h3(4) facts by simp
  let ?h5 = "h4(x \<mapsto> set_parent (ctx_par fs) ?n2)"
  show thesis
  proof (rule that [of "h(x \<mapsto> ?n1)" ?h2 h3 h4 ?h5])
    show "repr ?h5 (ctx_par fs) (Node l (x, rb_red nx, rb_val nx) r)"
      using l4 h4(2) facts x(2) by (cases nx) (simp add: set_parent_def set_nodes_def)
    show "upd h4 x (set_parent (ctx_par fs)) = Some ?h5"
      using x4 by simp
    show "\<forall>b. b \<notin> insert x (set (addrs l) \<union> set (addrs r)) \<longrightarrow> ?h5 b = h b"
      using h4(4) h3(4) by simp
  qed (use x(1) h3(1) h4(1) lr0 in simp_all)
qed

lemma remove_two_children:
  assumes wf: "rb_tree h tree (plug fs (Node l (a, c, v) r))" and l: "l \<noteq> Leaf" and r: "r \<noteq> Leaf"
  obtains
    (crash) y where "r = Node Leaf y Leaf" and "h NULL = None \<Longrightarrow> rbtree_remove h tree a = None"
  | (ok) h' t' where "\<And>y. r \<noteq> Node Leaf y Leaf" and "rbtree_remove h tree a = Some (h', root t')"
      and "rb_tree h' (root t') t'"
      and "entries t' = filter (\<lambda>e. fst e \<noteq> a) (entries (plug fs (Node l (a, c, v) r)))"
      and "same_outside (plug fs (Node l (a, c, v) r)) h h'"
proof -
  have ha: "h a = Some (mkn False (ctx_par fs) c (root l) (root r) v)" and a0: "a \<noteq> NULL"
    and rr: "repr h a r" and rl: "repr h a l" and tree: "tree = ctx_root fs a" and afs: "a \<notin> set (ctx_addrs fs)"
    using wf unfolding rb_tree_plug by (auto simp: mkn_def)
  have lr0: "root l \<noteq> NULL" "root r \<noteq> NULL"
    using l r root_eq_NULL_iff [OF rl] root_eq_NULL_iff [OF rr] by simp_all
  have tree0: "tree \<noteq> NULL"
    using rb_tree_root_NULL [OF wf] by (simp add: plug_eq_Leaf)
  obtain gs x cx vx xr where gs: "r = plug gs (Node Leaf (x, cx, vx) xr)" "ctx_pre gs = []"
    "bstree_min h (root r) = Some x"
    using bstree_min_repr [OF rr r] by blast
  let ?ps = "gs @ (True, (a, c, v), l) # fs"
  have t0: "plug fs (Node l (a, c, v) r) = plug ?ps (Node Leaf (x, cx, vx) xr)"
    by (simp add: plug_append gs(1) mk_def)
  have succ: "bstree_successor h a = Some x"
    using ha lr0 gs(3) by (simp add: bstree_successor_def nodes_True_mkn)
  have hx: "h x = Some (mkn False (ctx_par ?ps) cx NULL (root xr) vx)" and x0: "x \<noteq> NULL"
    and xnew: "x \<notin> set (addrs (plug ?ps (paint True xr)))"
    using wf unfolding t0 rb_tree_plug set_addrs_plug by (auto simp: mkn_def set_addrs_paint)
  obtain h1 sp h2 where h12:
    "(if root xr \<noteq> NULL then upd h (root xr) (set_red True \<circ> set_parent (ctx_par ?ps)) else Some h) = Some h1"
    "h1 (ctx_par ?ps) = Some sp"
    "upd h1 (ctx_par ?ps) (set_nodes (nodes sp False \<noteq> x) (root xr)) = Some h2"
    "rb_tree h2 tree (plug ?ps (paint True xr))" "h2 x = h x"
    "same_outside (plug ?ps (Node Leaf (x, cx, vx) xr)) h h2"
    by (rule cut_successor [OF wf [unfolded t0]]) simp
  let ?r = "plug gs (paint True xr)"
  have wf2: "rb_tree h2 tree (plug fs (Node l (a, c, v) ?r))"
    using h12(4) by (simp add: plug_append mk_def)
  have ha2: "h2 a = Some (mkn False (ctx_par fs) c (root l) (root ?r) v)"
    using wf2 unfolding rb_tree_plug by (simp add: mkn_def)
  have xsel: "rb_parent (mkn False (ctx_par ?ps) cx NULL (root xr) vx) = ctx_par ?ps"
    "nodes (mkn False (ctx_par ?ps) cx NULL (root xr) vx) True = root xr"
    by (simp_all add: rb_simps nodes_True_mkn)
  have asel: "nodes (mkn False (ctx_par fs) c (root l) q v) False = root l"
    "nodes (mkn False (ctx_par fs) c (root l) q v) True = q"
    "rb_parent (mkn False (ctx_par fs) c (root l) q v) = ctx_par fs" for q
    by (simp_all add: rb_simps nodes_True_mkn nodes_False_mkn)
  have splice: "remove_splice h a =
      do { h \<leftarrow> upd h2 x (set_nodes False (root l)); h \<leftarrow> upd h x (set_nodes True (root ?r));
           h \<leftarrow> upd h (root l) (set_parent x); h \<leftarrow> upd h (root ?r) (set_parent x); Some (h, x) }"
    unfolding remove_splice_def succ bind.bind_lunit hx Let_def xsel h12(1-3) ha2 asel ..
  have rem: "rbtree_remove h tree a =
      do { (h, replacement) \<leftarrow> remove_splice h a;
           h \<leftarrow> (if replacement \<noteq> NULL then upd h replacement (set_parent (ctx_par fs)) else Some h);
           if a = tree then Some (h, replacement)
           else do {
             p \<leftarrow> h (ctx_par fs);
             let idx = (nodes p False \<noteq> a);
             h \<leftarrow> upd h (ctx_par fs) (set_nodes idx replacement);
             if replacement \<noteq> NULL
             then do { h \<leftarrow> upd h replacement (set_red False); Some (h, tree) }
             else do {
               n \<leftarrow> h a;
               if rb_red n then Some (h, tree)
               else remove_fixup h tree (ctx_par fs) idx } } }"
    unfolding rbtree_remove_def ha bind.bind_lunit Let_def asel using a0 tree0 lr0 by simp
  show thesis
  proof (cases "?r = Leaf")
    case True
    then have leaf: "gs = []" "xr = Leaf"
      by (cases xr rule: root.cases; simp add: plug_eq_Leaf)+
    have "h2 NULL = h NULL"
      using h12(6) wf repr_NULL [of h NULL] unfolding t0 rb_tree_def by metis
    then have "remove_splice h a = None" if "h NULL = None"
      using that lr0 x0 unfolding splice True
      by (auto simp: upd_eq_Some_iff split: bind_splits)
    then have "rbtree_remove h tree a = None" if "h NULL = None"
      using that unfolding rem by simp
    then show thesis
      using crash [of "(x, cx, vx)"] gs(1) leaf by simp
  next
    case False
    have hx2: "h2 x = Some (mkn False (ctx_par ?ps) cx NULL (root xr) vx)"
      using h12(5) hx by simp
    have xnew2: "x \<notin> set (addrs (plug fs (Node l (a, c, v) ?r)))"
      using xnew by (simp add: plug_append mk_def)
    obtain h3 h4 h5 h6 h7 where h37: "upd h2 x (set_nodes False (root l)) = Some h3"
      "upd h3 x (set_nodes True (root ?r)) = Some h4"
      "upd h4 (root l) (set_parent x) = Some h5" "upd h5 (root ?r) (set_parent x) = Some h6"
      "upd h6 x (set_parent (ctx_par fs)) = Some h7"
      "repr h7 (ctx_par fs) (Node l (x, cx, vx) ?r)"
      "\<forall>b. b \<notin> insert x (set (addrs l) \<union> set (addrs ?r)) \<longrightarrow> h7 b = h2 b"
      by (rule take_place [OF wf2 l False hx2 x0 xnew2, unfolded mkn_sel])
    let ?N = "\<lambda>b. Node l (x, b, vx) ?r"
    have rem': "rbtree_remove h tree a =
        (if a = tree then Some (h7, x)
         else do { p \<leftarrow> h7 (ctx_par fs);
                   h \<leftarrow> upd h7 (ctx_par fs) (set_nodes (nodes p False \<noteq> a) x);
                   h \<leftarrow> upd h x (set_red False);
                   Some (h, tree) })"
      unfolding rem splice h37(1-4) bind.bind_lunit case_prod_conv Let_def using x0 h37(5) by simp
    have ent: "entries (plug fs (?N b)) = filter (\<lambda>e. fst e \<noteq> a) (entries (plug fs (Node l (a, c, v) r)))" for b
      by (rule entries_delete [OF wf]) (simp add: gs entries_plug entries_paint)
    have disj: "distinct (addrs (?N cx))" "set (addrs (?N cx)) \<inter> set (ctx_addrs fs) = {}"
      using wf2 xnew unfolding rb_tree_plug by (auto simp: plug_append set_addrs_plug mk_def)
    have so: "same_outside (plug fs (Node l (a, c, v) r)) h h7"
    proof (intro allI impI)
      fix b assume "b \<notin> set (addrs (plug fs (Node l (a, c, v) r)))"
      then have "h2 b = h b" "b \<notin> insert x (set (addrs l) \<union> set (addrs ?r))"
        using h12(6) unfolding t0 by (auto simp: set_addrs_plug set_addrs_paint plug_append rb_simps)
      then show "h7 b = h b"
        using h37(7) by simp
    qed
    have nocrash: "r \<noteq> Node Leaf y Leaf" for y
    proof
      assume "r = Node Leaf y Leaf"
      then have "entries xr = []" "ctx_post gs = []"
        using gs(1,2) entries_plug [of gs "Node Leaf (x, cx, vx) xr"] by (cases y; simp)+
      then have "xr = Leaf" "gs = []"
        using gs(2) by (cases xr rule: root.cases; cases gs rule: ctx_par.cases; simp split: if_splits)+
      then show False
        using False by simp
    qed
    show thesis
    proof (cases "fs = []")
      case True
      then show thesis
        using ok [OF nocrash, of h7 "?N cx"] rem' tree h37(6) disj(1) ent so by (simp add: rb_tree_def)
    next
      case fs: False
      have eq: "h7 b = h2 b" if "b \<in> set (ctx_addrs fs)" for b
      proof -
        have "b \<notin> insert x (set (addrs l) \<union> set (addrs ?r))"
          using that disj(2) by auto
        then show ?thesis using h37(7) by simp
      qed
      obtain p h8 where h8: "h7 (ctx_par fs) = Some p" "(nodes p False \<noteq> root (Node l (a, c, v) ?r)) = ctx_dir fs"
        "upd h7 (ctx_par fs) (set_nodes (ctx_dir fs) (root (?N cx))) = Some h8"
        "rb_tree h8 tree (plug fs (?N cx))" "\<forall>b. b \<noteq> ctx_par fs \<longrightarrow> h8 b = h7 b"
        by (rule relink_focus [OF wf2 _ fs eq h37(6) disj]) simp_all
      obtain h9 where h9: "upd h8 x (set_red False) = Some h9"
        "rb_tree h9 tree (plug fs (mk False l (x, False, vx) ?r))"
        "same_outside (plug fs (mk False l (x, cx, vx) ?r)) h8 h9"
        by (rule recolour_repr [OF h8(4) [unfolded Node_mk]])
      have "a \<noteq> tree"
        using afs ctx_root_in [OF fs] tree by metis
      then have "rbtree_remove h tree a = Some (h9, tree)"
        unfolding rem' using h8(1-3) h9(1) by (simp del: upd_Some)
      moreover have "tree = root (plug fs (?N False))"
        using h9(2) unfolding Node_mk rb_tree_def by simp
      moreover have "same_outside (plug fs (Node l (a, c, v) r)) h h9"
      proof (intro allI impI)
        fix b assume b: "b \<notin> set (addrs (plug fs (Node l (a, c, v) r)))"
        then have "b \<noteq> ctx_par fs" "b \<notin> set (addrs (plug fs (mk False l (x, cx, vx) ?r)))"
          using ctx_par_in [OF fs] unfolding t0
          by (auto simp: set_addrs_plug set_addrs_paint plug_append rb_simps)
        then show "h9 b = h b"
          using h9(3) h8(5) so b by simp
      qed
      ultimately show thesis
        using ok [OF nocrash, of h9 "plug fs (?N False)"] h9(2) ent unfolding Node_mk by simp
    qed
  qed
qed

end
