(* ===== verification/RBTree_Index.thy ===== *)
theory RBTree_Index
  imports RBTree_Remove
begin

text \<open>
  The red-black tree of \<open>src/src/rbtree.c\<close> seen by its clients: a heap and a root pointer that
  represent a sequence of nodes ordered by key. The interface is the locale \<open>ordered_index\<close>; it
  is interpreted on the tree operations, and the properties of the tree are stated over
  \<open>rb_index\<close>, which hides the shape of the tree.
\<close>

type_synonym index = "(ptr \<times> u32) list"

definition rb_index :: "rbheap \<Rightarrow> ptr \<Rightarrow> index \<Rightarrow> bool" where
  "rb_index h tree es \<longleftrightarrow> (\<exists>t. rb_tree h tree t \<and> rb_inv t \<and> entries t = es)"

text \<open>The same without balance: what is left after any removal.\<close>

definition bst_index :: "rbheap \<Rightarrow> ptr \<Rightarrow> index \<Rightarrow> bool" where
  "bst_index h tree es \<longleftrightarrow> (\<exists>t. rb_tree h tree t \<and> key_ordered t \<and> entries t = es)"

lemma rb_index_bst: "rb_index h tree es \<Longrightarrow> bst_index h tree es"
  by (auto simp: rb_index_def bst_index_def rb_inv_def)

lemma bst_index_sorted: "bst_index h tree es \<Longrightarrow> sorted (map snd es)"
  by (auto simp: bst_index_def key_ordered_def)

lemma bst_index_NULL: "bst_index h tree es \<Longrightarrow> NULL \<notin> fst ` set es"
  using repr_NULL [of h NULL] by (auto simp: bst_index_def rb_tree_def addrs_entries)

lemma bst_index_node: "bst_index h tree es \<Longrightarrow> a \<in> fst ` set es \<Longrightarrow> h a \<noteq> None"
  using repr_dom [of h NULL _ a] by (auto simp: bst_index_def rb_tree_def addrs_entries)

lemma search_exact_index:
  assumes "bst_index h tree es"
  shows "\<exists>p. rbtree_search_exact h tree v = Some p \<and>
    (if v \<in> snd ` set es then (p, v) \<in> set es else p = NULL)"
proof -
  obtain t where "repr h NULL t" "key_ordered t" "entries t = es" "tree = root t"
    using assms by (auto simp: bst_index_def rb_tree_def)
  moreover have "(\<exists>e \<in> set es. snd e = v) \<longleftrightarrow> v \<in> snd ` set es"
    by auto
  ultimately show ?thesis
    using search_exact_repr [of h NULL t v] by metis
qed

lemma search_lte_index:
  assumes "bst_index h tree es"
  shows "\<exists>p. rbtree_search_lte h tree v = Some p \<and>
    (if \<exists>e \<in> set es. snd e \<le> v then is_lte (set es) v p else p = NULL)"
proof -
  obtain t where "repr h NULL t" "key_ordered t" "entries t = es" "tree = root t"
    using assms by (auto simp: bst_index_def rb_tree_def)
  then show ?thesis
    using search_lte_repr [of h NULL t v NULL] unfolding rbtree_search_lte_def by metis
qed

lemma search_gte_index:
  assumes "bst_index h tree es"
  shows "\<exists>p. rbtree_search_gte h tree v = Some p \<and>
    (if \<exists>e \<in> set es. v \<le> snd e then is_gte (set es) v p else p = NULL)"
proof -
  obtain t where "repr h NULL t" "key_ordered t" "entries t = es" "tree = root t"
    using assms by (auto simp: bst_index_def rb_tree_def)
  then show ?thesis
    using search_gte_repr [of h NULL t v NULL] unfolding rbtree_search_gte_def by metis
qed

lemma add_index:
  assumes "rb_index h tree es" and "h a = Some n" and "a \<noteq> NULL" and "a \<notin> fst ` set es"
  shows "\<exists>h' tree'. rbtree_add h tree a = Some (h', tree') \<and>
    rb_index h' tree' (insert_entry a (rb_val n) es) \<and>
    (\<forall>b. b \<notin> insert a (fst ` set es) \<longrightarrow> h' b = h b)"
proof -
  obtain t where t: "rb_tree h tree t" "rb_inv t" "entries t = es"
    using assms(1) by (auto simp: rb_index_def)
  then have a: "a \<notin> set (addrs t)"
    using assms(4) by (simp add: addrs_entries)
  obtain h' where h': "rbtree_add h tree a = Some (h', root (ins t a (rb_val n)))"
    "rb_tree h' (root (ins t a (rb_val n))) (ins t a (rb_val n))"
    "\<forall>b. b \<notin> insert a (set (addrs t)) \<longrightarrow> h' b = h b"
    by (rule rbtree_add_repr [OF t(1) assms(2,3) a])
  have "rb_index h' (root (ins t a (rb_val n))) (insert_entry a (rb_val n) es)"
    using h'(2) rb_inv_ins [OF t(2)] entries_ins [of t a] t(2,3) by (auto simp: rb_index_def rb_inv_def)
  then show ?thesis
    using h'(1,3) t(3) by (auto simp: addrs_entries)
qed

text \<open>The keys stored in the heap are those of the sequence.\<close>

lemma repr_entry: "repr h q t \<Longrightarrow> (a, k) \<in> set (entries t) \<Longrightarrow> \<exists>n. h a = Some n \<and> rb_val n = k"
  by (induction h q t rule: repr.induct) auto

lemma bst_index_entry: "bst_index h tree es \<Longrightarrow> (a, k) \<in> set es \<Longrightarrow> \<exists>n. h a = Some n \<and> rb_val n = k"
  using repr_entry unfolding bst_index_def rb_tree_def by blast

subsection \<open>The interface\<close>

locale ordered_index =
  fixes rep :: "'s \<Rightarrow> index \<Rightarrow> bool"
    and node_key :: "'s \<Rightarrow> ptr \<Rightarrow> u32 option"
    and find_exact find_lte find_gte :: "'s \<Rightarrow> u32 \<Rightarrow> ptr option"
    and add :: "'s \<Rightarrow> ptr \<Rightarrow> 's option"
  assumes rep_entry: "rep s es \<Longrightarrow> (a, k) \<in> set es \<Longrightarrow> node_key s a = Some k"
    and rep_NULL: "rep s es \<Longrightarrow> NULL \<notin> fst ` set es"
    and find_exact: "rep s es \<Longrightarrow>
      \<exists>p. find_exact s v = Some p \<and> (if v \<in> snd ` set es then (p, v) \<in> set es else p = NULL)"
    and find_lte: "rep s es \<Longrightarrow>
      \<exists>p. find_lte s v = Some p \<and>
          (if \<exists>e \<in> set es. snd e \<le> v then is_lte (set es) v p else p = NULL)"
    and find_gte: "rep s es \<Longrightarrow>
      \<exists>p. find_gte s v = Some p \<and>
          (if \<exists>e \<in> set es. v \<le> snd e then is_gte (set es) v p else p = NULL)"
    and add: "rep s es \<Longrightarrow> node_key s a = Some k \<Longrightarrow> a \<noteq> NULL \<Longrightarrow> a \<notin> fst ` set es \<Longrightarrow>
      \<exists>s'. add s a = Some s' \<and> rep s' (insert_entry a k es)"
begin

lemma set_insert_entry: "set (insert_entry a k es) = insert (a, k) (set es)"
  by (auto simp: insert_entry_def)

text \<open>A node that was added is found under its key, and no key is lost.\<close>

lemma add_then_find:
  assumes "rep s es" "node_key s a = Some k" "a \<noteq> NULL" "a \<notin> fst ` set es"
  obtains s' where "add s a = Some s'" and "rep s' (insert_entry a k es)"
    and "\<exists>p. find_exact s' k = Some p \<and> node_key s' p = Some k"
    and "\<And>v p. v \<noteq> k \<Longrightarrow> v \<notin> snd ` set es \<Longrightarrow> find_exact s' v = Some p \<Longrightarrow> p = NULL"
proof -
  obtain s' where s': "add s a = Some s'" "rep s' (insert_entry a k es)"
    using add [OF assms] by blast
  have "\<exists>p. find_exact s' k = Some p \<and> node_key s' p = Some k"
    using find_exact [OF s'(2), of k] rep_entry [OF s'(2)] by (auto simp: set_insert_entry)
  moreover have "p = NULL" if "v \<noteq> k" "v \<notin> snd ` set es" "find_exact s' v = Some p" for v p
    using find_exact [OF s'(2), of v] that by (auto simp: set_insert_entry image_iff split: if_splits)
  ultimately show thesis
    using that s' by blast
qed

text \<open>\<open>find_lte\<close> and \<open>find_gte\<close> agree on a stored key: both return a node with that key.\<close>

lemma lte_gte_stored:
  assumes "rep s es" and "v \<in> snd ` set es"
  shows "\<exists>p q. find_lte s v = Some p \<and> find_gte s v = Some q \<and>
    node_key s p = Some v \<and> node_key s q = Some v"
proof -
  obtain e where e: "e \<in> set es" "snd e = v"
    using assms(2) by auto
  have ex: "\<exists>e \<in> set es. snd e \<le> v" "\<exists>e \<in> set es. v \<le> snd e"
    using e by force+
  obtain p where "find_lte s v = Some p" "is_lte (set es) v p"
    using find_lte [OF assms(1), of v] ex by auto
  moreover obtain q where "find_gte s v = Some q" "is_gte (set es) v q"
    using find_gte [OF assms(1), of v] ex by auto
  moreover have "node_key s p = Some v" if "is_lte (set es) v p" for p
    using that e rep_entry [OF assms(1)] by (fastforce simp: is_lte_def)
  moreover have "node_key s q = Some v" if "is_gte (set es) v q" for q
    using that e rep_entry [OF assms(1)] by (fastforce simp: is_gte_def)
  ultimately show ?thesis by blast
qed

end

interpretation rb: ordered_index "\<lambda>(h, tree). rb_index h tree" "\<lambda>(h, tree) a. map_option rb_val (h a)"
  "\<lambda>(h, tree). rbtree_search_exact h tree" "\<lambda>(h, tree). rbtree_search_lte h tree"
  "\<lambda>(h, tree). rbtree_search_gte h tree" "\<lambda>(h, tree). rbtree_add h tree"
proof (unfold_locales, goal_cases)
  case (1 s es a k)
  then show ?case using bst_index_entry rb_index_bst by (cases s) fastforce
next
  case (2 s es)
  then show ?case by (cases s) (simp add: bst_index_NULL [OF rb_index_bst])
next
  case (3 s es v)
  then show ?case by (cases s) (simp only: prod.case search_exact_index [OF rb_index_bst])
next
  case (4 s es v)
  then show ?case by (cases s) (simp only: prod.case search_lte_index [OF rb_index_bst])
next
  case (5 s es v)
  then show ?case by (cases s) (simp only: prod.case search_gte_index [OF rb_index_bst])
next
  case (6 s es a k)
  then show ?case using add_index by (cases s) fastforce
qed

subsection \<open>Removal and release\<close>

lemma addrs_focus: "a \<in> set (addrs t) \<Longrightarrow> \<exists>fs l c v r. t = plug fs (Node l (a, c, v) r)"
proof (induction t)
  case (Node l x r)
  obtain b c v where x: "x = (b, c, v)" by (cases x) auto
  consider "a \<in> set (addrs l)" | "a = b" | "a \<in> set (addrs r)"
    using Node.prems x by auto
  then show ?case
  proof cases
    case 1
    then obtain fs l' c' v' r' where "l = plug fs (Node l' (a, c', v') r')"
      using Node.IH(1) by blast
    then have "Node l x r = plug (fs @ [(False, x, r)]) (Node l' (a, c', v') r')"
      by (simp add: plug_append mk_def)
    then show ?thesis by blast
  next
    case 2
    then have "Node l x r = plug [] (Node l (a, c, v) r)"
      using x by simp
    then show ?thesis by blast
  next
    case 3
    then obtain fs l' c' v' r' where "r = plug fs (Node l' (a, c', v') r')"
      using Node.IH(2) by blast
    then have "Node l x r = plug (fs @ [(True, x, l)]) (Node l' (a, c', v') r')"
      by (simp add: plug_append mk_def)
    then show ?thesis by blast
  qed
qed simp

text \<open>A node with two children whose right child is childless.\<close>

definition right_is_leaf :: "rbheap \<Rightarrow> ptr \<Rightarrow> bool" where
  "right_is_leaf h a \<longleftrightarrow>
     (case h a of None \<Rightarrow> False
      | Some n \<Rightarrow> rb_left n \<noteq> NULL \<and>
          (case h (rb_right n) of None \<Rightarrow> False
           | Some m \<Rightarrow> rb_right n \<noteq> NULL \<and> rb_left m = NULL \<and> rb_right m = NULL))"

lemma right_is_leaf_iff:
  assumes "rb_tree h tree (plug fs (Node l (a, c, v) r))" and "h NULL = None"
  shows "right_is_leaf h a \<longleftrightarrow> l \<noteq> Leaf \<and> (\<exists>y. r = Node Leaf y Leaf)"
proof -
  have N: "repr h (ctx_par fs) (Node l (a, c, v) r)"
    using assms(1) unfolding rb_tree_plug by simp
  show ?thesis
  proof (cases r rule: root.cases)
    case 1
    then show ?thesis using N assms(2) by (simp add: right_is_leaf_def)
  next
    case (2 l' b c' v' r')
    then have lr: "repr h b l'" "repr h b r'" "repr h a l"
      using N by simp_all
    show ?thesis
      using N root_eq_NULL_iff [OF lr(1)] root_eq_NULL_iff [OF lr(2)] root_eq_NULL_iff [OF lr(3)]
      by (auto simp: right_is_leaf_def 2)
  qed
qed

lemma ctx_path_ok:
  "invc_ctx fs b \<Longrightarrow> invh_ctx fs n \<Longrightarrow> 0 < n \<Longrightarrow> path_ok fs"
proof (induction fs arbitrary: b n)
  case (Cons f fs)
  obtain d p c v s where f: "f = (d, (p, c, v), s)"
    by (rule frame_cases)
  have s: "invc s" "invh s" "bh s = n"
    using Cons.prems f by simp_all
  have "sib_ok d s"
  proof (cases s rule: rbt_cases_dir [where d = d])
    case Leaf
    then show ?thesis using s Cons.prems(3) by simp
  next
    case (mk cn x xc xv dn)
    then have "bh dn = bh s" if "xc"
      using that s by (simp add: inv_mk)
    then show ?thesis
      using mk s Cons.prems(3) by (cases dn) (auto simp: sib_ok_def rb_simps)
  qed
  moreover have "path_ok fs"
    by (rule Cons.IH [of c "n + (if c then 0 else 1)"]) (use Cons.prems f in simp_all)
  ultimately show ?case
    using f by simp
qed simp

lemma remove_index:
  assumes "rb_index h tree es" and "h NULL = None" and "a \<in> fst ` set es"
  shows "right_is_leaf h a \<Longrightarrow> rbtree_remove h tree a = None"
    and "\<not> right_is_leaf h a \<Longrightarrow>
      \<exists>h' tree'. rbtree_remove h tree a = Some (h', tree') \<and>
        bst_index h' tree' (filter (\<lambda>e. fst e \<noteq> a) es) \<and> (\<forall>b. b \<notin> fst ` set es \<longrightarrow> h' b = h b)"
proof -
  obtain t where t: "rb_tree h tree t" "rb_inv t" "entries t = es"
    using assms(1) by (auto simp: rb_index_def)
  then obtain fs l c v r where focus: "t = plug fs (Node l (a, c, v) r)"
    using assms(3) addrs_focus [of a t] by (auto simp: addrs_entries)
  note wf = t(1) [unfolded focus]
  note leaf = right_is_leaf_iff [OF wf assms(2)]
  have done': "bst_index h' (root t') (filter (\<lambda>e. fst e \<noteq> a) es)"
    if "rb_tree h' (root t') t'" "entries t' = filter (\<lambda>e. fst e \<noteq> a) es" for h' t'
    using that t(2,3) by (auto simp: bst_index_def rb_inv_def key_ordered_def sorted_filter)
  have inv: "invc_ctx fs c" "invh_ctx fs (bh (Node l (a, c, v) r))"
    using t(2) unfolding focus rb_inv_def invc_plug invh_plug by (simp_all del: bh.simps)
  have outside: "\<forall>b. b \<notin> fst ` set es \<longrightarrow> h' b = h b" if "same_outside (plug fs (Node l (a, c, v) r)) h h'" for h'
    using that focus t(3) by (auto simp: addrs_entries)
  have one: "\<exists>h' tree'. rbtree_remove h tree a = Some (h', tree') \<and>
        bst_index h' tree' (filter (\<lambda>e. fst e \<noteq> a) es) \<and> (\<forall>b. b \<notin> fst ` set es \<longrightarrow> h' b = h b)"
    if N: "Node l (a, c, v) r = mk d s (a, c, v) Leaf" "entries s = entries l @ entries r" for d s
  proof -
    have ok: "path_ok fs" if "s = Leaf" "\<not> c"
      using ctx_path_ok [OF inv] that N(1) by (simp add: inv_mk)
    obtain h' t' where h': "rbtree_remove h tree a = Some (h', root t')"
      "rb_tree h' (root t') t'" "entries t' = entries (plug fs s)"
      "same_outside (plug fs (mk d s (a, c, v) Leaf)) h h'"
      by (rule remove_one_child [OF wf [unfolded N(1)] ok])
    have "entries t' = filter (\<lambda>e. fst e \<noteq> a) es"
      using entries_delete [OF wf N(2)] focus t(3) h'(3) by simp
    then show ?thesis
      using h'(1) done' [OF h'(2)] outside [OF h'(4) [folded N(1)]] by blast
  qed
  show "right_is_leaf h a \<Longrightarrow> rbtree_remove h tree a = None"
    using leaf assms(2) remove_two_children [OF wf, of "rbtree_remove h tree a = None"] by auto
  show "\<exists>h' tree'. rbtree_remove h tree a = Some (h', tree') \<and>
        bst_index h' tree' (filter (\<lambda>e. fst e \<noteq> a) es) \<and> (\<forall>b. b \<notin> fst ` set es \<longrightarrow> h' b = h b)"
    if nl: "\<not> right_is_leaf h a"
  proof -
    consider "r = Leaf" | "l = Leaf" | "l \<noteq> Leaf" "r \<noteq> Leaf" by blast
    then show ?thesis
    proof cases
      case 1
      then show ?thesis by (intro one [of False l]) (simp_all add: mk_def)
    next
      case 2
      then show ?thesis by (intro one [of True r]) (simp_all add: mk_def)
    next
      case 3
      show ?thesis
      proof (cases rule: remove_two_children [OF wf 3])
        case (1 y)
        then show ?thesis using nl leaf 3 by blast
      next
        case (2 h' t')
        then have "entries t' = filter (\<lambda>e. fst e \<noteq> a) es"
          using focus t(3) by simp
        then show ?thesis
          using 2(2) done' [OF 2(3)] outside [OF 2(5)] by blast
      qed
    qed
  qed
qed

text \<open>
  Where the balance survives: the node has at most one child and, if it is a black leaf, no
  sibling on its path to the root is red.
\<close>

lemma remove_keeps_balance:
  assumes wf: "rb_tree h tree (plug fs (mk d s (a, c, v) Leaf))"
    and inv: "rb_inv (plug fs (mk d s (a, c, v) Leaf))"
    and sib: "s \<noteq> Leaf \<or> c \<or> no_red_sibling fs"
  shows "\<exists>h' tree'. rbtree_remove h tree a = Some (h', tree') \<and>
    rb_index h' tree' (filter (\<lambda>e. fst e \<noteq> a) (entries (plug fs (mk d s (a, c, v) Leaf))))"
proof -
  have N: "invc s" "invh s" "bh s = 0" "c \<longrightarrow> \<not> is_red s" "invc_ctx fs c"
    "invh_ctx fs (if c then 0 else 1)"
    using inv unfolding rb_inv_def invc_plug invh_plug by (auto simp: inv_mk is_red_mk)
  have sred: "is_red s" if "s \<noteq> Leaf"
    using that N(3) by (cases s rule: root.cases) (auto split: if_splits)
  have ok: "path_ok fs" if "s = Leaf" "\<not> c"
    using ctx_path_ok [OF N(5,6)] that by simp
  obtain h' t' where h': "rbtree_remove h tree a = Some (h', root t')" "rb_tree h' (root t') t'"
    "entries t' = entries (plug fs s)" "fs = [] \<longrightarrow> t' = s"
    "fs \<noteq> [] \<and> s \<noteq> Leaf \<longrightarrow> t' = plug fs (paint False s)"
    "s = Leaf \<and> c \<longrightarrow> t' = plug fs s"
    "deficient fs s \<and> no_red_sibling fs \<and> s = Leaf \<and> \<not> c \<longrightarrow> invc t' \<and> invh t'"
    by (rule remove_one_child [OF wf ok]) blast+
  have ent: "entries t' = filter (\<lambda>e. fst e \<noteq> a) (entries (plug fs (mk d s (a, c, v) Leaf)))"
  proof (cases d)
    case True
    then show ?thesis
      using entries_delete [of h tree fs Leaf a c v s s] wf h'(3) by (simp add: mk_def)
  next
    case False
    then show ?thesis
      using entries_delete [of h tree fs s a c v Leaf s] wf h'(3) by (simp add: mk_def)
  qed
  have "key_ordered t'"
    using inv ent by (simp add: rb_inv_def key_ordered_def sorted_filter)
  moreover consider "fs = []" | "fs \<noteq> []" "s \<noteq> Leaf" | "s = Leaf" "c" | "fs \<noteq> []" "s = Leaf" "\<not> c"
    by blast
  then have "invc t' \<and> invh t'"
  proof cases
    case 1
    then show ?thesis using h'(4) N by simp
  next
    case 2
    then have "\<not> c" using sred N(4) by blast
    then show ?thesis
      using 2 h'(5) N(1-3,5,6) sred by (simp add: invc_plug invh_plug inv_paint)
  next
    case 3
    then show ?thesis
      using h'(6) N(5,6) invc_ctx_False by (auto simp: invc_plug invh_plug)
  next
    case 4
    then show ?thesis
      using h'(7) N sib by (simp add: deficient_def)
  qed
  ultimately show ?thesis
    using h'(1,2) ent by (auto simp: rb_index_def rb_inv_def)
qed

lemma rbtree_free_repr:
  "repr h q t \<Longrightarrow> distinct (addrs t) \<Longrightarrow>
   rbtree_free h (root t) = Some (\<lambda>a. if a \<in> set (addrs t) then None else h a)"
proof (induction t arbitrary: h q rule: addrs.induct)
  case 1
  then show ?case by (subst rbtree_free.simps) simp
next
  case (2 l a c v r)
  let ?h1 = "\<lambda>b. if b \<in> set (addrs l) then None else h b"
  have "?h1 b = h b" if "b \<in> set (addrs r)" for b
    using that 2(4) by auto
  then have r1: "repr ?h1 a r"
    using repr_frame [of r ?h1 h a] 2(3) by simp
  have "rbtree_free h (root l) = Some ?h1"
    using 2 by auto
  moreover have "rbtree_free ?h1 (root r) = Some (\<lambda>b. if b \<in> set (addrs r) then None else ?h1 b)"
    using 2(2) [OF r1] 2(4) by simp
  moreover have "(\<lambda>b. if b \<in> set (addrs r) then None else ?h1 b)(a := None) =
      (\<lambda>b. if b \<in> set (addrs (Node l (a, c, v) r)) then None else h b)"
    by auto
  ultimately show ?case
    using 2(3,4) by (subst rbtree_free.simps) (simp add: nodes_def)
qed

end
