(* ===== verification/RBTree_Props.thy ===== *)
theory RBTree_Props
  imports RBTree_Index
begin

text \<open>
  The properties of the red-black tree of \<open>src/src/rbtree.c\<close>, each with a concrete instance.
\<close>

subsection \<open>Sequences of insertions\<close>

fun rb_adds :: "rbheap \<Rightarrow> ptr \<Rightarrow> ptr list \<Rightarrow> (rbheap \<times> ptr) option" where
  "rb_adds h tree [] = Some (h, tree)"
| "rb_adds h tree (a # as) = do { (h, tree) \<leftarrow> rbtree_add h tree a; rb_adds h tree as }"

lemma length_insert_entry: "sorted (map snd es) \<Longrightarrow> length (insert_entry a v es) = Suc (length es)"
  using sum_length_filter_compl [of "\<lambda>e. snd e < v" es] by (simp add: insert_entry_def not_less)

lemma fst_insert_entry: "fst ` set (insert_entry a v es) = insert a (fst ` set es)"
  by (force simp: insert_entry_def)

lemma rb_adds_index:
  assumes "rb_index h tree es" and "distinct as" and "set as \<inter> fst ` set es = {}"
    and "\<And>a. a \<in> set as \<Longrightarrow> a \<noteq> NULL \<and> h a \<noteq> None"
  shows "\<exists>h' tree' es'. rb_adds h tree as = Some (h', tree') \<and> rb_index h' tree' es' \<and>
    length es' = length es + length as \<and> fst ` set es' = fst ` set es \<union> set as"
  using assms
proof (induction as arbitrary: h tree es)
  case (Cons a as)
  obtain n where n: "h a = Some n"
    using Cons.prems(4) by force
  obtain h1 tree1 where h1: "rbtree_add h tree a = Some (h1, tree1)"
    "rb_index h1 tree1 (insert_entry a (rb_val n) es)"
    "\<forall>b. b \<notin> insert a (fst ` set es) \<longrightarrow> h1 b = h b"
    using add_index [OF Cons.prems(1) n] Cons.prems(3,4) by auto
  have same: "h1 b = h b" if "b \<in> set as" for b
    using h1(3) that Cons.prems(2,3) by auto
  have "\<exists>h' tree' es'. rb_adds h1 tree1 as = Some (h', tree') \<and> rb_index h' tree' es' \<and>
      length es' = length (insert_entry a (rb_val n) es) + length as \<and>
      fst ` set es' = fst ` set (insert_entry a (rb_val n) es) \<union> set as"
    by (rule Cons.IH [OF h1(2)])
      (use Cons.prems same in \<open>auto simp: fst_insert_entry\<close>)
  then show ?case
    using h1(1) bst_index_sorted [OF rb_index_bst [OF Cons.prems(1)]]
    by (auto simp: length_insert_entry fst_insert_entry)
qed auto

lemma size_entries: "size t = length (entries t)"
  by (induction t rule: entries.induct) simp_all

subsection \<open>Representation is unique\<close>

lemma repr_unique: "repr h q t \<Longrightarrow> repr h q' t' \<Longrightarrow> root t = root t' \<Longrightarrow> t = t'"
proof (induction t arbitrary: q q' t' rule: addrs.induct)
  case 1
  then show ?case by (cases t' rule: root.cases) auto
next
  case (2 l a c v r)
  obtain l' a' c' v' r' where t': "t' = Node l' (a', c', v') r'"
    using "2.prems" by (cases t' rule: root.cases) auto
  then have eq: "a' = a" "c' = c" "v' = v" "root l = root l'" "root r = root r'"
    using "2.prems" by auto
  have "l = l'"
    by (rule "2.IH"(1)) (use "2.prems" t' eq in auto)
  moreover have "r = r'"
    by (rule "2.IH"(2)) (use "2.prems" t' eq in auto)
  ultimately show ?case
    using t' eq by simp
qed

subsection \<open>Two concrete trees\<close>

abbreviation nd :: "ptr \<Rightarrow> bool \<Rightarrow> ptr \<Rightarrow> ptr \<Rightarrow> u32 \<Rightarrow> rbnode" where
  "nd p c l r v \<equiv> \<lparr>rb_parent = p, rb_red = c, rb_left = l, rb_right = r, rb_val = v\<rparr>"

definition heap3 :: rbheap where
  "heap3 = [10 \<mapsto> nd 0 False 20 30 20, 20 \<mapsto> nd 10 True 0 0 10, 30 \<mapsto> nd 10 True 0 0 30,
            40 \<mapsto> nd 0 False 0 0 25]"

definition heap5 :: rbheap where
  "heap5 = [10 \<mapsto> nd 0 False 20 30 20, 20 \<mapsto> nd 10 False 0 0 10, 30 \<mapsto> nd 10 True 40 50 40,
            40 \<mapsto> nd 30 False 0 0 30, 50 \<mapsto> nd 30 False 0 0 50]"

lemma index3: "rb_index heap3 10 [(20, 10), (10, 20), (30, 30)]"
  unfolding rb_index_def
  by (rule exI [of _ "Node (Node Leaf (20, True, 10) Leaf) (10, False, 20) (Node Leaf (30, True, 30) Leaf)"])
    (simp add: rb_tree_def rb_inv_def key_ordered_def heap3_def)

lemma index5: "rb_index heap5 10 [(20, 10), (10, 20), (40, 30), (30, 40), (50, 50)]"
  unfolding rb_index_def
  by (rule exI [of _ "Node (Node Leaf (20, False, 10) Leaf) (10, False, 20)
        (Node (Node Leaf (40, False, 30) Leaf) (30, True, 40) (Node Leaf (50, False, 50) Leaf))"])
    (simp add: rb_tree_def rb_inv_def key_ordered_def heap5_def)

text \<open>Removing node 20, a black leaf whose sibling is red, from \<open>heap5\<close>.\<close>

definition heap5_removed :: rbheap where
  "heap5_removed = [10 \<mapsto> nd 30 True 0 40 20, 20 \<mapsto> nd 10 False 0 0 10, 30 \<mapsto> nd 0 False 10 50 40,
            40 \<mapsto> nd 10 False 0 0 30, 50 \<mapsto> nd 30 True 0 0 50]"

lemmas run_simps = nodes_def set_nodes_def set_parent_def set_red_def red_at_def bstree_rotate_def Let_def

lemma heap5_round1:
  "remove_fixup (heap5(10 \<mapsto> nd 0 False 0 30 20)) 10 10 False =
   remove_fixup (heap5_removed(50 \<mapsto> nd 30 False 0 0 50)) 30 30 False"
  by (subst remove_fixup.simps)
    (simp add: heap5_def heap5_removed_def run_simps,
      rule arg_cong [where f = "\<lambda>h. remove_fixup h 30 30 False"], auto simp: fun_eq_iff)

lemma heap5_round2:
  "remove_fixup (heap5_removed(50 \<mapsto> nd 30 False 0 0 50)) 30 30 False = Some (heap5_removed, 30)"
  by (subst remove_fixup.simps) (simp add: heap5_removed_def run_simps, auto simp: fun_eq_iff)

lemma heap5_remove: "rbtree_remove heap5 10 20 = Some (heap5_removed, 30)"
proof -
  have "rbtree_remove heap5 10 20 = remove_fixup (heap5(10 \<mapsto> nd 0 False 0 30 20)) 10 10 False"
    by (simp add: rbtree_remove_def heap5_def run_simps)
  then show ?thesis
    by (simp only: heap5_round1 heap5_round2)
qed

subsection \<open>Properties\<close>

text \<open>C3: \<open>rbtree_add\<close> on a well-formed, balanced tree returns: the tree is again well formed and
  balanced, its in-order sequence is the old one with the node inserted before the first key that
  is not smaller, and no node outside the tree is touched.\<close>

theorem rbtree_add_correct:
  assumes "rb_index h tree es" and "h a = Some n" and "a \<noteq> NULL" and "a \<notin> fst ` set es"
  shows "\<exists>h' tree'. rbtree_add h tree a = Some (h', tree') \<and>
    rb_index h' tree' (insert_entry a (rb_val n) es) \<and>
    (\<forall>b. b \<notin> insert a (fst ` set es) \<longrightarrow> h' b = h b)"
  using assms by (rule add_index)

theorem rbtree_add_correct_witness:
  "\<exists>h' tree'. rbtree_add heap3 10 40 = Some (h', tree') \<and>
     rb_index h' tree' [(20, 10), (10, 20), (40, 25), (30, 30)]"
  using rbtree_add_correct [OF index3, of 40 "nd 0 False 0 0 25"]
  by (auto simp: heap3_def insert_entry_def)

text \<open>C35: after an insertion the exact search finds a node with the inserted key.\<close>

theorem rbtree_add_then_search:
  assumes "rb_index h tree es" and "h a = Some n" and "a \<noteq> NULL" and "a \<notin> fst ` set es"
  shows "\<exists>h' tree' p m. rbtree_add h tree a = Some (h', tree') \<and>
    rbtree_search_exact h' tree' (rb_val n) = Some p \<and> h' p = Some m \<and> rb_val m = rb_val n"
proof -
  have pre: "case (h, tree) of (h, tree) \<Rightarrow> rb_index h tree es"
    "(case (h, tree) of (h, tree) \<Rightarrow> \<lambda>a. map_option rb_val (h a)) a = Some (rb_val n)"
    using assms by simp_all
  obtain s' where "(case (h, tree) of (h, tree) \<Rightarrow> rbtree_add h tree) a = Some s'"
    "\<exists>p. (case s' of (h, tree) \<Rightarrow> rbtree_search_exact h tree) (rb_val n) = Some p \<and>
         (case s' of (h, tree) \<Rightarrow> \<lambda>a. map_option rb_val (h a)) p = Some (rb_val n)"
    by (rule rb.add_then_find [OF _ pre(2) assms(3,4)]) (use pre(1) in simp)
  then show ?thesis by (cases s') auto
qed

theorem rbtree_add_then_search_witness:
  "\<exists>h' tree' p m. rbtree_add heap3 10 40 = Some (h', tree') \<and>
     rbtree_search_exact h' tree' 25 = Some p \<and> h' p = Some m \<and> rb_val m = 25"
  using rbtree_add_then_search [OF index3, of 40 "nd 0 False 0 0 25"] by (simp add: heap3_def)

text \<open>C18: the three searches end and answer as specified: an exact match or \<open>NULL\<close>, the node with
  the greatest key not above the argument, the node with the least key not below it.\<close>

theorem rbtree_searches_correct:
  assumes "rb_index h tree es"
  shows "\<exists>p q r.
    rbtree_search_exact h tree v = Some p \<and> (if v \<in> snd ` set es then (p, v) \<in> set es else p = NULL) \<and>
    rbtree_search_lte h tree v = Some q \<and>
      (if \<exists>e \<in> set es. snd e \<le> v then is_lte (set es) v q else q = NULL) \<and>
    rbtree_search_gte h tree v = Some r \<and>
      (if \<exists>e \<in> set es. v \<le> snd e then is_gte (set es) v r else r = NULL)"
proof -
  note bst = rb_index_bst [OF assms]
  obtain p where "rbtree_search_exact h tree v = Some p"
    "if v \<in> snd ` set es then (p, v) \<in> set es else p = NULL"
    using search_exact_index [OF bst, of v] by blast
  moreover obtain q where "rbtree_search_lte h tree v = Some q"
    "if \<exists>e \<in> set es. snd e \<le> v then is_lte (set es) v q else q = NULL"
    using search_lte_index [OF bst, of v] by blast
  moreover obtain r where "rbtree_search_gte h tree v = Some r"
    "if \<exists>e \<in> set es. v \<le> snd e then is_gte (set es) v r else r = NULL"
    using search_gte_index [OF bst, of v] by blast
  ultimately show ?thesis by blast
qed

theorem rbtree_searches_correct_witness:
  "rbtree_search_exact heap3 10 25 = Some NULL \<and> rbtree_search_lte heap3 10 25 = Some 10 \<and>
   rbtree_search_gte heap3 10 25 = Some 30"
  using rbtree_searches_correct [OF index3, of 25] by (auto simp: is_lte_def is_gte_def)

text \<open>C15: inserting any nodes one after the other into a tree never fails, and the height of the
  tree stays logarithmic in its number of nodes.\<close>

theorem rb_adds_height:
  assumes "distinct as" and "\<And>a. a \<in> set as \<Longrightarrow> a \<noteq> NULL \<and> h a \<noteq> None"
  shows "\<exists>h' t. rb_adds h NULL as = Some (h', root t) \<and> rb_tree h' (root t) t \<and>
    size t = length as \<and> set (addrs t) = set as \<and> 2 ^ height t \<le> 2 * (length as + 1) ^ 2"
proof -
  have "rb_index h NULL []"
    by (auto simp: rb_index_def rb_tree_def rb_inv_def intro!: exI [of _ Leaf])
  then obtain h' tree' es' where *: "rb_adds h NULL as = Some (h', tree')" "rb_index h' tree' es'"
    "length es' = length as" "fst ` set es' = set as"
    using rb_adds_index [of h NULL "[]" as] assms by auto
  then obtain t where t: "rb_tree h' tree' t" "rb_inv t" "entries t = es'"
    by (auto simp: rb_index_def)
  then have "size t = length as" "tree' = root t" "set (addrs t) = set as"
    using *(3,4) by (auto simp: size_entries rb_tree_def addrs_entries)
  then show ?thesis
    using *(1) t height_bound [of t] by auto
qed

theorem rb_adds_height_witness:
  "\<exists>h' t. rb_adds heap3 NULL [40, 20, 30] = Some (h', root t) \<and> size t = 3 \<and> 2 ^ height t \<le> (32::nat)"
proof -
  have "a \<noteq> NULL \<and> heap3 a \<noteq> None" if "a \<in> set [40, 20, 30]" for a
    using that by (auto simp: heap3_def)
  then obtain h' t where "rb_adds heap3 NULL [40, 20, 30] = Some (h', root t)" "size t = 3"
    "2 ^ height t \<le> 2 * (length [40, 20, 30::nat] + 1) ^ 2"
    using rb_adds_height [of "[40, 20, 30]" heap3] by (auto simp del: rb_adds.simps)
  moreover have "2 * (length [40, 20, 30::nat] + 1) ^ 2 = 32"
    by (simp add: power2_eq_square)
  ultimately show ?thesis by metis
qed

text \<open>C6: \<open>rbtree_remove\<close> of a node of a balanced tree, when the node does not have two children
  the right one of which is childless, returns; the in-order sequence loses that node and nothing
  else, and no node outside the tree is touched.\<close>

theorem rbtree_remove_correct:
  assumes "rb_index h tree es" and "h NULL = None" and "a \<in> fst ` set es" and "\<not> right_is_leaf h a"
  shows "\<exists>h' tree'. rbtree_remove h tree a = Some (h', tree') \<and>
    bst_index h' tree' (filter (\<lambda>e. fst e \<noteq> a) es) \<and> (\<forall>b. b \<notin> fst ` set es \<longrightarrow> h' b = h b)"
  using remove_index(2) [OF assms] .

theorem rbtree_remove_correct_witness:
  "\<exists>h' tree'. rbtree_remove heap5 10 10 = Some (h', tree') \<and>
     bst_index h' tree' [(20, 10), (40, 30), (30, 40), (50, 50)]"
  using rbtree_remove_correct [OF index5, of 10] by (auto simp: heap5_def right_is_leaf_def)

text \<open>\<open>rbtree_remove\<close> of a node with two children whose right child has none dereferences
  \<open>NULL\<close>: the slot the source reads back as \<open>node->nodes[1]\<close> has just been emptied.\<close>

theorem rbtree_remove_null:
  assumes "rb_index h tree es" and "h NULL = None" and "a \<in> fst ` set es" and "right_is_leaf h a"
  shows "rbtree_remove h tree a = None"
  using remove_index(1) [OF assms] .

theorem rbtree_remove_null_witness: "rbtree_remove heap3 10 10 = None"
  using rbtree_remove_null [OF index3, of 10] by (simp add: heap3_def right_is_leaf_def)

text \<open>C19: a removal keeps the tree balanced when the node has at most one child and, if it is a
  black leaf, no sibling on its path to the root is red.\<close>

theorem rbtree_remove_balanced:
  assumes "rb_tree h tree (plug fs (mk d s (a, c, v) Leaf))"
    and "rb_inv (plug fs (mk d s (a, c, v) Leaf))"
    and "s \<noteq> Leaf \<or> c \<or> no_red_sibling fs"
  shows "\<exists>h' tree'. rbtree_remove h tree a = Some (h', tree') \<and>
    rb_index h' tree' (filter (\<lambda>e. fst e \<noteq> a) (entries (plug fs (mk d s (a, c, v) Leaf))))"
  using assms by (rule remove_keeps_balance)

theorem rbtree_remove_balanced_witness:
  "\<exists>h' tree'. rbtree_remove heap3 10 20 = Some (h', tree') \<and> rb_index h' tree' [(10, 20), (30, 30)]"
  using rbtree_remove_balanced [of heap3 10 "[(False, (10, False, 20), Node Leaf (30, True, 30) Leaf)]" False Leaf 20 True 10]
  by (simp add: heap3_def rb_tree_def rb_inv_def key_ordered_def mk_def)

text \<open>with a red sibling the rebalancing loop goes wrong: removing a black leaf from a balanced
  tree of five nodes leaves a tree that is not balanced.\<close>

theorem rbtree_remove_unbalances:
  "\<exists>h' tree'. rb_index heap5 10 [(20, 10), (10, 20), (40, 30), (30, 40), (50, 50)] \<and>
     rbtree_remove heap5 10 20 = Some (h', tree') \<and>
     \<not> rb_index h' tree' [(10, 20), (40, 30), (30, 40), (50, 50)]"
proof -
  let ?t = "Node (Node Leaf (10, True, 20) (Node Leaf (40, False, 30) Leaf)) (30, False, 40) (Node Leaf (50, True, 50) Leaf)"
  have repr: "repr heap5_removed NULL ?t"
    by (simp add: heap5_removed_def)
  have "\<not> rb_index heap5_removed 30 es" for es
  proof
    assume "rb_index heap5_removed 30 es"
    then obtain t where "repr heap5_removed NULL t" "root t = 30" "invh t"
      by (auto simp: rb_index_def rb_tree_def rb_inv_def)
    then show False
      using repr_unique [OF repr, of NULL t] by auto
  qed
  then show ?thesis
    using index5 heap5_remove by blast
qed

text \<open>C40: \<open>rbtree_free\<close> ends, and frees every node of the tree once and nothing else.\<close>

theorem rbtree_free_correct:
  assumes "bst_index h tree es"
  shows "rbtree_free h tree = Some (\<lambda>a. if a \<in> fst ` set es then None else h a)"
proof -
  obtain t where "repr h NULL t" "distinct (addrs t)" "root t = tree" "entries t = es"
    using assms by (auto simp: bst_index_def rb_tree_def)
  then show ?thesis
    using rbtree_free_repr [of h NULL t] by (simp add: addrs_entries)
qed

theorem rbtree_free_correct_witness:
  "rbtree_free heap3 10 = Some [40 \<mapsto> nd 0 False 0 0 25]"
  using rbtree_free_correct [OF rb_index_bst [OF index3]] by (auto simp: heap3_def fun_eq_iff)

end
