(* ===== verification/WTables.thy ===== *)
theory WTables
  imports Prelude
begin

text \<open>
  The Unicode tables of \<open>libc/src/wchar/unicode_luts.c\<close>, entry by entry. A row \<open>{a, b}\<close> is the
  range of the code points from \<open>a\<close> to \<open>b\<close>; in the tables called \<open>high\<close> the code points are taken
  less \<open>0x10000\<close>. Long tables are split into parts. Two arrays are declared longer than their
  initialiser, and C fills the rest of them with zeros: \<open>other_letters_high\<close> has 267 rows of which
  248 are given, \<open>zerowidth_ranges_high\<close> 134 of which 127 are given.
\<close>

definition towupper_exclusions :: "(nat \<times> nat) list" where
  "towupper_exclusions =
    [(0xDF, 0xDF), (0x138, 0x138), (0x149, 0x149), (0x18D, 0x18D), (0x1AA, 0x1AB),
     (0x1BA, 0x1BA), (0x1BE, 0x1BE), (0x1F0, 0x1F0), (0x221, 0x221), (0x255, 0x255),
     (0x258, 0x258), (0x25A, 0x25A), (0x262, 0x262), (0x234, 0x239), (0x25D, 0x25F),
     (0x267, 0x267), (0x26D, 0x26E), (0x270, 0x270), (0x273, 0x274), (0x276, 0x276),
     (0x278, 0x27B), (0x27E, 0x27F), (0x281, 0x281), (0x284, 0x286), (0x28D, 0x291),
     (0x293, 0x293), (0x296, 0x29C), (0x29F, 0x29F), (0x2A0, 0x2AF), (0x390, 0x390),
     (0x3B0, 0x3B0), (0x3D2, 0x3D4), (0x3FC, 0x3FC), (0x560, 0x560), (0x587, 0x588),
     (0x1D00, 0x1D2B), (0x1D6B, 0x1D9A), (0x1E96, 0x1E9A), (0x1E9C, 0x1E9D), (0x1E9F, 0x1E9F),
     (0x1F50, 0x1F50), (0x1F52, 0x1F52), (0x1F54, 0x1F54), (0x1F56, 0x1F56), (0x1FB2, 0x1FB2),
     (0x1FB4, 0x1FB4), (0x1FB6, 0x1FB7), (0x1FC2, 0x1FC2), (0x1FC4, 0x1FC4), (0x1FC6, 0x1FC6),
     (0x1FC7, 0x1FC7), (0x1FD2, 0x1FD3), (0x1FD6, 0x1FD7), (0x1FE2, 0x1FE4), (0x1FE6, 0x1FE7),
     (0x1FF2, 0x1FF2), (0x1FF4, 0x1FF4), (0x1FF6, 0x1FF7), (0x2102, 0x214D), (0x2C71, 0x2C71),
     (0x2C74, 0x2C74), (0x2C77, 0x2C7B), (0x2CE4, 0x2CE4), (0xA730, 0xA731), (0xA771, 0xA778),
     (0xA78E, 0xA78E), (0xA795, 0xA795), (0xA7AF, 0xA7AF), (0xA7FA, 0xA7FA), (0xAB30, 0xAB6C),
     (0xFB00, 0xFB17)]"

definition towupper_exclusions_high :: "(nat \<times> nat) list" where
  "towupper_exclusions_high =
    [(0xD400, 0xD7CB), (0xDF00, 0xDF3F), (0xDF42, 0xDF47), (0xDF4C, 0xDF4C), (0xDF4F, 0xDF50),
     (0xDF53, 0xDF67), (0xDF70, 0xDF71), (0xDF90, 0xDF96)]"

definition towupper_delta_list :: "(nat \<times> nat \<times> nat \<times> nat) list" where
  "towupper_delta_list =
    [(0x41, 0xFE, 0x20, 1), (0x100, 0x377, 1, 0), (0x391, 0x3CB, 0x20, 1), (0x3D8, 0x3EF, 1, 1),
     (0x400, 0x40F, 0x50, 1), (0x410, 0x44F, 0x20, 1), (0x450, 0x45F, 0x50, 1),
     (0x460, 0x52F, 1, 1), (0x531, 0x586, 0x30, 1), (0x10A0, 0x10CD, 0x1C60, 1),
     (0x10D0, 0x10FF, 0xBC0, 0), (0x13A0, 0x13EF, 0x97D0, 1), (0x13F0, 0x13FD, 8, 1),
     (0x1C90, 0x1CBF, 0xBC0, 0), (0x1E00, 0x1EFF, 1, 1), (0x1F00, 0x1FE9, 8, 0),
     (0x2C00, 0x2C5F, 0x30, 1), (0x2C60, 0x2CF3, 1, 1), (0x2D00, 0x2D2D, 0x1C60, 1),
     (0xA640, 0xA7DB, 1, 1), (0xAB70, 0xABBF, 0x97D0, 1), (0xFF21, 0xFF5A, 0x20, 1)]"

definition towupper_delta_list_high :: "(nat \<times> nat \<times> nat) list" where
  "towupper_delta_list_high =
    [(0x400, 0x4FB, 0x28), (0x570, 0x5BC, 0x27), (0xC80, 0xCF2, 0x40), (0xD50, 0x6E7F, 0x20),
     (0x6EA0, 0x6ED3, 0x1B), (0xDF40, 0xDF7F, 1), (0xE900, 0xE943, 0x22)]"

definition towupper_delta_list_ex_1 :: "(nat \<times> nat \<times> nat) list" where
  "towupper_delta_list_ex_1 =
    [(0xB5, 0x2E7, 0), (0xFF, 0x79, 0), (0x130, 0xC7, 0), (0x131, 0xE8, 1), (0x178, 0x79, 0),
     (0x17F, 0x12C, 1), (0x180, 0xC3, 0), (0x181, 0xD2, 1), (0x186, 0xCE, 1), (0x189, 0xCD, 1),
     (0x18A, 0xCD, 1), (0x18E, 0x4F, 1), (0x18F, 0xCA, 1), (0x190, 0xCB, 1), (0x193, 0xCD, 1),
     (0x194, 0xCF, 1), (0x195, 0x61, 0), (0x196, 0xD3, 1), (0x197, 0xD1, 1), (0x19A, 0xA3, 0),
     (0x19B, 0xA641, 0), (0x19C, 0xD3, 1), (0x19D, 0xD5, 1), (0x19E, 0x82, 0), (0x19F, 0xD6, 1),
     (0x1A6, 0xDA, 1), (0x1A9, 0xDA, 1), (0x1AE, 0xDA, 1), (0x1B1, 0xD9, 1), (0x1B2, 0xD9, 1),
     (0x1B7, 0xDB, 1), (0x1BF, 0x38, 0), (0x1C4, 2, 1), (0x1C6, 2, 1), (0x1C7, 2, 1),
     (0x1C9, 2, 1), (0x1CA, 2, 1), (0x1CC, 2, 1), (0x1DD, 0x4F, 1), (0x1F1, 2, 1), (0x1F3, 2, 1),
     (0x1F6, 0x61, 0), (0x1F7, 0x38, 0), (0x220, 0x82, 0), (0x23A, 0x2A2B, 1), (0x23D, 0xA3, 0),
     (0x23E, 0x2A28, 1), (0x23F, 0x2A3F, 0), (0x240, 0x2A3F, 0), (0x243, 0xC3, 0),
     (0x244, 0x45, 1), (0x245, 0x47, 1), (0x250, 0x2A1F, 0), (0x251, 0x2A1C, 0),
     (0x252, 0x2A1E, 0), (0x253, 0xD2, 1), (0x254, 0xCE, 1), (0x256, 0xCD, 1), (0x257, 0xCD, 1),
     (0x259, 0xCA, 1), (0x25B, 0xCB, 1), (0x25C, 0xA54F, 0), (0x260, 0xCD, 1),
     (0x261, 0xA54B, 0), (0x263, 0xCF, 1), (0x264, 0xA567, 0), (0x265, 0xA528, 0),
     (0x266, 0xA544, 0), (0x268, 0xD1, 1), (0x269, 0xD3, 1), (0x26A, 0xA544, 0),
     (0x26B, 0x29F7, 0), (0x26C, 0xA541, 0), (0x26F, 0xD3, 1), (0x271, 0x29FD, 0),
     (0x272, 0xD5, 1), (0x275, 0xD6, 1), (0x277, 0xA566, 0), (0x27C, 0xA566, 0),
     (0x27D, 0x29E7, 0), (0x280, 0xDA, 1), (0x282, 0xA543, 0), (0x283, 0xDA, 1),
     (0x287, 0xA52A, 0), (0x288, 0xDA, 1), (0x289, 0x45, 1), (0x28A, 0xD9, 1), (0x28B, 0xD9, 1),
     (0x28C, 0x47, 1), (0x292, 0xDB, 1), (0x29D, 0xA515, 0), (0x29E, 0xA512, 0),
     (0x37B, 0x82, 0), (0x37C, 0x82, 0), (0x37D, 0x82, 0), (0x37F, 0x74, 1), (0x386, 0x26, 1),
     (0x388, 0x25, 1), (0x389, 0x25, 1), (0x38A, 0x25, 1), (0x38C, 0x40, 1), (0x38E, 0x3F, 1),
     (0x38F, 0x3F, 1), (0x3AC, 0x26, 1), (0x3AD, 0x25, 1), (0x3AE, 0x25, 1), (0x3AF, 0x25, 1),
     (0x3CC, 0x40, 1), (0x3CD, 0x3F, 1), (0x3CE, 0x3F, 1), (0x3CF, 8, 1), (0x3D0, 0x3E, 1),
     (0x3D1, 0x39, 1), (0x3D5, 0x2F, 1), (0x3D6, 0x36, 1), (0x3D7, 8, 1), (0x3F0, 0x56, 1),
     (0x3F1, 0x50, 1), (0x3F2, 7, 0), (0x3F3, 0x74, 1), (0x3F4, 0x3C, 0), (0x3F5, 0x60, 1),
     (0x3F7, 1, 1), (0x3F8, 1, 1), (0x3F9, 7, 0), (0x3FA, 1, 1), (0x3FB, 1, 1), (0x3FD, 0x82, 0),
     (0x3FE, 0x82, 0), (0x3FF, 0x82, 0), (0x4CF, 0xF, 1), (0x1C80, 0x186E, 1),
     (0x1C81, 0x186D, 1), (0x1C82, 0x1864, 1), (0x1C83, 0x1862, 1), (0x1C84, 0x1862, 1),
     (0x1C85, 0x1863, 1), (0x1C86, 0x185C, 1), (0x1C87, 0x1825, 1), (0x1C88, 0x89C2, 0)]"

definition towupper_delta_list_ex_2 :: "(nat \<times> nat \<times> nat) list" where
  "towupper_delta_list_ex_2 =
    [(0x1C89, 1, 1), (0x1C8A, 1, 1), (0x1D79, 0x8A04, 0), (0x1D7D, 0xEE6, 0),
     (0x1D8E, 0x8A38, 0), (0x1E9B, 0x3B, 1), (0x1E9E, 0x1DBF, 0), (0x1F70, 0x4A, 0),
     (0x1F71, 0x4A, 0), (0x1F72, 0x56, 0), (0x1F73, 0x56, 0), (0x1F74, 0x56, 0),
     (0x1F75, 0x56, 0), (0x1F76, 0x64, 0), (0x1F77, 0x64, 0), (0x1F78, 0x80, 0),
     (0x1F79, 0x80, 0), (0x1F7A, 0x70, 0), (0x1F7B, 0x70, 0), (0x1F7C, 0x7E, 0),
     (0x1F7D, 0x7E, 0), (0x1FB3, 9, 0), (0x1FBA, 0x4A, 0), (0x1FBB, 0x4A, 0),
     (0x1FBE, 0x1C25, 1), (0x1FC3, 9, 0), (0x1FC8, 0x56, 0), (0x1FC9, 0x56, 0),
     (0x1FCA, 0x56, 0), (0x1FCB, 0x56, 0), (0x1FDA, 0x64, 0), (0x1FDB, 0x64, 0), (0x1FE5, 7, 0),
     (0x1FEA, 0x70, 0), (0x1FEB, 0x70, 0), (0x1FEC, 7, 0), (0x1FF3, 9, 0), (0x1FF8, 0x80, 0),
     (0x1FF9, 0x80, 0), (0x1FFA, 0x7E, 0), (0x1FFB, 0x7E, 0), (0x2126, 0x1D5D, 0),
     (0x212A, 0x20BF, 0), (0x212B, 0x2046, 0), (0x2132, 0x1C, 1), (0x214E, 0x1C, 1),
     (0x2183, 1, 1), (0x2184, 1, 1), (0x2C62, 0x29F7, 0), (0x2C63, 0xEE6, 0),
     (0x2C64, 0x29E7, 0), (0x2C65, 0x2A2B, 1), (0x2C66, 0x2A28, 1), (0x2C6D, 0x2A1C, 0),
     (0x2C6E, 0x29FD, 0), (0x2C6F, 0x2A1F, 0), (0x2C70, 0x2A1E, 0), (0x2C7E, 0x2A3F, 0),
     (0x2C7F, 0x2A3F, 0), (0xA77D, 0x8A04, 0), (0xA78D, 0xA528, 0), (0xA794, 0x30, 0),
     (0xA7AA, 0xA544, 0), (0xA7AB, 0xA54F, 0), (0xA7AC, 0xA54B, 0), (0xA7AD, 0xA541, 0),
     (0xA7AE, 0xA544, 0), (0xA7B0, 0xA512, 0), (0xA7B1, 0xA52A, 0), (0xA7B2, 0xA515, 0),
     (0xA7B3, 0x3A0, 1), (0xA7C4, 0x30, 0), (0xA7C5, 0xA543, 0), (0xA7C6, 0x8A38, 0),
     (0xA7CB, 0xA567, 0), (0xA7DC, 0xA641, 0), (0xA7DD, 0xA566, 0), (0xA7E2, 0xA566, 0),
     (0xA7F5, 1, 1), (0xA7F6, 1, 1), (0xAB4B, 0x21, 0), (0xAB4C, 0x21, 0), (0xAB53, 0x3A0, 1),
     (0xAB6C, 0x21, 0), (0xAB6D, 0x21, 0)]"

definition towupper_delta_list_ex :: "(nat \<times> nat \<times> nat) list" where
  "towupper_delta_list_ex =
     towupper_delta_list_ex_1 @ towupper_delta_list_ex_2"

definition iswupper_ranges_1 :: "(nat \<times> nat) list" where
  "iswupper_ranges_1 =
    [(0x41, 0x5A), (0xC0, 0xD6), (0xD8, 0xDE), (0x100, 0x100), (0x102, 0x102), (0x104, 0x104),
     (0x106, 0x106), (0x108, 0x108), (0x10A, 0x10A), (0x10C, 0x10C), (0x10E, 0x10E),
     (0x110, 0x110), (0x112, 0x112), (0x114, 0x114), (0x116, 0x116), (0x118, 0x118),
     (0x11A, 0x11A), (0x11C, 0x11C), (0x11E, 0x11E), (0x120, 0x120), (0x122, 0x122),
     (0x124, 0x124), (0x126, 0x126), (0x128, 0x128), (0x12A, 0x12A), (0x12C, 0x12C),
     (0x12E, 0x12E), (0x130, 0x130), (0x132, 0x132), (0x134, 0x134), (0x136, 0x136),
     (0x139, 0x139), (0x13B, 0x13B), (0x13D, 0x13D), (0x13F, 0x13F), (0x141, 0x141),
     (0x143, 0x143), (0x145, 0x145), (0x147, 0x147), (0x14A, 0x14A), (0x14C, 0x14C),
     (0x14E, 0x14E), (0x150, 0x150), (0x152, 0x152), (0x154, 0x154), (0x156, 0x156),
     (0x158, 0x158), (0x15A, 0x15A), (0x15C, 0x15C), (0x15E, 0x15E), (0x160, 0x160),
     (0x162, 0x162), (0x164, 0x164), (0x166, 0x166), (0x168, 0x168), (0x16A, 0x16A),
     (0x16C, 0x16C), (0x16E, 0x16E), (0x170, 0x170), (0x172, 0x172), (0x174, 0x174),
     (0x176, 0x176), (0x178, 0x179), (0x17B, 0x17B), (0x17D, 0x17D), (0x181, 0x182),
     (0x184, 0x184), (0x186, 0x187), (0x189, 0x18B), (0x18E, 0x191), (0x193, 0x194),
     (0x196, 0x198), (0x19C, 0x19D), (0x19F, 0x1A0), (0x1A2, 0x1A2), (0x1A4, 0x1A4),
     (0x1A6, 0x1A7), (0x1A9, 0x1A9), (0x1AC, 0x1AC), (0x1AE, 0x1AF), (0x1B1, 0x1B3),
     (0x1B5, 0x1B5), (0x1B7, 0x1B8), (0x1BC, 0x1BC), (0x1C4, 0x1C4), (0x1C7, 0x1C7),
     (0x1CA, 0x1CA), (0x1CD, 0x1CD), (0x1CF, 0x1CF), (0x1D1, 0x1D1), (0x1D3, 0x1D3),
     (0x1D5, 0x1D5), (0x1D7, 0x1D7), (0x1D9, 0x1D9), (0x1DB, 0x1DB), (0x1DE, 0x1DE),
     (0x1E0, 0x1E0), (0x1E2, 0x1E2), (0x1E4, 0x1E4), (0x1E6, 0x1E6), (0x1E8, 0x1E8),
     (0x1EA, 0x1EA), (0x1EC, 0x1EC), (0x1EE, 0x1EE), (0x1F1, 0x1F1), (0x1F4, 0x1F4),
     (0x1F6, 0x1F8), (0x1FA, 0x1FA), (0x1FC, 0x1FC), (0x1FE, 0x1FE), (0x200, 0x200),
     (0x202, 0x202), (0x204, 0x204), (0x206, 0x206), (0x208, 0x208), (0x20A, 0x20A),
     (0x20C, 0x20C), (0x20E, 0x20E), (0x210, 0x210), (0x212, 0x212), (0x214, 0x214),
     (0x216, 0x216), (0x218, 0x218), (0x21A, 0x21A), (0x21C, 0x21C), (0x21E, 0x21E),
     (0x220, 0x220), (0x222, 0x222), (0x224, 0x224), (0x226, 0x226), (0x228, 0x228),
     (0x22A, 0x22A), (0x22C, 0x22C), (0x22E, 0x22E), (0x230, 0x230), (0x232, 0x232),
     (0x23A, 0x23B), (0x23D, 0x23E), (0x241, 0x241), (0x243, 0x246)]"

definition iswupper_ranges_2 :: "(nat \<times> nat) list" where
  "iswupper_ranges_2 =
    [(0x248, 0x248), (0x24A, 0x24A), (0x24C, 0x24C), (0x24E, 0x24E), (0x370, 0x370),
     (0x372, 0x372), (0x376, 0x376), (0x37F, 0x37F), (0x386, 0x386), (0x388, 0x38A),
     (0x38C, 0x38C), (0x38E, 0x38F), (0x391, 0x3A1), (0x3A3, 0x3AB), (0x3CF, 0x3CF),
     (0x3D2, 0x3D4), (0x3D8, 0x3D8), (0x3DA, 0x3DA), (0x3DC, 0x3DC), (0x3DE, 0x3DE),
     (0x3E0, 0x3E0), (0x3E2, 0x3E2), (0x3E4, 0x3E4), (0x3E6, 0x3E6), (0x3E8, 0x3E8),
     (0x3EA, 0x3EA), (0x3EC, 0x3EC), (0x3EE, 0x3EE), (0x3F4, 0x3F4), (0x3F7, 0x3F7),
     (0x3F9, 0x3FA), (0x3FD, 0x42F), (0x460, 0x460), (0x462, 0x462), (0x464, 0x464),
     (0x466, 0x466), (0x468, 0x468), (0x46A, 0x46A), (0x46C, 0x46C), (0x46E, 0x46E),
     (0x470, 0x470), (0x472, 0x472), (0x474, 0x474), (0x476, 0x476), (0x478, 0x478),
     (0x47A, 0x47A), (0x47C, 0x47C), (0x47E, 0x47E), (0x480, 0x480), (0x48A, 0x48A),
     (0x48C, 0x48C), (0x48E, 0x48E), (0x490, 0x490), (0x492, 0x492), (0x494, 0x494),
     (0x496, 0x496), (0x498, 0x498), (0x49A, 0x49A), (0x49C, 0x49C), (0x49E, 0x49E),
     (0x4A0, 0x4A0), (0x4A2, 0x4A2), (0x4A4, 0x4A4), (0x4A6, 0x4A6), (0x4A8, 0x4A8),
     (0x4AA, 0x4AA), (0x4AC, 0x4AC), (0x4AE, 0x4AE), (0x4B0, 0x4B0), (0x4B2, 0x4B2),
     (0x4B4, 0x4B4), (0x4B6, 0x4B6), (0x4B8, 0x4B8), (0x4BA, 0x4BA), (0x4BC, 0x4BC),
     (0x4BE, 0x4BE), (0x4C0, 0x4C1), (0x4C3, 0x4C3), (0x4C5, 0x4C5), (0x4C7, 0x4C7),
     (0x4C9, 0x4C9), (0x4CB, 0x4CB), (0x4CD, 0x4CD), (0x4D0, 0x4D0), (0x4D2, 0x4D2),
     (0x4D4, 0x4D4), (0x4D6, 0x4D6), (0x4D8, 0x4D8), (0x4DA, 0x4DA), (0x4DC, 0x4DC),
     (0x4DE, 0x4DE), (0x4E0, 0x4E0), (0x4E2, 0x4E2), (0x4E4, 0x4E4), (0x4E6, 0x4E6),
     (0x4E8, 0x4E8), (0x4EA, 0x4EA), (0x4EC, 0x4EC), (0x4EE, 0x4EE), (0x4F0, 0x4F0),
     (0x4F2, 0x4F2), (0x4F4, 0x4F4), (0x4F6, 0x4F6), (0x4F8, 0x4F8), (0x4FA, 0x4FA),
     (0x4FC, 0x4FC), (0x4FE, 0x4FE), (0x500, 0x500), (0x502, 0x502), (0x504, 0x504),
     (0x506, 0x506), (0x508, 0x508), (0x50A, 0x50A), (0x50C, 0x50C), (0x50E, 0x50E),
     (0x510, 0x510), (0x512, 0x512), (0x514, 0x514), (0x516, 0x516), (0x518, 0x518),
     (0x51A, 0x51A), (0x51C, 0x51C), (0x51E, 0x51E), (0x520, 0x520), (0x522, 0x522),
     (0x524, 0x524), (0x526, 0x526), (0x528, 0x528), (0x52A, 0x52A), (0x52C, 0x52C),
     (0x52E, 0x52E), (0x531, 0x556), (0x10A0, 0x10C5), (0x10C7, 0x10C7), (0x10CD, 0x10CD),
     (0x13A0, 0x13F5), (0x1C89, 0x1C89), (0x1C90, 0x1CBA), (0x1CBD, 0x1CBF), (0x1E00, 0x1E00)]"

definition iswupper_ranges_3 :: "(nat \<times> nat) list" where
  "iswupper_ranges_3 =
    [(0x1E02, 0x1E02), (0x1E04, 0x1E04), (0x1E06, 0x1E06), (0x1E08, 0x1E08), (0x1E0A, 0x1E0A),
     (0x1E0C, 0x1E0C), (0x1E0E, 0x1E0E), (0x1E10, 0x1E10), (0x1E12, 0x1E12), (0x1E14, 0x1E14),
     (0x1E16, 0x1E16), (0x1E18, 0x1E18), (0x1E1A, 0x1E1A), (0x1E1C, 0x1E1C), (0x1E1E, 0x1E1E),
     (0x1E20, 0x1E20), (0x1E22, 0x1E22), (0x1E24, 0x1E24), (0x1E26, 0x1E26), (0x1E28, 0x1E28),
     (0x1E2A, 0x1E2A), (0x1E2C, 0x1E2C), (0x1E2E, 0x1E2E), (0x1E30, 0x1E30), (0x1E32, 0x1E32),
     (0x1E34, 0x1E34), (0x1E36, 0x1E36), (0x1E38, 0x1E38), (0x1E3A, 0x1E3A), (0x1E3C, 0x1E3C),
     (0x1E3E, 0x1E3E), (0x1E40, 0x1E40), (0x1E42, 0x1E42), (0x1E44, 0x1E44), (0x1E46, 0x1E46),
     (0x1E48, 0x1E48), (0x1E4A, 0x1E4A), (0x1E4C, 0x1E4C), (0x1E4E, 0x1E4E), (0x1E50, 0x1E50),
     (0x1E52, 0x1E52), (0x1E54, 0x1E54), (0x1E56, 0x1E56), (0x1E58, 0x1E58), (0x1E5A, 0x1E5A),
     (0x1E5C, 0x1E5C), (0x1E5E, 0x1E5E), (0x1E60, 0x1E60), (0x1E62, 0x1E62), (0x1E64, 0x1E64),
     (0x1E66, 0x1E66), (0x1E68, 0x1E68), (0x1E6A, 0x1E6A), (0x1E6C, 0x1E6C), (0x1E6E, 0x1E6E),
     (0x1E70, 0x1E70), (0x1E72, 0x1E72), (0x1E74, 0x1E74), (0x1E76, 0x1E76), (0x1E78, 0x1E78),
     (0x1E7A, 0x1E7A), (0x1E7C, 0x1E7C), (0x1E7E, 0x1E7E), (0x1E80, 0x1E80), (0x1E82, 0x1E82),
     (0x1E84, 0x1E84), (0x1E86, 0x1E86), (0x1E88, 0x1E88), (0x1E8A, 0x1E8A), (0x1E8C, 0x1E8C),
     (0x1E8E, 0x1E8E), (0x1E90, 0x1E90), (0x1E92, 0x1E92), (0x1E94, 0x1E94), (0x1E9E, 0x1E9E),
     (0x1EA0, 0x1EA0), (0x1EA2, 0x1EA2), (0x1EA4, 0x1EA4), (0x1EA6, 0x1EA6), (0x1EA8, 0x1EA8),
     (0x1EAA, 0x1EAA), (0x1EAC, 0x1EAC), (0x1EAE, 0x1EAE), (0x1EB0, 0x1EB0), (0x1EB2, 0x1EB2),
     (0x1EB4, 0x1EB4), (0x1EB6, 0x1EB6), (0x1EB8, 0x1EB8), (0x1EBA, 0x1EBA), (0x1EBC, 0x1EBC),
     (0x1EBE, 0x1EBE), (0x1EC0, 0x1EC0), (0x1EC2, 0x1EC2), (0x1EC4, 0x1EC4), (0x1EC6, 0x1EC6),
     (0x1EC8, 0x1EC8), (0x1ECA, 0x1ECA), (0x1ECC, 0x1ECC), (0x1ECE, 0x1ECE), (0x1ED0, 0x1ED0),
     (0x1ED2, 0x1ED2), (0x1ED4, 0x1ED4), (0x1ED6, 0x1ED6), (0x1ED8, 0x1ED8), (0x1EDA, 0x1EDA),
     (0x1EDC, 0x1EDC), (0x1EDE, 0x1EDE), (0x1EE0, 0x1EE0), (0x1EE2, 0x1EE2), (0x1EE4, 0x1EE4),
     (0x1EE6, 0x1EE6), (0x1EE8, 0x1EE8), (0x1EEA, 0x1EEA), (0x1EEC, 0x1EEC), (0x1EEE, 0x1EEE),
     (0x1EF0, 0x1EF0), (0x1EF2, 0x1EF2), (0x1EF4, 0x1EF4), (0x1EF6, 0x1EF6), (0x1EF8, 0x1EF8),
     (0x1EFA, 0x1EFA), (0x1EFC, 0x1EFC), (0x1EFE, 0x1EFE), (0x1F08, 0x1F0F), (0x1F18, 0x1F1D),
     (0x1F28, 0x1F2F), (0x1F38, 0x1F3F), (0x1F48, 0x1F4D), (0x1F59, 0x1F59), (0x1F5B, 0x1F5B),
     (0x1F5D, 0x1F5D), (0x1F5F, 0x1F5F), (0x1F68, 0x1F6F), (0x1FB8, 0x1FBB), (0x1FC8, 0x1FCB),
     (0x1FD8, 0x1FDB), (0x1FE8, 0x1FEC), (0x1FF8, 0x1FFB), (0x2102, 0x2102), (0x2107, 0x2107)]"

definition iswupper_ranges_4 :: "(nat \<times> nat) list" where
  "iswupper_ranges_4 =
    [(0x210B, 0x210D), (0x2110, 0x2112), (0x2115, 0x2115), (0x2119, 0x211D), (0x2124, 0x2124),
     (0x2126, 0x2126), (0x2128, 0x2128), (0x212A, 0x212D), (0x2130, 0x2133), (0x213E, 0x213F),
     (0x2145, 0x2145), (0x2183, 0x2183), (0x2C00, 0x2C2F), (0x2C60, 0x2C60), (0x2C62, 0x2C64),
     (0x2C67, 0x2C67), (0x2C69, 0x2C69), (0x2C6B, 0x2C6B), (0x2C6D, 0x2C70), (0x2C72, 0x2C72),
     (0x2C75, 0x2C75), (0x2C7E, 0x2C80), (0x2C82, 0x2C82), (0x2C84, 0x2C84), (0x2C86, 0x2C86),
     (0x2C88, 0x2C88), (0x2C8A, 0x2C8A), (0x2C8C, 0x2C8C), (0x2C8E, 0x2C8E), (0x2C90, 0x2C90),
     (0x2C92, 0x2C92), (0x2C94, 0x2C94), (0x2C96, 0x2C96), (0x2C98, 0x2C98), (0x2C9A, 0x2C9A),
     (0x2C9C, 0x2C9C), (0x2C9E, 0x2C9E), (0x2CA0, 0x2CA0), (0x2CA2, 0x2CA2), (0x2CA4, 0x2CA4),
     (0x2CA6, 0x2CA6), (0x2CA8, 0x2CA8), (0x2CAA, 0x2CAA), (0x2CAC, 0x2CAC), (0x2CAE, 0x2CAE),
     (0x2CB0, 0x2CB0), (0x2CB2, 0x2CB2), (0x2CB4, 0x2CB4), (0x2CB6, 0x2CB6), (0x2CB8, 0x2CB8),
     (0x2CBA, 0x2CBA), (0x2CBC, 0x2CBC), (0x2CBE, 0x2CBE), (0x2CC0, 0x2CC0), (0x2CC2, 0x2CC2),
     (0x2CC4, 0x2CC4), (0x2CC6, 0x2CC6), (0x2CC8, 0x2CC8), (0x2CCA, 0x2CCA), (0x2CCC, 0x2CCC),
     (0x2CCE, 0x2CCE), (0x2CD0, 0x2CD0), (0x2CD2, 0x2CD2), (0x2CD4, 0x2CD4), (0x2CD6, 0x2CD6),
     (0x2CD8, 0x2CD8), (0x2CDA, 0x2CDA), (0x2CDC, 0x2CDC), (0x2CDE, 0x2CDE), (0x2CE0, 0x2CE0),
     (0x2CE2, 0x2CE2), (0x2CEB, 0x2CEB), (0x2CED, 0x2CED), (0x2CF2, 0x2CF2), (0xA640, 0xA640),
     (0xA642, 0xA642), (0xA644, 0xA644), (0xA646, 0xA646), (0xA648, 0xA648), (0xA64A, 0xA64A),
     (0xA64C, 0xA64C), (0xA64E, 0xA64E), (0xA650, 0xA650), (0xA652, 0xA652), (0xA654, 0xA654),
     (0xA656, 0xA656), (0xA658, 0xA658), (0xA65A, 0xA65A), (0xA65C, 0xA65C), (0xA65E, 0xA65E),
     (0xA660, 0xA660), (0xA662, 0xA662), (0xA664, 0xA664), (0xA666, 0xA666), (0xA668, 0xA668),
     (0xA66A, 0xA66A), (0xA66C, 0xA66C), (0xA680, 0xA680), (0xA682, 0xA682), (0xA684, 0xA684),
     (0xA686, 0xA686), (0xA688, 0xA688), (0xA68A, 0xA68A), (0xA68C, 0xA68C), (0xA68E, 0xA68E),
     (0xA690, 0xA690), (0xA692, 0xA692), (0xA694, 0xA694), (0xA696, 0xA696), (0xA698, 0xA698),
     (0xA69A, 0xA69A), (0xA722, 0xA722), (0xA724, 0xA724), (0xA726, 0xA726), (0xA728, 0xA728),
     (0xA72A, 0xA72A), (0xA72C, 0xA72C), (0xA72E, 0xA72E), (0xA732, 0xA732), (0xA734, 0xA734),
     (0xA736, 0xA736), (0xA738, 0xA738), (0xA73A, 0xA73A), (0xA73C, 0xA73C), (0xA73E, 0xA73E),
     (0xA740, 0xA740), (0xA742, 0xA742), (0xA744, 0xA744), (0xA746, 0xA746), (0xA748, 0xA748),
     (0xA74A, 0xA74A), (0xA74C, 0xA74C), (0xA74E, 0xA74E), (0xA750, 0xA750), (0xA752, 0xA752),
     (0xA754, 0xA754), (0xA756, 0xA756), (0xA758, 0xA758), (0xA75A, 0xA75A), (0xA75C, 0xA75C)]"

definition iswupper_ranges_5 :: "(nat \<times> nat) list" where
  "iswupper_ranges_5 =
    [(0xA75E, 0xA75E), (0xA760, 0xA760), (0xA762, 0xA762), (0xA764, 0xA764), (0xA766, 0xA766),
     (0xA768, 0xA768), (0xA76A, 0xA76A), (0xA76C, 0xA76C), (0xA76E, 0xA76E), (0xA779, 0xA779),
     (0xA77B, 0xA77B), (0xA77D, 0xA77E), (0xA780, 0xA780), (0xA782, 0xA782), (0xA784, 0xA784),
     (0xA786, 0xA786), (0xA78B, 0xA78B), (0xA78D, 0xA78D), (0xA790, 0xA790), (0xA792, 0xA792),
     (0xA796, 0xA796), (0xA798, 0xA798), (0xA79A, 0xA79A), (0xA79C, 0xA79C), (0xA79E, 0xA79E),
     (0xA7A0, 0xA7A0), (0xA7A2, 0xA7A2), (0xA7A4, 0xA7A4), (0xA7A6, 0xA7A6), (0xA7A8, 0xA7A8),
     (0xA7AA, 0xA7AE), (0xA7B0, 0xA7B4), (0xA7B6, 0xA7B6), (0xA7B8, 0xA7B8), (0xA7BA, 0xA7BA),
     (0xA7BC, 0xA7BC), (0xA7BE, 0xA7BE), (0xA7C0, 0xA7C0), (0xA7C2, 0xA7C2), (0xA7C4, 0xA7C7),
     (0xA7C9, 0xA7C9), (0xA7CB, 0xA7CC), (0xA7CE, 0xA7CE), (0xA7D0, 0xA7D0), (0xA7D2, 0xA7D2),
     (0xA7D4, 0xA7D4), (0xA7D6, 0xA7D6), (0xA7D8, 0xA7D8), (0xA7DA, 0xA7DA), (0xA7DC, 0xA7DD),
     (0xA7E2, 0xA7E2), (0xA7F5, 0xA7F5), (0xAB6C, 0xAB6D), (0xFF21, 0xFF3A)]"

definition iswupper_ranges :: "(nat \<times> nat) list" where
  "iswupper_ranges =
     iswupper_ranges_1 @ iswupper_ranges_2 @ iswupper_ranges_3 @ iswupper_ranges_4 @ iswupper_ranges_5"

definition iswupper_ranges_high :: "(nat \<times> nat) list" where
  "iswupper_ranges_high =
    [(0x400, 0x427), (0x4B0, 0x4D3), (0x570, 0x57A), (0x57C, 0x58A), (0x58C, 0x592),
     (0x594, 0x595), (0xC80, 0xCB2), (0xD50, 0xD65), (0x18A0, 0x18BF), (0x6E40, 0x6E5F),
     (0x6EA0, 0x6EB8), (0xD400, 0xD419), (0xD434, 0xD44D), (0xD468, 0xD481), (0xD49C, 0xD49C),
     (0xD49E, 0xD49F), (0xD4A2, 0xD4A2), (0xD4A5, 0xD4A6), (0xD4A9, 0xD4AC), (0xD4AE, 0xD4B5),
     (0xD4D0, 0xD4E9), (0xD504, 0xD505), (0xD507, 0xD50A), (0xD50D, 0xD514), (0xD516, 0xD51C),
     (0xD538, 0xD539), (0xD53B, 0xD53E), (0xD540, 0xD544), (0xD546, 0xD546), (0xD54A, 0xD550),
     (0xD56C, 0xD585), (0xD5A0, 0xD5B9), (0xD5D4, 0xD5ED), (0xD608, 0xD621), (0xD63C, 0xD655),
     (0xD670, 0xD689), (0xD6A8, 0xD6C0), (0xD6E2, 0xD6FA), (0xD71C, 0xD734), (0xD756, 0xD76E),
     (0xD790, 0xD7A8), (0xD7CA, 0xD7CA), (0xDF40, 0xDF40), (0xDF48, 0xDF48), (0xDF4A, 0xDF4A),
     (0xDF4D, 0xDF4D), (0xDF51, 0xDF51), (0xDF68, 0xDF68), (0xDF6A, 0xDF6A), (0xDF6C, 0xDF6C),
     (0xDF6E, 0xDF6E), (0xDF72, 0xDF72), (0xDF74, 0xDF74), (0xDF76, 0xDF76), (0xDF78, 0xDF78),
     (0xDF7A, 0xDF7A), (0xDF7C, 0xDF7C), (0xDF7E, 0xDF7E), (0xE900, 0xE921)]"

definition iswlower_ranges_1 :: "(nat \<times> nat) list" where
  "iswlower_ranges_1 =
    [(0x61, 0x7A), (0xB5, 0xB5), (0xDF, 0xF6), (0xF8, 0xFF), (0x101, 0x101), (0x103, 0x103),
     (0x105, 0x105), (0x107, 0x107), (0x109, 0x109), (0x10B, 0x10B), (0x10D, 0x10D),
     (0x10F, 0x10F), (0x111, 0x111), (0x113, 0x113), (0x115, 0x115), (0x117, 0x117),
     (0x119, 0x119), (0x11B, 0x11B), (0x11D, 0x11D), (0x11F, 0x11F), (0x121, 0x121),
     (0x123, 0x123), (0x125, 0x125), (0x127, 0x127), (0x129, 0x129), (0x12B, 0x12B),
     (0x12D, 0x12D), (0x12F, 0x12F), (0x131, 0x131), (0x133, 0x133), (0x135, 0x135),
     (0x137, 0x138), (0x13A, 0x13A), (0x13C, 0x13C), (0x13E, 0x13E), (0x140, 0x140),
     (0x142, 0x142), (0x144, 0x144), (0x146, 0x146), (0x148, 0x149), (0x14B, 0x14B),
     (0x14D, 0x14D), (0x14F, 0x14F), (0x151, 0x151), (0x153, 0x153), (0x155, 0x155),
     (0x157, 0x157), (0x159, 0x159), (0x15B, 0x15B), (0x15D, 0x15D), (0x15F, 0x15F),
     (0x161, 0x161), (0x163, 0x163), (0x165, 0x165), (0x167, 0x167), (0x169, 0x169),
     (0x16B, 0x16B), (0x16D, 0x16D), (0x16F, 0x16F), (0x171, 0x171), (0x173, 0x173),
     (0x175, 0x175), (0x177, 0x177), (0x17A, 0x17A), (0x17C, 0x17C), (0x17E, 0x180),
     (0x183, 0x183), (0x185, 0x185), (0x188, 0x188), (0x18C, 0x18D), (0x192, 0x192),
     (0x195, 0x195), (0x199, 0x19B), (0x19E, 0x19E), (0x1A1, 0x1A1), (0x1A3, 0x1A3),
     (0x1A5, 0x1A5), (0x1A8, 0x1A8), (0x1AA, 0x1AB), (0x1AD, 0x1AD), (0x1B0, 0x1B0),
     (0x1B4, 0x1B4), (0x1B6, 0x1B6), (0x1B9, 0x1BA), (0x1BD, 0x1BF), (0x1C6, 0x1C6),
     (0x1C9, 0x1C9), (0x1CC, 0x1CC), (0x1CE, 0x1CE), (0x1D0, 0x1D0), (0x1D2, 0x1D2),
     (0x1D4, 0x1D4), (0x1D6, 0x1D6), (0x1D8, 0x1D8), (0x1DA, 0x1DA), (0x1DC, 0x1DD),
     (0x1DF, 0x1DF), (0x1E1, 0x1E1), (0x1E3, 0x1E3), (0x1E5, 0x1E5), (0x1E7, 0x1E7),
     (0x1E9, 0x1E9), (0x1EB, 0x1EB), (0x1ED, 0x1ED), (0x1EF, 0x1F0), (0x1F3, 0x1F3),
     (0x1F5, 0x1F5), (0x1F9, 0x1F9), (0x1FB, 0x1FB), (0x1FD, 0x1FD), (0x1FF, 0x1FF),
     (0x201, 0x201), (0x203, 0x203), (0x205, 0x205), (0x207, 0x207), (0x209, 0x209),
     (0x20B, 0x20B), (0x20D, 0x20D), (0x20F, 0x20F), (0x211, 0x211), (0x213, 0x213),
     (0x215, 0x215), (0x217, 0x217), (0x219, 0x219), (0x21B, 0x21B), (0x21D, 0x21D),
     (0x21F, 0x21F), (0x221, 0x221), (0x223, 0x223), (0x225, 0x225), (0x227, 0x227),
     (0x229, 0x229), (0x22B, 0x22B), (0x22D, 0x22D), (0x22F, 0x22F), (0x231, 0x231),
     (0x233, 0x239), (0x23C, 0x23C), (0x23F, 0x240), (0x242, 0x242)]"

definition iswlower_ranges_2 :: "(nat \<times> nat) list" where
  "iswlower_ranges_2 =
    [(0x247, 0x247), (0x249, 0x249), (0x24B, 0x24B), (0x24D, 0x24D), (0x24F, 0x293),
     (0x296, 0x2AF), (0x371, 0x371), (0x373, 0x373), (0x377, 0x377), (0x37B, 0x37D),
     (0x390, 0x390), (0x3AC, 0x3CE), (0x3D0, 0x3D1), (0x3D5, 0x3D7), (0x3D9, 0x3D9),
     (0x3DB, 0x3DB), (0x3DD, 0x3DD), (0x3DF, 0x3DF), (0x3E1, 0x3E1), (0x3E3, 0x3E3),
     (0x3E5, 0x3E5), (0x3E7, 0x3E7), (0x3E9, 0x3E9), (0x3EB, 0x3EB), (0x3ED, 0x3ED),
     (0x3EF, 0x3F3), (0x3F5, 0x3F5), (0x3F8, 0x3F8), (0x3FB, 0x3FC), (0x430, 0x45F),
     (0x461, 0x461), (0x463, 0x463), (0x465, 0x465), (0x467, 0x467), (0x469, 0x469),
     (0x46B, 0x46B), (0x46D, 0x46D), (0x46F, 0x46F), (0x471, 0x471), (0x473, 0x473),
     (0x475, 0x475), (0x477, 0x477), (0x479, 0x479), (0x47B, 0x47B), (0x47D, 0x47D),
     (0x47F, 0x47F), (0x481, 0x481), (0x48B, 0x48B), (0x48D, 0x48D), (0x48F, 0x48F),
     (0x491, 0x491), (0x493, 0x493), (0x495, 0x495), (0x497, 0x497), (0x499, 0x499),
     (0x49B, 0x49B), (0x49D, 0x49D), (0x49F, 0x49F), (0x4A1, 0x4A1), (0x4A3, 0x4A3),
     (0x4A5, 0x4A5), (0x4A7, 0x4A7), (0x4A9, 0x4A9), (0x4AB, 0x4AB), (0x4AD, 0x4AD),
     (0x4AF, 0x4AF), (0x4B1, 0x4B1), (0x4B3, 0x4B3), (0x4B5, 0x4B5), (0x4B7, 0x4B7),
     (0x4B9, 0x4B9), (0x4BB, 0x4BB), (0x4BD, 0x4BD), (0x4BF, 0x4BF), (0x4C2, 0x4C2),
     (0x4C4, 0x4C4), (0x4C6, 0x4C6), (0x4C8, 0x4C8), (0x4CA, 0x4CA), (0x4CC, 0x4CC),
     (0x4CE, 0x4CF), (0x4D1, 0x4D1), (0x4D3, 0x4D3), (0x4D5, 0x4D5), (0x4D7, 0x4D7),
     (0x4D9, 0x4D9), (0x4DB, 0x4DB), (0x4DD, 0x4DD), (0x4DF, 0x4DF), (0x4E1, 0x4E1),
     (0x4E3, 0x4E3), (0x4E5, 0x4E5), (0x4E7, 0x4E7), (0x4E9, 0x4E9), (0x4EB, 0x4EB),
     (0x4ED, 0x4ED), (0x4EF, 0x4EF), (0x4F1, 0x4F1), (0x4F3, 0x4F3), (0x4F5, 0x4F5),
     (0x4F7, 0x4F7), (0x4F9, 0x4F9), (0x4FB, 0x4FB), (0x4FD, 0x4FD), (0x4FF, 0x4FF),
     (0x501, 0x501), (0x503, 0x503), (0x505, 0x505), (0x507, 0x507), (0x509, 0x509),
     (0x50B, 0x50B), (0x50D, 0x50D), (0x50F, 0x50F), (0x511, 0x511), (0x513, 0x513),
     (0x515, 0x515), (0x517, 0x517), (0x519, 0x519), (0x51B, 0x51B), (0x51D, 0x51D),
     (0x51F, 0x51F), (0x521, 0x521), (0x523, 0x523), (0x525, 0x525), (0x527, 0x527),
     (0x529, 0x529), (0x52B, 0x52B), (0x52D, 0x52D), (0x52F, 0x52F), (0x560, 0x588),
     (0x10D0, 0x10FA), (0x10FD, 0x10FF), (0x13F8, 0x13FD), (0x1C80, 0x1C88), (0x1C8A, 0x1C8A),
     (0x1D00, 0x1D2B), (0x1D6B, 0x1D77), (0x1D79, 0x1D9A), (0x1E01, 0x1E01), (0x1E03, 0x1E03)]"

definition iswlower_ranges_3 :: "(nat \<times> nat) list" where
  "iswlower_ranges_3 =
    [(0x1E05, 0x1E05), (0x1E07, 0x1E07), (0x1E09, 0x1E09), (0x1E0B, 0x1E0B), (0x1E0D, 0x1E0D),
     (0x1E0F, 0x1E0F), (0x1E11, 0x1E11), (0x1E13, 0x1E13), (0x1E15, 0x1E15), (0x1E17, 0x1E17),
     (0x1E19, 0x1E19), (0x1E1B, 0x1E1B), (0x1E1D, 0x1E1D), (0x1E1F, 0x1E1F), (0x1E21, 0x1E21),
     (0x1E23, 0x1E23), (0x1E25, 0x1E25), (0x1E27, 0x1E27), (0x1E29, 0x1E29), (0x1E2B, 0x1E2B),
     (0x1E2D, 0x1E2D), (0x1E2F, 0x1E2F), (0x1E31, 0x1E31), (0x1E33, 0x1E33), (0x1E35, 0x1E35),
     (0x1E37, 0x1E37), (0x1E39, 0x1E39), (0x1E3B, 0x1E3B), (0x1E3D, 0x1E3D), (0x1E3F, 0x1E3F),
     (0x1E41, 0x1E41), (0x1E43, 0x1E43), (0x1E45, 0x1E45), (0x1E47, 0x1E47), (0x1E49, 0x1E49),
     (0x1E4B, 0x1E4B), (0x1E4D, 0x1E4D), (0x1E4F, 0x1E4F), (0x1E51, 0x1E51), (0x1E53, 0x1E53),
     (0x1E55, 0x1E55), (0x1E57, 0x1E57), (0x1E59, 0x1E59), (0x1E5B, 0x1E5B), (0x1E5D, 0x1E5D),
     (0x1E5F, 0x1E5F), (0x1E61, 0x1E61), (0x1E63, 0x1E63), (0x1E65, 0x1E65), (0x1E67, 0x1E67),
     (0x1E69, 0x1E69), (0x1E6B, 0x1E6B), (0x1E6D, 0x1E6D), (0x1E6F, 0x1E6F), (0x1E71, 0x1E71),
     (0x1E73, 0x1E73), (0x1E75, 0x1E75), (0x1E77, 0x1E77), (0x1E79, 0x1E79), (0x1E7B, 0x1E7B),
     (0x1E7D, 0x1E7D), (0x1E7F, 0x1E7F), (0x1E81, 0x1E81), (0x1E83, 0x1E83), (0x1E85, 0x1E85),
     (0x1E87, 0x1E87), (0x1E89, 0x1E89), (0x1E8B, 0x1E8B), (0x1E8D, 0x1E8D), (0x1E8F, 0x1E8F),
     (0x1E91, 0x1E91), (0x1E93, 0x1E93), (0x1E95, 0x1E9D), (0x1E9F, 0x1E9F), (0x1EA1, 0x1EA1),
     (0x1EA3, 0x1EA3), (0x1EA5, 0x1EA5), (0x1EA7, 0x1EA7), (0x1EA9, 0x1EA9), (0x1EAB, 0x1EAB),
     (0x1EAD, 0x1EAD), (0x1EAF, 0x1EAF), (0x1EB1, 0x1EB1), (0x1EB3, 0x1EB3), (0x1EB5, 0x1EB5),
     (0x1EB7, 0x1EB7), (0x1EB9, 0x1EB9), (0x1EBB, 0x1EBB), (0x1EBD, 0x1EBD), (0x1EBF, 0x1EBF),
     (0x1EC1, 0x1EC1), (0x1EC3, 0x1EC3), (0x1EC5, 0x1EC5), (0x1EC7, 0x1EC7), (0x1EC9, 0x1EC9),
     (0x1ECB, 0x1ECB), (0x1ECD, 0x1ECD), (0x1ECF, 0x1ECF), (0x1ED1, 0x1ED1), (0x1ED3, 0x1ED3),
     (0x1ED5, 0x1ED5), (0x1ED7, 0x1ED7), (0x1ED9, 0x1ED9), (0x1EDB, 0x1EDB), (0x1EDD, 0x1EDD),
     (0x1EDF, 0x1EDF), (0x1EE1, 0x1EE1), (0x1EE3, 0x1EE3), (0x1EE5, 0x1EE5), (0x1EE7, 0x1EE7),
     (0x1EE9, 0x1EE9), (0x1EEB, 0x1EEB), (0x1EED, 0x1EED), (0x1EEF, 0x1EEF), (0x1EF1, 0x1EF1),
     (0x1EF3, 0x1EF3), (0x1EF5, 0x1EF5), (0x1EF7, 0x1EF7), (0x1EF9, 0x1EF9), (0x1EFB, 0x1EFB),
     (0x1EFD, 0x1EFD), (0x1EFF, 0x1F07), (0x1F10, 0x1F15), (0x1F20, 0x1F27), (0x1F30, 0x1F37),
     (0x1F40, 0x1F45), (0x1F50, 0x1F57), (0x1F60, 0x1F67), (0x1F70, 0x1F7D), (0x1F80, 0x1F87),
     (0x1F90, 0x1F97), (0x1FA0, 0x1FA7), (0x1FB0, 0x1FB4), (0x1FB6, 0x1FB7), (0x1FBE, 0x1FBE),
     (0x1FC2, 0x1FC4), (0x1FC6, 0x1FC7), (0x1FD0, 0x1FD3), (0x1FD6, 0x1FD7), (0x1FE0, 0x1FE7)]"

definition iswlower_ranges_4 :: "(nat \<times> nat) list" where
  "iswlower_ranges_4 =
    [(0x1FF2, 0x1FF4), (0x1FF6, 0x1FF7), (0x210A, 0x210A), (0x210E, 0x210F), (0x2113, 0x2113),
     (0x212F, 0x212F), (0x2134, 0x2134), (0x2139, 0x2139), (0x213C, 0x213D), (0x2146, 0x2149),
     (0x214E, 0x214E), (0x2184, 0x2184), (0x2C30, 0x2C5F), (0x2C61, 0x2C61), (0x2C65, 0x2C66),
     (0x2C68, 0x2C68), (0x2C6A, 0x2C6A), (0x2C6C, 0x2C6C), (0x2C71, 0x2C71), (0x2C73, 0x2C74),
     (0x2C76, 0x2C7B), (0x2C81, 0x2C81), (0x2C83, 0x2C83), (0x2C85, 0x2C85), (0x2C87, 0x2C87),
     (0x2C89, 0x2C89), (0x2C8B, 0x2C8B), (0x2C8D, 0x2C8D), (0x2C8F, 0x2C8F), (0x2C91, 0x2C91),
     (0x2C93, 0x2C93), (0x2C95, 0x2C95), (0x2C97, 0x2C97), (0x2C99, 0x2C99), (0x2C9B, 0x2C9B),
     (0x2C9D, 0x2C9D), (0x2C9F, 0x2C9F), (0x2CA1, 0x2CA1), (0x2CA3, 0x2CA3), (0x2CA5, 0x2CA5),
     (0x2CA7, 0x2CA7), (0x2CA9, 0x2CA9), (0x2CAB, 0x2CAB), (0x2CAD, 0x2CAD), (0x2CAF, 0x2CAF),
     (0x2CB1, 0x2CB1), (0x2CB3, 0x2CB3), (0x2CB5, 0x2CB5), (0x2CB7, 0x2CB7), (0x2CB9, 0x2CB9),
     (0x2CBB, 0x2CBB), (0x2CBD, 0x2CBD), (0x2CBF, 0x2CBF), (0x2CC1, 0x2CC1), (0x2CC3, 0x2CC3),
     (0x2CC5, 0x2CC5), (0x2CC7, 0x2CC7), (0x2CC9, 0x2CC9), (0x2CCB, 0x2CCB), (0x2CCD, 0x2CCD),
     (0x2CCF, 0x2CCF), (0x2CD1, 0x2CD1), (0x2CD3, 0x2CD3), (0x2CD5, 0x2CD5), (0x2CD7, 0x2CD7),
     (0x2CD9, 0x2CD9), (0x2CDB, 0x2CDB), (0x2CDD, 0x2CDD), (0x2CDF, 0x2CDF), (0x2CE1, 0x2CE1),
     (0x2CE3, 0x2CE4), (0x2CEC, 0x2CEC), (0x2CEE, 0x2CEE), (0x2CF3, 0x2CF3), (0x2D00, 0x2D25),
     (0x2D27, 0x2D27), (0x2D2D, 0x2D2D), (0xA641, 0xA641), (0xA643, 0xA643), (0xA645, 0xA645),
     (0xA647, 0xA647), (0xA649, 0xA649), (0xA64B, 0xA64B), (0xA64D, 0xA64D), (0xA64F, 0xA64F),
     (0xA651, 0xA651), (0xA653, 0xA653), (0xA655, 0xA655), (0xA657, 0xA657), (0xA659, 0xA659),
     (0xA65B, 0xA65B), (0xA65D, 0xA65D), (0xA65F, 0xA65F), (0xA661, 0xA661), (0xA663, 0xA663),
     (0xA665, 0xA665), (0xA667, 0xA667), (0xA669, 0xA669), (0xA66B, 0xA66B), (0xA66D, 0xA66D),
     (0xA681, 0xA681), (0xA683, 0xA683), (0xA685, 0xA685), (0xA687, 0xA687), (0xA689, 0xA689),
     (0xA68B, 0xA68B), (0xA68D, 0xA68D), (0xA68F, 0xA68F), (0xA691, 0xA691), (0xA693, 0xA693),
     (0xA695, 0xA695), (0xA697, 0xA697), (0xA699, 0xA699), (0xA69B, 0xA69B), (0xA723, 0xA723),
     (0xA725, 0xA725), (0xA727, 0xA727), (0xA729, 0xA729), (0xA72B, 0xA72B), (0xA72D, 0xA72D),
     (0xA72F, 0xA731), (0xA733, 0xA733), (0xA735, 0xA735), (0xA737, 0xA737), (0xA739, 0xA739),
     (0xA73B, 0xA73B), (0xA73D, 0xA73D), (0xA73F, 0xA73F), (0xA741, 0xA741), (0xA743, 0xA743),
     (0xA745, 0xA745), (0xA747, 0xA747), (0xA749, 0xA749), (0xA74B, 0xA74B), (0xA74D, 0xA74D),
     (0xA74F, 0xA74F), (0xA751, 0xA751), (0xA753, 0xA753), (0xA755, 0xA755), (0xA757, 0xA757)]"

definition iswlower_ranges_5 :: "(nat \<times> nat) list" where
  "iswlower_ranges_5 =
    [(0xA759, 0xA759), (0xA75B, 0xA75B), (0xA75D, 0xA75D), (0xA75F, 0xA75F), (0xA761, 0xA761),
     (0xA763, 0xA763), (0xA765, 0xA765), (0xA767, 0xA767), (0xA769, 0xA769), (0xA76B, 0xA76B),
     (0xA76D, 0xA76D), (0xA76F, 0xA76F), (0xA771, 0xA778), (0xA77A, 0xA77A), (0xA77C, 0xA77C),
     (0xA77F, 0xA77F), (0xA781, 0xA781), (0xA783, 0xA783), (0xA785, 0xA785), (0xA787, 0xA787),
     (0xA78C, 0xA78C), (0xA78E, 0xA78E), (0xA791, 0xA791), (0xA793, 0xA795), (0xA797, 0xA797),
     (0xA799, 0xA799), (0xA79B, 0xA79B), (0xA79D, 0xA79D), (0xA79F, 0xA79F), (0xA7A1, 0xA7A1),
     (0xA7A3, 0xA7A3), (0xA7A5, 0xA7A5), (0xA7A7, 0xA7A7), (0xA7A9, 0xA7A9), (0xA7AF, 0xA7AF),
     (0xA7B5, 0xA7B5), (0xA7B7, 0xA7B7), (0xA7B9, 0xA7B9), (0xA7BB, 0xA7BB), (0xA7BD, 0xA7BD),
     (0xA7BF, 0xA7BF), (0xA7C1, 0xA7C1), (0xA7C3, 0xA7C3), (0xA7C8, 0xA7C8), (0xA7CA, 0xA7CA),
     (0xA7CD, 0xA7CD), (0xA7CF, 0xA7CF), (0xA7D1, 0xA7D1), (0xA7D3, 0xA7D3), (0xA7D5, 0xA7D5),
     (0xA7D7, 0xA7D7), (0xA7D9, 0xA7D9), (0xA7DB, 0xA7DB), (0xA7F6, 0xA7F6), (0xA7FA, 0xA7FA),
     (0xAB30, 0xAB5A), (0xAB60, 0xAB68), (0xAB70, 0xABBF), (0xFB00, 0xFB06), (0xFB13, 0xFB17),
     (0xFF41, 0xFF5A)]"

definition iswlower_ranges :: "(nat \<times> nat) list" where
  "iswlower_ranges =
     iswlower_ranges_1 @ iswlower_ranges_2 @ iswlower_ranges_3 @ iswlower_ranges_4 @ iswlower_ranges_5"

definition iswlower_ranges_high :: "(nat \<times> nat) list" where
  "iswlower_ranges_high =
    [(0x428, 0x44F), (0x4D8, 0x4FB), (0x597, 0x5A1), (0x5A3, 0x5B1), (0x5B3, 0x5B9),
     (0x5BB, 0x5BC), (0xCC0, 0xCF2), (0xD70, 0xD85), (0x18C0, 0x18DF), (0x6E60, 0x6E7F),
     (0x6EBB, 0x6ED3), (0xD41A, 0xD433), (0xD44E, 0xD454), (0xD456, 0xD467), (0xD482, 0xD49B),
     (0xD4B6, 0xD4B9), (0xD4BB, 0xD4BB), (0xD4BD, 0xD4C3), (0xD4C5, 0xD4CF), (0xD4EA, 0xD503),
     (0xD51E, 0xD537), (0xD552, 0xD56B), (0xD586, 0xD59F), (0xD5BA, 0xD5D3), (0xD5EE, 0xD607),
     (0xD622, 0xD63B), (0xD656, 0xD66F), (0xD68A, 0xD6A6), (0xD6C2, 0xD6DA), (0xD6DC, 0xD6E1),
     (0xD6FC, 0xD714), (0xD716, 0xD71B), (0xD736, 0xD74E), (0xD750, 0xD755), (0xD770, 0xD788),
     (0xD78A, 0xD78F), (0xD7AA, 0xD7C2), (0xD7C4, 0xD7C9), (0xD7CB, 0xD7CB), (0xDF00, 0xDF09),
     (0xDF0B, 0xDF3F), (0xDF41, 0xDF47), (0xDF49, 0xDF49), (0xDF4B, 0xDF4C), (0xDF4E, 0xDF50),
     (0xDF52, 0xDF67), (0xDF69, 0xDF69), (0xDF6B, 0xDF6B), (0xDF6D, 0xDF6D), (0xDF6F, 0xDF71),
     (0xDF73, 0xDF73), (0xDF75, 0xDF75), (0xDF77, 0xDF77), (0xDF79, 0xDF79), (0xDF7B, 0xDF7B),
     (0xDF7D, 0xDF7D), (0xDF7F, 0xDF7F), (0xDF90, 0xDF96), (0xE922, 0xE943)]"

definition other_letters_1 :: "(nat \<times> nat) list" where
  "other_letters_1 =
    [(0xAA, 0xAA), (0xBA, 0xBA), (0x1BB, 0x1BB), (0x1C0, 0x1C3), (0x294, 0x295), (0x5D0, 0x5EA),
     (0x5EF, 0x5F2), (0x620, 0x63F), (0x641, 0x64A), (0x66E, 0x66F), (0x671, 0x6D3),
     (0x6D5, 0x6D5), (0x6EE, 0x6EF), (0x6FA, 0x6FC), (0x6FF, 0x6FF), (0x710, 0x710),
     (0x712, 0x72F), (0x74D, 0x7A5), (0x7B1, 0x7B1), (0x7CA, 0x7EA), (0x800, 0x815),
     (0x840, 0x858), (0x860, 0x86A), (0x870, 0x887), (0x889, 0x88F), (0x8A0, 0x8C8),
     (0x904, 0x939), (0x93D, 0x93D), (0x950, 0x950), (0x958, 0x961), (0x972, 0x980),
     (0x985, 0x98C), (0x98F, 0x990), (0x993, 0x9A8), (0x9AA, 0x9B0), (0x9B2, 0x9B2),
     (0x9B6, 0x9B9), (0x9BD, 0x9BD), (0x9CE, 0x9CE), (0x9DC, 0x9DD), (0x9DF, 0x9E1),
     (0x9F0, 0x9F1), (0x9FC, 0x9FC), (0xA05, 0xA0A), (0xA0F, 0xA10), (0xA13, 0xA28),
     (0xA2A, 0xA30), (0xA32, 0xA33), (0xA35, 0xA36), (0xA38, 0xA39), (0xA59, 0xA5C),
     (0xA5E, 0xA5E), (0xA72, 0xA74), (0xA85, 0xA8D), (0xA8F, 0xA91), (0xA93, 0xAA8),
     (0xAAA, 0xAB0), (0xAB2, 0xAB3), (0xAB5, 0xAB9), (0xABD, 0xABD), (0xAD0, 0xAD0),
     (0xAE0, 0xAE1), (0xAF9, 0xAF9), (0xB05, 0xB0C), (0xB0F, 0xB10), (0xB13, 0xB28),
     (0xB2A, 0xB30), (0xB32, 0xB33), (0xB35, 0xB39), (0xB3D, 0xB3D), (0xB5C, 0xB5D),
     (0xB5F, 0xB61), (0xB71, 0xB71), (0xB83, 0xB83), (0xB85, 0xB8A), (0xB8E, 0xB90),
     (0xB92, 0xB95), (0xB99, 0xB9A), (0xB9C, 0xB9C), (0xB9E, 0xB9F), (0xBA3, 0xBA4),
     (0xBA8, 0xBAA), (0xBAE, 0xBB9), (0xBD0, 0xBD0), (0xC05, 0xC0C), (0xC0E, 0xC10),
     (0xC12, 0xC28), (0xC2A, 0xC39), (0xC3D, 0xC3D), (0xC58, 0xC5A), (0xC5C, 0xC5D),
     (0xC60, 0xC61), (0xC80, 0xC80), (0xC85, 0xC8C), (0xC8E, 0xC90), (0xC92, 0xCA8),
     (0xCAA, 0xCB3), (0xCB5, 0xCB9), (0xCBD, 0xCBD), (0xCDC, 0xCDE), (0xCE0, 0xCE1),
     (0xCF1, 0xCF2), (0xD04, 0xD0C), (0xD0E, 0xD10), (0xD12, 0xD3A), (0xD3D, 0xD3D),
     (0xD4E, 0xD4E), (0xD54, 0xD56), (0xD5F, 0xD61), (0xD7A, 0xD7F), (0xD85, 0xD96),
     (0xD9A, 0xDB1), (0xDB3, 0xDBB), (0xDBD, 0xDBD), (0xDC0, 0xDC6), (0xE01, 0xE30),
     (0xE32, 0xE33), (0xE40, 0xE45), (0xE81, 0xE82), (0xE84, 0xE84), (0xE86, 0xE8A),
     (0xE8C, 0xEA3), (0xEA5, 0xEA5), (0xEA7, 0xEB0), (0xEB2, 0xEB3), (0xEBD, 0xEBD),
     (0xEC0, 0xEC4), (0xEDC, 0xEDF), (0xF00, 0xF00), (0xF40, 0xF47), (0xF49, 0xF6C),
     (0xF88, 0xF8C), (0x1000, 0x102A), (0x103F, 0x103F), (0x1050, 0x1055), (0x105A, 0x105D),
     (0x1061, 0x1061), (0x1065, 0x1066), (0x106E, 0x1070), (0x1075, 0x1081)]"

definition other_letters_2 :: "(nat \<times> nat) list" where
  "other_letters_2 =
    [(0x108E, 0x108E), (0x1100, 0x1248), (0x124A, 0x124D), (0x1250, 0x1256), (0x1258, 0x1258),
     (0x125A, 0x125D), (0x1260, 0x1288), (0x128A, 0x128D), (0x1290, 0x12B0), (0x12B2, 0x12B5),
     (0x12B8, 0x12BE), (0x12C0, 0x12C0), (0x12C2, 0x12C5), (0x12C8, 0x12D6), (0x12D8, 0x1310),
     (0x1312, 0x1315), (0x1318, 0x135A), (0x1380, 0x138F), (0x1401, 0x166C), (0x166F, 0x167F),
     (0x1681, 0x169A), (0x16A0, 0x16EA), (0x16F1, 0x16F8), (0x1700, 0x1711), (0x171F, 0x1731),
     (0x1740, 0x1751), (0x1760, 0x176C), (0x176E, 0x1770), (0x1780, 0x17B3), (0x17DC, 0x17DC),
     (0x1820, 0x1842), (0x1844, 0x1878), (0x1880, 0x1884), (0x1887, 0x18A8), (0x18AA, 0x18AA),
     (0x18B0, 0x18F5), (0x1900, 0x191E), (0x1950, 0x196D), (0x1970, 0x1974), (0x1980, 0x19AB),
     (0x19B0, 0x19C9), (0x1A00, 0x1A16), (0x1A20, 0x1A54), (0x1B05, 0x1B33), (0x1B45, 0x1B4C),
     (0x1B83, 0x1BA0), (0x1BAE, 0x1BAF), (0x1BBA, 0x1BE5), (0x1C00, 0x1C23), (0x1C4D, 0x1C4F),
     (0x1C5A, 0x1C77), (0x1CE9, 0x1CEC), (0x1CEE, 0x1CF3), (0x1CF5, 0x1CF6), (0x1CFA, 0x1CFA),
     (0x2135, 0x2138), (0x2D30, 0x2D67), (0x2D80, 0x2D96), (0x2DA0, 0x2DA6), (0x2DA8, 0x2DAE),
     (0x2DB0, 0x2DB6), (0x2DB8, 0x2DBE), (0x2DC0, 0x2DC6), (0x2DC8, 0x2DCE), (0x2DD0, 0x2DD6),
     (0x2DD8, 0x2DDE), (0x3006, 0x3006), (0x303C, 0x303C), (0x3041, 0x3096), (0x309F, 0x309F),
     (0x30A1, 0x30FA), (0x30FF, 0x30FF), (0x3105, 0x312F), (0x3131, 0x318E), (0x31A0, 0x31BF),
     (0x31F0, 0x31FF), (0x3400, 0x3400), (0x4DBF, 0x4DBF), (0x4E00, 0x4E00), (0x9FFF, 0xA014),
     (0xA016, 0xA48C), (0xA4D0, 0xA4F7), (0xA500, 0xA60B), (0xA610, 0xA61F), (0xA62A, 0xA62B),
     (0xA66E, 0xA66E), (0xA6A0, 0xA6E5), (0xA78F, 0xA78F), (0xA7F7, 0xA7F7), (0xA7FB, 0xA801),
     (0xA803, 0xA805), (0xA807, 0xA80A), (0xA80C, 0xA822), (0xA840, 0xA873), (0xA882, 0xA8B3),
     (0xA8F2, 0xA8F7), (0xA8FB, 0xA8FB), (0xA8FD, 0xA8FE), (0xA90A, 0xA925), (0xA930, 0xA946),
     (0xA960, 0xA97C), (0xA984, 0xA9B2), (0xA9E0, 0xA9E4), (0xA9E7, 0xA9EF), (0xA9FA, 0xA9FE),
     (0xAA00, 0xAA28), (0xAA40, 0xAA42), (0xAA44, 0xAA4B), (0xAA60, 0xAA6F), (0xAA71, 0xAA76),
     (0xAA7A, 0xAA7A), (0xAA7E, 0xAAAF), (0xAAB1, 0xAAB1), (0xAAB5, 0xAAB6), (0xAAB9, 0xAABD),
     (0xAAC0, 0xAAC0), (0xAAC2, 0xAAC2), (0xAADB, 0xAADC), (0xAAE0, 0xAAEA), (0xAAF2, 0xAAF2),
     (0xAB01, 0xAB06), (0xAB09, 0xAB0E), (0xAB11, 0xAB16), (0xAB20, 0xAB26), (0xAB28, 0xAB2E),
     (0xABC0, 0xABE2), (0xAC00, 0xAC00), (0xD7A3, 0xD7A3), (0xD7B0, 0xD7C6), (0xD7CB, 0xD7FB),
     (0xF900, 0xFA6D), (0xFA70, 0xFAD9), (0xFB1D, 0xFB1D), (0xFB1F, 0xFB28), (0xFB2A, 0xFB36),
     (0xFB38, 0xFB3C), (0xFB3E, 0xFB3E), (0xFB40, 0xFB41), (0xFB43, 0xFB44), (0xFB46, 0xFBB1)]"

definition other_letters_3 :: "(nat \<times> nat) list" where
  "other_letters_3 =
    [(0xFBD3, 0xFD3D), (0xFD50, 0xFD8F), (0xFD92, 0xFDC7), (0xFDF0, 0xFDFB), (0xFE70, 0xFE74),
     (0xFE76, 0xFEFC), (0xFF66, 0xFF6F), (0xFF71, 0xFF9D), (0xFFA0, 0xFFBE), (0xFFC2, 0xFFC7),
     (0xFFCA, 0xFFCF), (0xFFD2, 0xFFD7), (0xFFDA, 0xFFDC)]"

definition other_letters :: "(nat \<times> nat) list" where
  "other_letters =
     other_letters_1 @ other_letters_2 @ other_letters_3"

definition other_letters_high_1 :: "(nat \<times> nat) list" where
  "other_letters_high_1 =
    [(0, 0xB), (0xD, 0x26), (0x28, 0x3A), (0x3C, 0x3D), (0x3F, 0x4D), (0x50, 0x5D), (0x80, 0xFA),
     (0x280, 0x29C), (0x2A0, 0x2D0), (0x300, 0x31F), (0x32D, 0x340), (0x342, 0x349),
     (0x350, 0x375), (0x380, 0x39D), (0x3A0, 0x3C3), (0x3C8, 0x3CF), (0x450, 0x49D),
     (0x500, 0x527), (0x530, 0x563), (0x5C0, 0x5F3), (0x600, 0x736), (0x740, 0x755),
     (0x760, 0x767), (0x800, 0x805), (0x808, 0x808), (0x80A, 0x835), (0x837, 0x838),
     (0x83C, 0x83C), (0x83F, 0x855), (0x860, 0x876), (0x880, 0x89E), (0x8E0, 0x8F2),
     (0x8F4, 0x8F5), (0x900, 0x915), (0x920, 0x939), (0x940, 0x959), (0x980, 0x9B7),
     (0x9BE, 0x9BF), (0xA00, 0xA00), (0xA10, 0xA13), (0xA15, 0xA17), (0xA19, 0xA35),
     (0xA60, 0xA7C), (0xA80, 0xA9C), (0xAC0, 0xAC7), (0xAC9, 0xAE4), (0xB00, 0xB35),
     (0xB40, 0xB55), (0xB60, 0xB72), (0xB80, 0xB91), (0xC00, 0xC48), (0xD00, 0xD23),
     (0xD4A, 0xD4D), (0xD4F, 0xD4F), (0xE80, 0xEA9), (0xEB0, 0xEB1), (0xEC2, 0xEC4),
     (0xEC6, 0xEC7), (0xED9, 0xEEE), (0xF00, 0xF1C), (0xF27, 0xF27), (0xF30, 0xF45),
     (0xF70, 0xF81), (0xFB0, 0xFC4), (0xFE0, 0xFF6), (0x1003, 0x1037), (0x1071, 0x1072),
     (0x1075, 0x1075), (0x1083, 0x10AF), (0x10D0, 0x10E8), (0x1103, 0x1126), (0x1144, 0x1144),
     (0x1147, 0x1147), (0x1150, 0x1172), (0x1176, 0x1176), (0x1183, 0x11B2), (0x11C1, 0x11C4),
     (0x11DA, 0x11DA), (0x11DC, 0x11DC), (0x1200, 0x1211), (0x1213, 0x122B), (0x123F, 0x1240),
     (0x1280, 0x1286), (0x1288, 0x1288), (0x128A, 0x128D), (0x128F, 0x129D), (0x129F, 0x12A8),
     (0x12B0, 0x12DE), (0x1305, 0x130C), (0x130F, 0x1310), (0x1313, 0x1328), (0x132A, 0x1330),
     (0x1332, 0x1333), (0x1335, 0x1339), (0x133D, 0x133D), (0x1350, 0x1350), (0x135D, 0x1361),
     (0x1380, 0x1389), (0x138B, 0x138B), (0x138E, 0x138E), (0x1390, 0x13B5), (0x13B7, 0x13B7),
     (0x13D1, 0x13D1), (0x13D3, 0x13D3), (0x1400, 0x1434), (0x1447, 0x144A), (0x145F, 0x1461),
     (0x1480, 0x14AF), (0x14C4, 0x14C5), (0x14C7, 0x14C7), (0x1580, 0x15AE), (0x15D8, 0x15DB),
     (0x1600, 0x162F), (0x1644, 0x1644), (0x1680, 0x16AA), (0x16B8, 0x16B8), (0x1700, 0x171A),
     (0x1740, 0x1746), (0x1800, 0x182B), (0x18FF, 0x1906), (0x1909, 0x1909), (0x190C, 0x1913),
     (0x1915, 0x1916), (0x1918, 0x192F), (0x193F, 0x193F), (0x1941, 0x1941), (0x19A0, 0x19A7),
     (0x19AA, 0x19D0), (0x19E1, 0x19E1), (0x19E3, 0x19E3), (0x1A00, 0x1A00), (0x1A0B, 0x1A32),
     (0x1A3A, 0x1A3A), (0x1A50, 0x1A50), (0x1A5C, 0x1A89), (0x1A9D, 0x1A9D), (0x1AB0, 0x1AF8),
     (0x1B0A, 0x1B0A), (0x1BC0, 0x1BE0), (0x1C00, 0x1C08)]"

definition other_letters_high_2 :: "(nat \<times> nat) list" where
  "other_letters_high_2 =
    [(0x1C0A, 0x1C2E), (0x1C40, 0x1C40), (0x1C72, 0x1C8F), (0x1D00, 0x1D06), (0x1D08, 0x1D09),
     (0x1D0B, 0x1D30), (0x1D46, 0x1D46), (0x1D60, 0x1D65), (0x1D67, 0x1D68), (0x1D6A, 0x1D89),
     (0x1D98, 0x1D98), (0x1DB0, 0x1DD8), (0x1DDA, 0x1DDB), (0x1DF1, 0x1DF1), (0x1EE0, 0x1EF2),
     (0x1F02, 0x1F02), (0x1F04, 0x1F10), (0x1F12, 0x1F33), (0x1FB0, 0x1FB0), (0x2000, 0x2399),
     (0x2480, 0x2543), (0x2F90, 0x2FF0), (0x3000, 0x342F), (0x3441, 0x3446), (0x3460, 0x43FA),
     (0x4400, 0x4646), (0x6100, 0x611D), (0x6800, 0x6A38), (0x6A40, 0x6A5E), (0x6A70, 0x6ABE),
     (0x6AD0, 0x6AED), (0x6B00, 0x6B2F), (0x6B63, 0x6B77), (0x6B7D, 0x6B8F), (0x6D43, 0x6D6A),
     (0x6F00, 0x6F4A), (0x6F50, 0x6F50), (0x7000, 0x7000), (0x87FF, 0x8CDA), (0x8CFF, 0x8D00),
     (0x8D20, 0x8D20), (0x8D80, 0x8DF2), (0x8E00, 0x8E00), (0x9191, 0x9191), (0x91A0, 0x91D2),
     (0xB000, 0xB128), (0xB132, 0xB132), (0xB150, 0xB152), (0xB155, 0xB155), (0xB164, 0xB168),
     (0xB170, 0xB2FB), (0xBC00, 0xBC6A), (0xBC70, 0xBC7C), (0xBC80, 0xBC88), (0xBC90, 0xBC99),
     (0xDF0A, 0xDF0A), (0xDF80, 0xDF81), (0xE100, 0xE12C), (0xE14E, 0xE14E), (0xE290, 0xE2AD),
     (0xE2C0, 0xE2EB), (0xE4D0, 0xE4EA), (0xE5D0, 0xE5ED), (0xE5F0, 0xE5F0), (0xE6C0, 0xE6DE),
     (0xE6E0, 0xE6E2), (0xE6E4, 0xE6E5), (0xE6E7, 0xE6ED), (0xE6F0, 0xE6F4), (0xE6FE, 0xE6FE),
     (0xE7E0, 0xE7E6), (0xE7E8, 0xE7EB), (0xE7ED, 0xE7EE), (0xE7F0, 0xE7FE), (0xE800, 0xE8C4),
     (0xEE00, 0xEE03), (0xEE05, 0xEE1F), (0xEE21, 0xEE22), (0xEE24, 0xEE24), (0xEE27, 0xEE27),
     (0xEE29, 0xEE32), (0xEE34, 0xEE37), (0xEE39, 0xEE39), (0xEE3B, 0xEE3B), (0xEE42, 0xEE42),
     (0xEE47, 0xEE47), (0xEE49, 0xEE49), (0xEE4B, 0xEE4B), (0xEE4D, 0xEE4F), (0xEE51, 0xEE52),
     (0xEE54, 0xEE54), (0xEE57, 0xEE57), (0xEE59, 0xEE59), (0xEE5B, 0xEE5B), (0xEE5D, 0xEE5D),
     (0xEE5F, 0xEE5F), (0xEE61, 0xEE62), (0xEE64, 0xEE64), (0xEE67, 0xEE6A), (0xEE6C, 0xEE72),
     (0xEE74, 0xEE77), (0xEE79, 0xEE7C), (0xEE7E, 0xEE7E), (0xEE80, 0xEE89), (0xEE8B, 0xEE9B),
     (0xEEA1, 0xEEA3), (0xEEA5, 0xEEA9), (0xEEAB, 0xEEBB)]"

definition other_letters_high :: "(nat \<times> nat) list" where
  "other_letters_high =
     other_letters_high_1 @ other_letters_high_2 @ replicate 19 (0, 0)"

definition other_letters_very_high :: "(nat \<times> nat) list" where
  "other_letters_very_high =
    [(0x20000, 0x20000), (0x2A6DF, 0x2A6DF), (0x2A700, 0x2A700), (0x2B73F, 0x2B740),
     (0x2B81E, 0x2B81E), (0x2B820, 0x2B820), (0x2CEAD, 0x2CEAD), (0x2CEB0, 0x2CEB0),
     (0x2EBE0, 0x2EBE0), (0x2EBF0, 0x2EBF0), (0x2EE5D, 0x2EE5D), (0x2F800, 0x2FA1D),
     (0x30000, 0x30000), (0x3134A, 0x3134A), (0x31350, 0x31350), (0x323AF, 0x323B0),
     (0x33479, 0x33479), (0x3D000, 0x3D000), (0x3FC3F, 0x3FC3F)]"

definition modifier_letters :: "(nat \<times> nat) list" where
  "modifier_letters =
    [(0x2B0, 0x2C1), (0x2C6, 0x2D1), (0x2E0, 0x2E4), (0x2EC, 0x2EC), (0x2EE, 0x2EE),
     (0x374, 0x374), (0x37A, 0x37A), (0x558, 0x559), (0x58B, 0x58C), (0x640, 0x640),
     (0x6E5, 0x6E6), (0x7F4, 0x7F5), (0x7FA, 0x7FA), (0x81A, 0x81A), (0x824, 0x824),
     (0x828, 0x828), (0x8C9, 0x8C9), (0x971, 0x971), (0xE46, 0xE46), (0xEC6, 0xEC6),
     (0x10FC, 0x10FC), (0x17D7, 0x17D7), (0x1843, 0x1843), (0x1AA7, 0x1AA7), (0x1C78, 0x1C7D),
     (0x1D2C, 0x1D6A), (0x1D78, 0x1D78), (0x1D9B, 0x1DBF), (0x2071, 0x2071), (0x207F, 0x207F),
     (0x208F, 0x209F), (0x2C7C, 0x2C7D), (0x2D6F, 0x2D6F), (0x2E2F, 0x2E2F), (0x3005, 0x3005),
     (0x3031, 0x3035), (0x303B, 0x303B), (0x309D, 0x309E), (0x30FC, 0x30FE), (0xA015, 0xA015),
     (0xA4F8, 0xA4FD), (0xA60C, 0xA60C), (0xA67F, 0xA67F), (0xA69C, 0xA69D), (0xA717, 0xA71F),
     (0xA770, 0xA770), (0xA788, 0xA788), (0xA7F1, 0xA7F4), (0xA7F8, 0xA7F9), (0xA9CF, 0xA9CF),
     (0xA9E6, 0xA9E6), (0xAA70, 0xAA70), (0xAADD, 0xAADD), (0xAAF3, 0xAAF4), (0xAB5C, 0xAB5F),
     (0xAB69, 0xAB69), (0xFF70, 0xFF70), (0xFF9E, 0xFF9F)]"

definition modifier_letters_high :: "(nat \<times> nat) list" where
  "modifier_letters_high =
    [(0x780, 0x785), (0x787, 0x7B0), (0x7B2, 0x7BF), (0xD4E, 0xD4E), (0xD6F, 0xD6F),
     (0xEC5, 0xEC5), (0x1DD9, 0x1DD9), (0x6B40, 0x6B43), (0x6D40, 0x6D42), (0x6D6B, 0x6D6C),
     (0x6F93, 0x6F9F), (0x6FE0, 0x6FE1), (0x6FE3, 0x6FE3), (0x6FF2, 0x6FF3), (0xAFF0, 0xAFF3),
     (0xAFF5, 0xAFFB), (0xAFFD, 0xAFFE), (0xDFCD, 0xDFFF), (0xE030, 0xE06D), (0xE137, 0xE13D),
     (0xE4EB, 0xE4EB), (0xE6FF, 0xE6FF), (0xE94B, 0xE94B)]"

definition titlecase_letters :: "nat list" where
  "titlecase_letters =
    [0x1C5, 0x1C8, 0x1CB, 0x1F2, 0x1F88, 0x1F89, 0x1F8A, 0x1F8B, 0x1F8C, 0x1F8D, 0x1F8E, 0x1F8F,
     0x1F98, 0x1F99, 0x1F9A, 0x1F9B, 0x1F9C, 0x1F9D, 0x1F9E, 0x1F9F, 0x1FA8, 0x1FA9, 0x1FAA,
     0x1FAB, 0x1FAC, 0x1FAD, 0x1FAE, 0x1FAF, 0x1FBC, 0x1FCC, 0x1FFC]"

definition iswpunct_ranges_1 :: "(nat \<times> nat) list" where
  "iswpunct_ranges_1 =
    [(0x21, 0x2F), (0x3A, 0x40), (0x5B, 0x60), (0x7B, 0x7E), (0xA1, 0xA9), (0xAB, 0xAC),
     (0xAE, 0xB1), (0xB4, 0xB4), (0xB6, 0xB8), (0xBB, 0xBB), (0xBF, 0xBF), (0xD7, 0xD7),
     (0xF7, 0xF7), (0x2C2, 0x2C5), (0x2D2, 0x2DF), (0x2E5, 0x2EB), (0x2ED, 0x2ED),
     (0x2EF, 0x2FF), (0x375, 0x375), (0x37E, 0x37E), (0x384, 0x385), (0x387, 0x387),
     (0x3F6, 0x3F6), (0x482, 0x482), (0x55A, 0x55F), (0x589, 0x58A), (0x58D, 0x58F),
     (0x5BE, 0x5BE), (0x5C0, 0x5C0), (0x5C3, 0x5C3), (0x5C6, 0x5C6), (0x5F3, 0x5F4),
     (0x606, 0x60F), (0x61B, 0x61B), (0x61D, 0x61F), (0x66A, 0x66D), (0x6D4, 0x6D4),
     (0x6DE, 0x6DE), (0x6E9, 0x6E9), (0x6FD, 0x6FE), (0x700, 0x70D), (0x7F6, 0x7F9),
     (0x7FE, 0x7FF), (0x830, 0x83E), (0x85E, 0x85E), (0x888, 0x888), (0x964, 0x965),
     (0x970, 0x970), (0x9F2, 0x9F3), (0x9FA, 0x9FB), (0x9FD, 0x9FD), (0xA76, 0xA76),
     (0xAF0, 0xAF1), (0xB70, 0xB70), (0xBF3, 0xBFA), (0xC77, 0xC77), (0xC7F, 0xC7F),
     (0xC84, 0xC84), (0xD4F, 0xD4F), (0xD79, 0xD79), (0xDF4, 0xDF4), (0xE3F, 0xE3F),
     (0xE4F, 0xE4F), (0xE5A, 0xE5B), (0xF01, 0xF17), (0xF1A, 0xF1F), (0xF34, 0xF34),
     (0xF36, 0xF36), (0xF38, 0xF38), (0xF3A, 0xF3D), (0xF85, 0xF85), (0xFBE, 0xFC5),
     (0xFC7, 0xFCC), (0xFCE, 0xFDA), (0x104A, 0x104F), (0x109E, 0x109F), (0x10FB, 0x10FB),
     (0x1360, 0x1368), (0x1390, 0x1399), (0x1400, 0x1400), (0x166D, 0x166E), (0x169B, 0x169C),
     (0x16EB, 0x16ED), (0x1735, 0x1736), (0x17D4, 0x17D6), (0x17D8, 0x17DB), (0x1800, 0x180A),
     (0x1940, 0x1940), (0x1944, 0x1945), (0x19DE, 0x19FF), (0x1A1E, 0x1A1F), (0x1AA0, 0x1AA6),
     (0x1AA8, 0x1AAD), (0x1B5A, 0x1B6A), (0x1B74, 0x1B7E), (0x1BFC, 0x1BFF), (0x1C3B, 0x1C3F),
     (0x1C7E, 0x1C7F), (0x1CC0, 0x1CC7), (0x1CD3, 0x1CD3), (0x1FBD, 0x1FBD), (0x1FBF, 0x1FC1),
     (0x1FCD, 0x1FCF), (0x1FDD, 0x1FDF), (0x1FED, 0x1FEF), (0x1FFD, 0x1FFE), (0x2010, 0x2027),
     (0x2030, 0x205E), (0x207A, 0x207E), (0x208A, 0x208E), (0x20A0, 0x20C0), (0x2100, 0x2101),
     (0x2103, 0x2106), (0x2108, 0x2109), (0x2114, 0x2114), (0x2116, 0x2118), (0x211E, 0x2123),
     (0x2125, 0x2125), (0x2127, 0x2127), (0x2129, 0x2129), (0x212E, 0x212E), (0x213A, 0x213B),
     (0x2140, 0x2144), (0x214A, 0x214D), (0x214F, 0x214F), (0x218A, 0x218B), (0x2190, 0x2426),
     (0x2440, 0x244A), (0x249C, 0x24E9), (0x2500, 0x2775), (0x2794, 0x2B73), (0x2B76, 0x2B95),
     (0x2B97, 0x2BFF), (0x2CE5, 0x2CEA), (0x2CF9, 0x2CFC), (0x2CFE, 0x2CFF), (0x2D70, 0x2D70),
     (0x2E00, 0x2E2E), (0x2E30, 0x2E5D), (0x2E80, 0x2E99)]"

definition iswpunct_ranges_2 :: "(nat \<times> nat) list" where
  "iswpunct_ranges_2 =
    [(0x2E9B, 0x2EF3), (0x2F00, 0x2FD5), (0x2FF0, 0x2FFB), (0x3001, 0x3004), (0x3008, 0x3020),
     (0x3030, 0x3030), (0x3036, 0x3037), (0x303D, 0x303F), (0x309B, 0x309C), (0x30A0, 0x30A0),
     (0x30FB, 0x30FB), (0x3190, 0x3191), (0x3196, 0x319F), (0x31C0, 0x31E3), (0x3200, 0x321E),
     (0x322A, 0x3247), (0x3250, 0x3250), (0x3260, 0x327F), (0x328A, 0x32B0), (0x32C0, 0x33FF),
     (0x4DC0, 0x4DFF), (0xA490, 0xA4C6), (0xA4FE, 0xA4FF), (0xA60D, 0xA60F), (0xA673, 0xA673),
     (0xA67E, 0xA67E), (0xA6F2, 0xA6F7), (0xA700, 0xA716), (0xA720, 0xA721), (0xA789, 0xA78A),
     (0xA828, 0xA82B), (0xA836, 0xA839), (0xA874, 0xA877), (0xA8CE, 0xA8CF), (0xA8F8, 0xA8FA),
     (0xA8FC, 0xA8FC), (0xA92E, 0xA92F), (0xA95F, 0xA95F), (0xA9C1, 0xA9CD), (0xA9DE, 0xA9DF),
     (0xAA5C, 0xAA5F), (0xAA77, 0xAA79), (0xAADE, 0xAADF), (0xAAF0, 0xAAF1), (0xAB5B, 0xAB5B),
     (0xAB6A, 0xAB6B), (0xABEB, 0xABEB), (0xFB29, 0xFB29), (0xFBB2, 0xFBC2), (0xFD3E, 0xFD4F),
     (0xFDCF, 0xFDCF), (0xFDFC, 0xFDFF), (0xFE10, 0xFE19), (0xFE30, 0xFE52), (0xFE54, 0xFE66),
     (0xFE68, 0xFE6B), (0xFF01, 0xFF0F), (0xFF1A, 0xFF20), (0xFF3B, 0xFF40), (0xFF5B, 0xFF65),
     (0xFFE0, 0xFFE6), (0xFFE8, 0xFFEE), (0xFFFC, 0xFFFD)]"

definition iswpunct_ranges :: "(nat \<times> nat) list" where
  "iswpunct_ranges =
     iswpunct_ranges_1 @ iswpunct_ranges_2"

definition iswpunct_ranges_high :: "(nat \<times> nat) list" where
  "iswpunct_ranges_high =
    [(0x100, 0x102), (0x137, 0x13F), (0x179, 0x189), (0x18C, 0x18E), (0x190, 0x19C),
     (0x1A0, 0x1A0), (0x1D0, 0x1FC), (0x39F, 0x39F), (0x3D0, 0x3D0), (0x56F, 0x56F),
     (0x857, 0x857), (0x877, 0x878), (0x91F, 0x91F), (0x93F, 0x93F), (0xA50, 0xA58),
     (0xA7F, 0xA7F), (0xAC8, 0xAC8), (0xAF0, 0xAF6), (0xB39, 0xB3F), (0xB99, 0xB9C),
     (0xEAD, 0xEAD), (0xF55, 0xF59), (0xF86, 0xF89), (0x1047, 0x104D), (0x10BB, 0x10BC),
     (0x10BE, 0x10C1), (0x1140, 0x1143), (0x1174, 0x1175), (0x11C5, 0x11C8), (0x11CD, 0x11CD),
     (0x11DB, 0x11DB), (0x11DD, 0x11DF), (0x1238, 0x123D), (0x12A9, 0x12A9), (0x144B, 0x144F),
     (0x145A, 0x145B), (0x145D, 0x145D), (0x14C6, 0x14C6), (0x15C1, 0x15D7), (0x1641, 0x1643),
     (0x1660, 0x166C), (0x16B9, 0x16B9), (0x173C, 0x173F), (0x183B, 0x183B), (0x1944, 0x1946),
     (0x19E2, 0x19E2), (0x1A3F, 0x1A46), (0x1A9A, 0x1A9C), (0x1A9E, 0x1AA2), (0x1C41, 0x1C45),
     (0x1C70, 0x1C71), (0x1EF7, 0x1EF8), (0x1FD5, 0x1FF1), (0x1FFF, 0x1FFF), (0x2470, 0x2474),
     (0x2FF1, 0x2FF2), (0x6A6E, 0x6A6F), (0x6AF5, 0x6AF5), (0x6B37, 0x6B3F), (0x6B44, 0x6B45),
     (0x6E97, 0x6E9A), (0x6FE2, 0x6FE2), (0xBC9C, 0xBC9C), (0xBC9F, 0xBC9F), (0xCF50, 0xCFC3),
     (0xD000, 0xD0F5), (0xD100, 0xD126), (0xD129, 0xD164), (0xD16A, 0xD16C), (0xD183, 0xD184),
     (0xD18C, 0xD1A9), (0xD1AE, 0xD1EA), (0xD200, 0xD241), (0xD245, 0xD245), (0xD300, 0xD356),
     (0xD6C1, 0xD6C1), (0xD6DB, 0xD6DB), (0xD6FB, 0xD6FB), (0xD715, 0xD715), (0xD735, 0xD735),
     (0xD74F, 0xD74F), (0xD76F, 0xD76F), (0xD789, 0xD789), (0xD7A9, 0xD7A9), (0xD7C3, 0xD7C3),
     (0xD800, 0xD9FF), (0xDA37, 0xDA3A), (0xDA6D, 0xDA74), (0xDA76, 0xDA83), (0xDA85, 0xDA8B),
     (0xE14F, 0xE14F), (0xE2FF, 0xE2FF), (0xE95E, 0xE95F), (0xECAC, 0xECAC), (0xECB0, 0xECB0),
     (0xED2E, 0xED2E), (0xEEF0, 0xEEF1), (0xF000, 0xF02B), (0xF030, 0xF093), (0xF0A0, 0xF0AE),
     (0xF0B1, 0xF0BF), (0xF0C1, 0xF0CF), (0xF0D1, 0xF0F5), (0xF10D, 0xF1AD), (0xF1E6, 0xF202),
     (0xF210, 0xF23B), (0xF240, 0xF248), (0xF250, 0xF251), (0xF260, 0xF265), (0xF300, 0xF6D7),
     (0xF6DD, 0xF6EC), (0xF6F0, 0xF6FC), (0xF700, 0xF773), (0xF780, 0xF7D8), (0xF7E0, 0xF7EB),
     (0xF7F0, 0xF7F0), (0xF800, 0xF80B), (0xF810, 0xF847), (0xF850, 0xF859), (0xF860, 0xF887),
     (0xF890, 0xF8AD), (0xF8B0, 0xF8B1), (0xF900, 0xFA53), (0xFA60, 0xFA6D), (0xFA70, 0xFA74),
     (0xFA78, 0xFA7C), (0xFA80, 0xFA86), (0xFA90, 0xFAAC), (0xFAB0, 0xFABA), (0xFAC0, 0xFAC5),
     (0xFAD0, 0xFAD9), (0xFAE0, 0xFAE7), (0xFAF0, 0xFAF6), (0xFB00, 0xFB92), (0xFB94, 0xFBCA)]"

definition the_rest :: "(nat \<times> nat) list" where
  "the_rest =
    [(0x30, 0x39), (0xB2, 0xB3), (0xB9, 0xB9), (0xBC, 0xBE), (0x660, 0x669), (0x6F0, 0x6F9),
     (0x7C0, 0x7C9), (0x966, 0x96F), (0x9E6, 0x9EF), (0x9F4, 0x9F9), (0xA66, 0xA6F),
     (0xAE6, 0xAEF), (0xB66, 0xB6F), (0xB72, 0xB77), (0xBE6, 0xBF2), (0xC66, 0xC6F),
     (0xC78, 0xC7E), (0xCE6, 0xCEF), (0xD58, 0xD5E), (0xD66, 0xD78), (0xDE6, 0xDEF),
     (0xE50, 0xE59), (0xED0, 0xED9), (0xF20, 0xF33), (0x1040, 0x1049), (0x1090, 0x1099),
     (0x1369, 0x137C), (0x16EE, 0x16F0), (0x17E0, 0x17E9), (0x17F0, 0x17F9), (0x1810, 0x1819),
     (0x1946, 0x194F), (0x19D0, 0x19DA), (0x1A80, 0x1A89), (0x1A90, 0x1A99), (0x1B50, 0x1B59),
     (0x1BB0, 0x1BB9), (0x1C40, 0x1C49), (0x1C50, 0x1C59), (0x2070, 0x2070), (0x2074, 0x2079),
     (0x2080, 0x2089), (0x2150, 0x2182), (0x2185, 0x2189), (0x2460, 0x249B), (0x24EA, 0x24FF),
     (0x2776, 0x2793), (0x2CFD, 0x2CFD), (0x3007, 0x3007), (0x3021, 0x3029), (0x3038, 0x303A),
     (0x3192, 0x3195), (0x3220, 0x3229), (0x3248, 0x324F), (0x3251, 0x325F), (0x3280, 0x3289),
     (0x32B1, 0x32BF), (0xA620, 0xA629), (0xA6E6, 0xA6EF), (0xA830, 0xA835), (0xA8D0, 0xA8D9),
     (0xA900, 0xA909), (0xA9D0, 0xA9D9), (0xA9F0, 0xA9F9), (0xAA50, 0xAA59), (0xABF0, 0xABF9),
     (0xFF10, 0xFF19)]"

definition the_rest_high :: "(nat \<times> nat) list" where
  "the_rest_high =
    [(0x107, 0x133), (0x140, 0x178), (0x18A, 0x18B), (0x2E1, 0x2FB), (0x320, 0x323),
     (0x341, 0x341), (0x34A, 0x34A), (0x3D1, 0x3D5), (0x4A0, 0x4A9), (0x858, 0x85F),
     (0x879, 0x87F), (0x8A7, 0x8AF), (0x8FB, 0x8FF), (0x916, 0x91B), (0x9BC, 0x9BD),
     (0x9C0, 0x9CF), (0x9D2, 0x9FF), (0xA40, 0xA48), (0xA7D, 0xA7E), (0xA9D, 0xA9F),
     (0xAEB, 0xAEF), (0xB58, 0xB5F), (0xB78, 0xB7F), (0xBA9, 0xBAF), (0xCFA, 0xCFF),
     (0xD30, 0xD39), (0xE60, 0xE7E), (0xF1D, 0xF26), (0xF51, 0xF54), (0xFC5, 0xFCB),
     (0x1052, 0x106F), (0x10F0, 0x10F9), (0x1136, 0x113F), (0x11D0, 0x11D9), (0x11E1, 0x11F4),
     (0x12F0, 0x12F9), (0x1450, 0x1459), (0x14D0, 0x14D9), (0x1650, 0x1659), (0x16C0, 0x16C9),
     (0x1730, 0x173B), (0x18E0, 0x18F2), (0x1950, 0x1959), (0x1C50, 0x1C6C), (0x1D50, 0x1D59),
     (0x1DA0, 0x1DA9), (0x1FC0, 0x1FD4), (0x2400, 0x246E), (0x6A60, 0x6A69), (0x6AC0, 0x6AC9),
     (0x6B50, 0x6B59), (0x6B5B, 0x6B61), (0x6E80, 0x6E96), (0xD2E0, 0xD2F3), (0xD360, 0xD378),
     (0xD7CE, 0xD7FF), (0xE140, 0xE149), (0xE2F0, 0xE2F9), (0xE8C7, 0xE8CF), (0xE950, 0xE959),
     (0xEC71, 0xECAB), (0xECAD, 0xECAF), (0xECB1, 0xECB4), (0xED01, 0xED2D), (0xED2F, 0xED3D),
     (0xF100, 0xF10C), (0xFBF0, 0xFBF9)]"

definition zerowidth_ranges_1 :: "(nat \<times> nat) list" where
  "zerowidth_ranges_1 =
    [(0, 0x1F), (0x7F, 0x9F), (0xAD, 0xAD), (0x300, 0x36F), (0x483, 0x487), (0x591, 0x5BD),
     (0x5BF, 0x5BF), (0x5C1, 0x5C2), (0x5C4, 0x5C5), (0x5C7, 0x5C7), (0x600, 0x605),
     (0x610, 0x61A), (0x61C, 0x61C), (0x64B, 0x65F), (0x670, 0x670), (0x6D6, 0x6DD),
     (0x6DF, 0x6E4), (0x6E7, 0x6E8), (0x6EA, 0x6ED), (0x70F, 0x70F), (0x711, 0x711),
     (0x730, 0x74A), (0x7A6, 0x7B0), (0x7EB, 0x7F3), (0x7FD, 0x7FD), (0x816, 0x819),
     (0x81B, 0x823), (0x825, 0x827), (0x829, 0x82D), (0x859, 0x85B), (0x890, 0x891),
     (0x898, 0x89F), (0x8CA, 0x902), (0x93A, 0x93A), (0x93C, 0x93C), (0x941, 0x948),
     (0x94D, 0x94D), (0x951, 0x957), (0x962, 0x963), (0x981, 0x981), (0x9BC, 0x9BC),
     (0x9C1, 0x9C4), (0x9CD, 0x9CD), (0x9E2, 0x9E3), (0x9FE, 0x9FE), (0xA01, 0xA02),
     (0xA3C, 0xA3C), (0xA41, 0xA42), (0xA47, 0xA48), (0xA4B, 0xA4D), (0xA51, 0xA51),
     (0xA70, 0xA71), (0xA75, 0xA75), (0xA81, 0xA82), (0xABC, 0xABC), (0xAC1, 0xAC5),
     (0xAC7, 0xAC8), (0xACD, 0xACD), (0xAE2, 0xAE3), (0xAFA, 0xAFF), (0xB01, 0xB01),
     (0xB3C, 0xB3C), (0xB3F, 0xB3F), (0xB41, 0xB44), (0xB4D, 0xB4D), (0xB55, 0xB56),
     (0xB62, 0xB63), (0xB82, 0xB82), (0xBC0, 0xBC0), (0xBCD, 0xBCD), (0xC00, 0xC00),
     (0xC04, 0xC04), (0xC3C, 0xC3C), (0xC3E, 0xC40), (0xC46, 0xC48), (0xC4A, 0xC4D),
     (0xC55, 0xC56), (0xC62, 0xC63), (0xC81, 0xC81), (0xCBC, 0xCBC), (0xCBF, 0xCBF),
     (0xCC6, 0xCC6), (0xCCC, 0xCCD), (0xCE2, 0xCE3), (0xD00, 0xD01), (0xD3B, 0xD3C),
     (0xD41, 0xD44), (0xD4D, 0xD4D), (0xD62, 0xD63), (0xD81, 0xD81), (0xDCA, 0xDCA),
     (0xDD2, 0xDD4), (0xDD6, 0xDD6), (0xE31, 0xE31), (0xE34, 0xE3A), (0xE47, 0xE4E),
     (0xEB1, 0xEB1), (0xEB4, 0xEBC), (0xEC8, 0xECD), (0xF18, 0xF19), (0xF35, 0xF35),
     (0xF37, 0xF37), (0xF39, 0xF39), (0xF71, 0xF7E), (0xF80, 0xF84), (0xF86, 0xF87),
     (0xF8D, 0xF97), (0xF99, 0xFBC), (0xFC6, 0xFC6), (0x102D, 0x1030), (0x1032, 0x1037),
     (0x1039, 0x103A), (0x103D, 0x103E), (0x1058, 0x1059), (0x105E, 0x1060), (0x1071, 0x1074),
     (0x1082, 0x1082), (0x1085, 0x1086), (0x108D, 0x108D), (0x109D, 0x109D), (0x135D, 0x135F),
     (0x1712, 0x1714), (0x1732, 0x1733), (0x1752, 0x1753), (0x1772, 0x1773), (0x17B4, 0x17B5),
     (0x17B7, 0x17BD), (0x17C6, 0x17C6), (0x17C9, 0x17D3), (0x17DD, 0x17DD), (0x180B, 0x180F),
     (0x1885, 0x1886), (0x18A9, 0x18A9), (0x1920, 0x1922), (0x1927, 0x1928), (0x1932, 0x1932),
     (0x1939, 0x193B), (0x1A17, 0x1A18), (0x1A1B, 0x1A1B), (0x1A56, 0x1A56)]"

definition zerowidth_ranges_2 :: "(nat \<times> nat) list" where
  "zerowidth_ranges_2 =
    [(0x1A58, 0x1A5E), (0x1A60, 0x1A60), (0x1A62, 0x1A62), (0x1A65, 0x1A6C), (0x1A73, 0x1A7C),
     (0x1A7F, 0x1A7F), (0x1AB0, 0x1ABD), (0x1ABF, 0x1ACE), (0x1B00, 0x1B03), (0x1B34, 0x1B34),
     (0x1B36, 0x1B3A), (0x1B3C, 0x1B3C), (0x1B42, 0x1B42), (0x1B6B, 0x1B73), (0x1B80, 0x1B81),
     (0x1BA2, 0x1BA5), (0x1BA8, 0x1BA9), (0x1BAB, 0x1BAD), (0x1BE6, 0x1BE6), (0x1BE8, 0x1BE9),
     (0x1BED, 0x1BED), (0x1BEF, 0x1BF1), (0x1C2C, 0x1C33), (0x1C36, 0x1C37), (0x1CD0, 0x1CD2),
     (0x1CD4, 0x1CE0), (0x1CE2, 0x1CE8), (0x1CED, 0x1CED), (0x1CF4, 0x1CF4), (0x1CF8, 0x1CF9),
     (0x1DC0, 0x1DFF), (0x200B, 0x200F), (0x202A, 0x202E), (0x2060, 0x2064), (0x2066, 0x206F),
     (0x20D0, 0x20DC), (0x20E1, 0x20E1), (0x20E5, 0x20F0), (0x2CEF, 0x2CF1), (0x2D7F, 0x2D7F),
     (0x2DE0, 0x2DFF), (0x302A, 0x302D), (0x3099, 0x309A), (0xA66F, 0xA66F), (0xA674, 0xA67D),
     (0xA69E, 0xA69F), (0xA6F0, 0xA6F1), (0xA802, 0xA802), (0xA806, 0xA806), (0xA80B, 0xA80B),
     (0xA825, 0xA826), (0xA82C, 0xA82C), (0xA8C4, 0xA8C5), (0xA8E0, 0xA8F1), (0xA8FF, 0xA8FF),
     (0xA926, 0xA92D), (0xA947, 0xA951), (0xA980, 0xA982), (0xA9B3, 0xA9B3), (0xA9B6, 0xA9B9),
     (0xA9BC, 0xA9BD), (0xA9E5, 0xA9E5), (0xAA29, 0xAA2E), (0xAA31, 0xAA32), (0xAA35, 0xAA36),
     (0xAA43, 0xAA43), (0xAA4C, 0xAA4C), (0xAA7C, 0xAA7C), (0xAAB0, 0xAAB0), (0xAAB2, 0xAAB4),
     (0xAAB7, 0xAAB8), (0xAABE, 0xAABF), (0xAAC1, 0xAAC1), (0xAAEC, 0xAAED), (0xAAF6, 0xAAF6),
     (0xABE5, 0xABE5), (0xABE8, 0xABE8), (0xABED, 0xABED), (0xD800, 0xD800), (0xDB7F, 0xDB80),
     (0xDBFF, 0xDC00), (0xDFFF, 0xE000), (0xF8FF, 0xF8FF), (0xFB1E, 0xFB1E), (0xFE00, 0xFE0F),
     (0xFE20, 0xFE2F), (0xFEFF, 0xFEFF), (0xFFF9, 0xFFFB)]"

definition zerowidth_ranges :: "(nat \<times> nat) list" where
  "zerowidth_ranges =
     zerowidth_ranges_1 @ zerowidth_ranges_2"

definition zerowidth_ranges_high_1 :: "(nat \<times> nat) list" where
  "zerowidth_ranges_high_1 =
    [(0x1FD, 0x1FD), (0x2E0, 0x2E0), (0x376, 0x37A), (0xA01, 0xA03), (0xA05, 0xA06),
     (0xA0C, 0xA0F), (0xA38, 0xA3A), (0xA3F, 0xA3F), (0xAE5, 0xAE6), (0xD24, 0xD27),
     (0xEAB, 0xEAC), (0xF46, 0xF50), (0xF82, 0xF85), (0x1001, 0x1001), (0x1038, 0x1046),
     (0x1070, 0x1070), (0x1073, 0x1074), (0x107F, 0x1081), (0x10B3, 0x10B6), (0x10B9, 0x10BA),
     (0x10BD, 0x10BD), (0x10C2, 0x10C2), (0x10CD, 0x10CD), (0x1100, 0x1102), (0x1127, 0x112B),
     (0x112D, 0x1134), (0x1173, 0x1173), (0x1180, 0x1181), (0x11B6, 0x11BE), (0x11C9, 0x11CC),
     (0x11CF, 0x11CF), (0x122F, 0x1231), (0x1234, 0x1234), (0x1236, 0x1237), (0x123E, 0x123E),
     (0x12DF, 0x12DF), (0x12E3, 0x12EA), (0x1300, 0x1301), (0x133B, 0x133C), (0x1340, 0x1340),
     (0x1366, 0x136C), (0x1370, 0x1374), (0x1438, 0x143F), (0x1442, 0x1444), (0x1446, 0x1446),
     (0x145E, 0x145E), (0x14B3, 0x14B8), (0x14BA, 0x14BA), (0x14BF, 0x14C0), (0x14C2, 0x14C3),
     (0x15B2, 0x15B5), (0x15BC, 0x15BD), (0x15BF, 0x15C0), (0x15DC, 0x15DD), (0x1633, 0x163A),
     (0x163D, 0x163D), (0x163F, 0x1640), (0x16AB, 0x16AB), (0x16AD, 0x16AD), (0x16B0, 0x16B5),
     (0x16B7, 0x16B7), (0x171D, 0x171F), (0x1722, 0x1725), (0x1727, 0x172B), (0x182F, 0x1837),
     (0x1839, 0x183A), (0x193B, 0x193C), (0x193E, 0x193E), (0x1943, 0x1943), (0x19D4, 0x19D7),
     (0x19DA, 0x19DB), (0x19E0, 0x19E0), (0x1A01, 0x1A0A), (0x1A33, 0x1A38), (0x1A3B, 0x1A3E),
     (0x1A47, 0x1A47), (0x1A51, 0x1A56), (0x1A59, 0x1A5B), (0x1A8A, 0x1A96), (0x1A98, 0x1A99),
     (0x1C30, 0x1C36), (0x1C38, 0x1C3D), (0x1C3F, 0x1C3F), (0x1C92, 0x1CA7), (0x1CAA, 0x1CB0),
     (0x1CB2, 0x1CB3), (0x1CB5, 0x1CB6), (0x1D31, 0x1D36), (0x1D3A, 0x1D3A), (0x1D3C, 0x1D3D),
     (0x1D3F, 0x1D45), (0x1D47, 0x1D47), (0x1D90, 0x1D91), (0x1D95, 0x1D95), (0x1D97, 0x1D97),
     (0x1EF3, 0x1EF4), (0x3430, 0x3438), (0x6AF0, 0x6AF4), (0x6B30, 0x6B36), (0x6F4F, 0x6F4F),
     (0x6F8F, 0x6F92), (0x6FE4, 0x6FE4), (0xBC9D, 0xBC9E), (0xBCA0, 0xBCA3), (0xCF00, 0xCF2D),
     (0xCF30, 0xCF46), (0xD167, 0xD169), (0xD173, 0xD182), (0xD185, 0xD18B), (0xD1AA, 0xD1AD),
     (0xD242, 0xD244), (0xDA00, 0xDA36), (0xDA3B, 0xDA6C), (0xDA75, 0xDA75), (0xDA84, 0xDA84),
     (0xDA9B, 0xDA9F), (0xDAA1, 0xDAAF), (0xE000, 0xE006), (0xE008, 0xE018), (0xE01B, 0xE021),
     (0xE023, 0xE024), (0xE026, 0xE02A), (0xE130, 0xE136), (0xE2AE, 0xE2AE), (0xE2EC, 0xE2EF),
     (0xE8D0, 0xE8D6), (0xE944, 0xE94A)]"

definition zerowidth_ranges_high :: "(nat \<times> nat) list" where
  "zerowidth_ranges_high =
     zerowidth_ranges_high_1 @ replicate 7 (0, 0)"

end
