(* ===== verification/CMem.thy ===== *)
theory CMem
  imports Prelude
begin

text \<open>
  Byte memory for the libc routines: a partial map from addresses to bytes, \<open>None\<close> for an
  address that is not mapped, and the two predicates the string proofs work with, a byte array
  and a NUL-terminated string.
\<close>

type_synonym mem = "ptr \<rightharpoonup> u8"

named_theorems mem_simps \<open>byte arrays and strings in memory\<close>

definition store :: "mem \<Rightarrow> ptr \<Rightarrow> u8 \<Rightarrow> mem option" where
  "store m p b = upd m p (\<lambda>_. b)"

fun bytes :: "mem \<Rightarrow> ptr \<Rightarrow> u8 list \<Rightarrow> bool" where
  "bytes m p [] = True"
| "bytes m p (b # bs) \<longleftrightarrow> m p = Some b \<and> bytes m (Suc p) bs"

definition cstr :: "mem \<Rightarrow> ptr \<Rightarrow> u8 list \<Rightarrow> bool" where
  "cstr m p s \<longleftrightarrow> bytes m p (s @ [0]) \<and> 0 \<notin> set s"

lemma bytes_append [mem_simps]: "bytes m p (xs @ ys) \<longleftrightarrow> bytes m p xs \<and> bytes m (p + length xs) ys"
  by (induction xs arbitrary: p) auto

lemma bytes_nth: "bytes m p bs \<longleftrightarrow> (\<forall>i < length bs. m (p + i) = Some (bs ! i))"
proof (induction bs arbitrary: p)
  case (Cons b bs)
  show ?case
    using Cons.IH [of "Suc p"] by (auto simp: nth_Cons split: nat.splits)
qed simp

lemma bytes_cong: "(\<And>i. i < length bs \<Longrightarrow> m (p + i) = m' (p + i)) \<Longrightarrow> bytes m p bs \<longleftrightarrow> bytes m' p bs"
  by (simp add: bytes_nth)

lemma bytes_unique: "bytes m p xs \<Longrightarrow> bytes m p ys \<Longrightarrow> length xs = length ys \<Longrightarrow> xs = ys"
  by (auto simp: bytes_nth intro: nth_equalityI)

lemma bytes_upd_other [simp]:
  "q < p \<or> p + length bs \<le> q \<Longrightarrow> bytes (m(q \<mapsto> b)) p bs \<longleftrightarrow> bytes m p bs"
  by (rule bytes_cong) auto

lemma bytes_store:
  assumes "bytes m p bs" and "i < length bs"
  shows "store m (p + i) b = Some (m(p + i \<mapsto> b))" and "bytes (m(p + i \<mapsto> b)) p (bs[i := b])"
  using assms by (auto simp: bytes_nth store_def nth_list_update)

lemma cstr_Nil [mem_simps]: "cstr m p [] \<longleftrightarrow> m p = Some 0"
  by (simp add: cstr_def)

lemma cstr_Cons [mem_simps]: "cstr m p (c # s) \<longleftrightarrow> m p = Some c \<and> c \<noteq> 0 \<and> cstr m (Suc p) s"
  by (auto simp: cstr_def)

lemma cstr_append: "cstr m p (xs @ ys) \<longleftrightarrow> bytes m p xs \<and> 0 \<notin> set xs \<and> cstr m (p + length xs) ys"
  by (auto simp: cstr_def bytes_append)

lemma cstr_nth: "cstr m p s \<Longrightarrow> i < length s \<Longrightarrow> m (p + i) = Some (s ! i) \<and> s ! i \<noteq> 0"
  using bytes_nth [of m p s] by (simp add: cstr_def bytes_append) (metis nth_mem)

lemma cstr_end: "cstr m p s \<Longrightarrow> m (p + length s) = Some 0"
  by (simp add: cstr_def bytes_append)

lemma cstr_unique: "cstr m p s \<Longrightarrow> cstr m p s' \<Longrightarrow> s = s'"
proof (induction s arbitrary: p s')
  case Nil
  then show ?case by (cases s') (auto simp: mem_simps)
next
  case (Cons c s)
  then show ?case by (cases s') (auto simp: mem_simps)
qed

lemma cstr_cong: "(\<And>i. i \<le> length s \<Longrightarrow> m (p + i) = m' (p + i)) \<Longrightarrow> cstr m p s \<longleftrightarrow> cstr m' p s"
  unfolding cstr_def by (subst bytes_cong [of "s @ [0]" m p m']) auto

end
