(* ===== verification/Ctype.thy ===== *)
theory Ctype
  imports Prelude
begin

text \<open>
  The character classes of \<open>libc/src/ctype.c\<close>. A character is the \<open>int\<close> argument of the C
  functions, so the model covers every value, not only those of \<open>unsigned char\<close>.
\<close>

definition isprint :: "int \<Rightarrow> bool" where
  "isprint c \<longleftrightarrow> c \<ge> 32 \<and> c \<le> 126"

definition islower :: "int \<Rightarrow> bool" where
  "islower c \<longleftrightarrow> c \<ge> 97 \<and> c \<le> 122"

definition isupper :: "int \<Rightarrow> bool" where
  "isupper c \<longleftrightarrow> c \<ge> 65 \<and> c \<le> 90"

definition tolower :: "int \<Rightarrow> int" where
  "tolower c = (if isupper c then c + 0x20 else c)"

definition toupper :: "int \<Rightarrow> int" where
  "toupper c = (if islower c then c - 0x20 else c)"

definition toascii :: "int \<Rightarrow> int" where
  "toascii c = c AND 0x7F"

definition isalpha :: "int \<Rightarrow> bool" where
  "isalpha c \<longleftrightarrow> islower c \<or> isupper c"

definition isdigit :: "int \<Rightarrow> bool" where
  "isdigit c \<longleftrightarrow> c \<ge> 48 \<and> c \<le> 57"

definition isalnum :: "int \<Rightarrow> bool" where
  "isalnum c \<longleftrightarrow> isdigit c \<or> isalpha c"

definition isspace :: "int \<Rightarrow> bool" where
  "isspace c \<longleftrightarrow> c = 32 \<or> c = 12 \<or> c = 10 \<or> c = 13 \<or> c = 9 \<or> c = 11"

definition isblank :: "int \<Rightarrow> bool" where
  "isblank c \<longleftrightarrow> c = 32 \<or> c = 9"

definition iscntrl :: "int \<Rightarrow> bool" where
  "iscntrl c \<longleftrightarrow> (0 \<le> c \<and> c \<le> 0x1F) \<or> c = 0x7F"

definition isgraph :: "int \<Rightarrow> bool" where
  "isgraph c \<longleftrightarrow> c > 32 \<and> c < 0x7F"

definition ispunct :: "int \<Rightarrow> bool" where
  "ispunct c \<longleftrightarrow> (33 \<le> c \<and> c \<le> 47) \<or> (58 \<le> c \<and> c \<le> 64) \<or> (91 \<le> c \<and> c \<le> 96) \<or>
     (123 \<le> c \<and> c \<le> 126)"

definition isxdigit :: "int \<Rightarrow> bool" where
  "isxdigit c \<longleftrightarrow> (48 \<le> c \<and> c \<le> 57) \<or> (65 \<le> c \<and> c \<le> 70) \<or> (97 \<le> c \<and> c \<le> 102)"

lemmas ctype_defs = isprint_def islower_def isupper_def isalpha_def isdigit_def isalnum_def isspace_def
  isblank_def iscntrl_def isgraph_def ispunct_def isxdigit_def

lemma tolower_idem: "tolower (tolower c) = tolower c"
  by (simp add: tolower_def isupper_def)

lemma tolower_not_upper: "\<not> isupper (tolower c)"
  by (simp add: tolower_def isupper_def)

lemma toascii_range: "0 \<le> toascii c \<and> toascii c < 128"
proof -
  have "toascii c = take_bit 7 c"
    by (simp add: toascii_def take_bit_eq_mask mask_eq_exp_minus_1)
  then show ?thesis using take_bit_int_less_exp [of 7 c] by simp
qed

text \<open>the classes partition ASCII the way the C standard requires: a character of \<open>0..127\<close> is
  either a control or a printing character; the graphic characters are the alphanumeric ones and
  the punctuation, with no overlap; a graphic character is a printing one other than the space;
  and case mapping is inverse on letters and the identity elsewhere.\<close>

theorem ctype_classes:
  "(0 \<le> c \<and> c < 128 \<longrightarrow> (iscntrl c \<longleftrightarrow> \<not> isprint c)) \<and>
   (isgraph c \<longleftrightarrow> isalnum c \<or> ispunct c) \<and> \<not> (isalnum c \<and> ispunct c) \<and>
   (isprint c \<longleftrightarrow> isgraph c \<or> c = 32) \<and> \<not> (isupper c \<and> islower c) \<and> \<not> (isdigit c \<and> isalpha c) \<and>
   (isblank c \<longrightarrow> isspace c) \<and> (isxdigit c \<longrightarrow> isalnum c) \<and>
   (isupper c \<longrightarrow> islower (tolower c) \<and> toupper (tolower c) = c) \<and>
   (islower c \<longrightarrow> isupper (toupper c) \<and> tolower (toupper c) = c) \<and>
   (\<not> isalpha c \<longrightarrow> tolower c = c \<and> toupper c = c)"
  unfolding ctype_defs tolower_def toupper_def by (intro conjI; presburger)

theorem ctype_classes_witness: "toupper (tolower 65) = 65 \<and> iscntrl 127 \<and> \<not> isprint 127"
  using ctype_classes [of 65] ctype_classes [of 127] by (simp add: ctype_defs)

end
