(* ===== verification/CString.thy ===== *)
theory CString
  imports CMem Ctype
begin

text \<open>
  The string and memory routines of \<open>libc/src/string.c\<close> and \<open>libc/src/strings.c\<close> over byte
  memory. \<open>char\<close> is signed on this target, so comparisons go through \<open>sint\<close>. Loops that end at a
  NUL byte are partial functions; \<open>None\<close> is an access to an unmapped byte, undefined behaviour or
  a loop that does not end. Counts (\<open>size_t\<close>) are natural numbers.
\<close>

subsection \<open>Searching\<close>

partial_function (option) scan_nul :: "mem \<Rightarrow> ptr \<Rightarrow> ptr option" where
  "scan_nul m p = do { c \<leftarrow> m p; if c = 0 then Some (p + 1) else scan_nul m (p + 1) }"

definition strlen :: "mem \<Rightarrow> ptr \<Rightarrow> nat option" where
  "strlen m s = do { e \<leftarrow> scan_nul m s; Some (e - s - 1) }"

partial_function (option) strnlen_loop :: "mem \<Rightarrow> ptr \<Rightarrow> nat \<Rightarrow> nat \<Rightarrow> nat option" where
  "strnlen_loop m s n i =
     (if i < n then do { c \<leftarrow> m (s + i); if c = 0 then Some i else strnlen_loop m s n (i + 1) }
      else Some n)"

definition strnlen :: "mem \<Rightarrow> ptr \<Rightarrow> nat \<Rightarrow> nat option" where
  "strnlen m s n = strnlen_loop m s n 0"

partial_function (option) memchr_loop :: "mem \<Rightarrow> ptr \<Rightarrow> u8 \<Rightarrow> nat \<Rightarrow> nat \<Rightarrow> ptr option" where
  "memchr_loop m s c n i =
     (if i < n then do { b \<leftarrow> m (s + i); if b = c then Some (s + i) else memchr_loop m s c n (i + 1) }
      else Some NULL)"

definition memchr :: "mem \<Rightarrow> ptr \<Rightarrow> int \<Rightarrow> nat \<Rightarrow> ptr option" where
  "memchr m s c n = memchr_loop m s (word_of_int c) n 0"

partial_function (option) memmem_match :: "mem \<Rightarrow> ptr \<Rightarrow> ptr \<Rightarrow> nat \<Rightarrow> nat \<Rightarrow> bool option" where
  "memmem_match m hs ne needlelen j =
     (if j < needlelen
      then do { a \<leftarrow> m (hs + j); b \<leftarrow> m (ne + j);
                if a \<noteq> b then Some False else memmem_match m hs ne needlelen (j + 1) }
      else Some True)"

partial_function (option) memmem_loop :: "mem \<Rightarrow> ptr \<Rightarrow> nat \<Rightarrow> ptr \<Rightarrow> nat \<Rightarrow> nat \<Rightarrow> ptr option" where
  "memmem_loop m haystack haystacklen needle needlelen i =
     (if i < haystacklen - needlelen
      then do { eq \<leftarrow> memmem_match m (haystack + i) needle needlelen 0;
                if eq then Some (haystack + i)
                else memmem_loop m haystack haystacklen needle needlelen (i + 1) }
      else Some NULL)"

definition memmem :: "mem \<Rightarrow> ptr \<Rightarrow> nat \<Rightarrow> ptr \<Rightarrow> nat \<Rightarrow> ptr option" where
  "memmem m haystack haystacklen needle needlelen =
     (if needlelen = 0 then Some haystack
      else if haystacklen < needlelen then Some NULL
      else memmem_loop m haystack haystacklen needle needlelen 0)"

partial_function (option) strstr_inner :: "mem \<Rightarrow> ptr \<Rightarrow> ptr \<Rightarrow> ptr \<Rightarrow> bool option option" where
  "strstr_inner m hs ne hs2 =
     do { a \<leftarrow> m ne; b \<leftarrow> m hs2; h \<leftarrow> m hs;
          if a = b \<or> a = 0 \<or> h = 0
          then if a = 0 then Some (Some True)
               else if b = 0 then Some (Some False)
               else strstr_inner m hs (ne + 1) (hs2 + 1)
          else Some None }"

partial_function (option) strstr_loop :: "mem \<Rightarrow> ptr \<Rightarrow> ptr \<Rightarrow> ptr option" where
  "strstr_loop m s2 hs =
     do { c \<leftarrow> m hs;
          if c = 0 then Some NULL
          else do { r \<leftarrow> strstr_inner m hs s2 hs;
                    case r of Some True \<Rightarrow> Some hs | Some False \<Rightarrow> Some NULL
                    | None \<Rightarrow> strstr_loop m s2 (hs + 1) } }"

definition strstr :: "mem \<Rightarrow> ptr \<Rightarrow> ptr \<Rightarrow> ptr option" where
  "strstr m s1 s2 =
     do { a \<leftarrow> m s2;
          if a = 0 then Some s1
          else do { b \<leftarrow> m s1; if b = 0 then Some NULL else strstr_loop m s2 s1 } }"

partial_function (option) strchrnul :: "mem \<Rightarrow> ptr \<Rightarrow> int \<Rightarrow> ptr option" where
  "strchrnul m s c =
     do { b \<leftarrow> m s; if b \<noteq> 0 \<and> sint b \<noteq> c then strchrnul m (s + 1) c else Some s }"

definition strchr :: "mem \<Rightarrow> ptr \<Rightarrow> int \<Rightarrow> ptr option" where
  "strchr m s c =
     do { n \<leftarrow> strchrnul m s c; b \<leftarrow> m n;
          if b = 0 \<and> c \<noteq> 0 then Some NULL else Some n }"

partial_function (option) strrchr_loop :: "mem \<Rightarrow> ptr \<Rightarrow> int \<Rightarrow> int \<Rightarrow> ptr option" where
  "strrchr_loop m s c i =
     (if i \<ge> 0
      then do { b \<leftarrow> m (s + nat i);
                if sint b = c then Some (s + nat i) else strrchr_loop m s c (i - 1) }
      else Some NULL)"

definition strrchr :: "mem \<Rightarrow> ptr \<Rightarrow> int \<Rightarrow> ptr option" where
  "strrchr m s c =
     do { n \<leftarrow> strlen m s;
          if n = 0 then Some NULL else strrchr_loop m s c (int n - 1) }"

definition index_chr :: "mem \<Rightarrow> ptr \<Rightarrow> int \<Rightarrow> ptr option" where
  "index_chr m s c = strchr m s c"

definition rindex_chr :: "mem \<Rightarrow> ptr \<Rightarrow> int \<Rightarrow> ptr option" where
  "rindex_chr m s c = strrchr m s c"

text \<open>
  The 256-bit set of \<open>strspn\<close> and \<open>strcspn\<close>. Its index and shift are computed from a signed
  \<open>char\<close>: for a byte above 127 both are negative, which is undefined.
\<close>

definition bm_set :: "u8 list \<Rightarrow> u8 \<Rightarrow> u8 list option" where
  "bm_set bm c =
     (if sint c < 0 then None
      else let i = nat (sint c div 8) in
           Some (bm[i := bm ! i OR push_bit (nat (sint c mod 8)) 1]))"

definition bm_test :: "u8 list \<Rightarrow> u8 \<Rightarrow> bool option" where
  "bm_test bm c =
     (if sint c < 0 then None
      else Some (bm ! nat (sint c div 8) AND push_bit (nat (sint c mod 8)) 1 \<noteq> 0))"

partial_function (option) bm_fill :: "mem \<Rightarrow> u8 list \<Rightarrow> ptr \<Rightarrow> u8 list option" where
  "bm_fill m bm s2 =
     do { c \<leftarrow> m s2;
          if c = 0 then Some bm else do { bm \<leftarrow> bm_set bm c; bm_fill m bm (s2 + 1) } }"

partial_function (option) span_loop :: "mem \<Rightarrow> u8 list \<Rightarrow> bool \<Rightarrow> ptr \<Rightarrow> nat \<Rightarrow> nat option" where
  "span_loop m bm stop s1 n =
     do { c \<leftarrow> m s1;
          if c = 0 then Some n
          else do { b \<leftarrow> bm_test bm c;
                    if b \<noteq> stop then span_loop m bm stop (s1 + 1) (n + 1) else Some n } }"

definition strspn :: "mem \<Rightarrow> ptr \<Rightarrow> ptr \<Rightarrow> nat option" where
  "strspn m s1 s2 = do { bm \<leftarrow> bm_fill m (replicate 32 0) s2; span_loop m bm False s1 0 }"

definition strcspn :: "mem \<Rightarrow> ptr \<Rightarrow> ptr \<Rightarrow> nat option" where
  "strcspn m s1 s2 = do { bm \<leftarrow> bm_fill m (replicate 32 0) s2; span_loop m bm True s1 0 }"

partial_function (option) accept_loop :: "mem \<Rightarrow> u8 \<Rightarrow> ptr \<Rightarrow> bool option" where
  "accept_loop m b accept =
     do { a \<leftarrow> m accept;
          if a = 0 then Some False else if b = a then Some True else accept_loop m b (accept + 1) }"

partial_function (option) strpbrk :: "mem \<Rightarrow> ptr \<Rightarrow> ptr \<Rightarrow> ptr option" where
  "strpbrk m s accept =
     do { b \<leftarrow> m s; hit \<leftarrow> accept_loop m b accept;
          if hit then Some s
          else do { c \<leftarrow> m (s + 1);
                    if c \<noteq> 0 then strpbrk m (s + 1) accept else Some NULL } }"

subsection \<open>Comparing\<close>

partial_function (option) strcmp_loop :: "mem \<Rightarrow> ptr \<Rightarrow> ptr \<Rightarrow> nat \<Rightarrow> int option" where
  "strcmp_loop m s1 s2 i =
     do { a \<leftarrow> m (s1 + i); b \<leftarrow> m (s2 + i);
          if a \<noteq> 0 \<or> b \<noteq> 0
          then if a \<noteq> b then Some (if sint a < sint b then - 1 else 1)
               else strcmp_loop m s1 s2 (i + 1)
          else Some 0 }"

definition strcmp :: "mem \<Rightarrow> ptr \<Rightarrow> ptr \<Rightarrow> int option" where
  "strcmp m s1 s2 = strcmp_loop m s1 s2 0"

partial_function (option) strncmp_loop :: "mem \<Rightarrow> ptr \<Rightarrow> ptr \<Rightarrow> nat \<Rightarrow> nat \<Rightarrow> int option" where
  "strncmp_loop m s1 s2 n i =
     (if i < n
      then do { a \<leftarrow> m (s1 + i); b \<leftarrow> m (s2 + i);
                if a \<noteq> 0 \<or> b \<noteq> 0
                then if a \<noteq> b then Some (if sint a < sint b then - 1 else 1)
                     else strncmp_loop m s1 s2 n (i + 1)
                else Some 0 }
      else Some 0)"

definition strncmp :: "mem \<Rightarrow> ptr \<Rightarrow> ptr \<Rightarrow> nat \<Rightarrow> int option" where
  "strncmp m s1 s2 n = strncmp_loop m s1 s2 n 0"

partial_function (option) strcasecmp_loop :: "mem \<Rightarrow> ptr \<Rightarrow> ptr \<Rightarrow> nat \<Rightarrow> int option" where
  "strcasecmp_loop m s1 s2 i =
     do { a \<leftarrow> m (s1 + i); b \<leftarrow> m (s2 + i);
          if a \<noteq> 0 \<or> b \<noteq> 0
          then if tolower (sint a) \<noteq> tolower (sint b)
               then Some (if tolower (sint a) < tolower (sint b) then - 1 else 1)
               else strcasecmp_loop m s1 s2 (i + 1)
          else Some 0 }"

definition strcasecmp :: "mem \<Rightarrow> ptr \<Rightarrow> ptr \<Rightarrow> int option" where
  "strcasecmp m s1 s2 = strcasecmp_loop m s1 s2 0"

partial_function (option) strncasecmp_loop :: "mem \<Rightarrow> ptr \<Rightarrow> ptr \<Rightarrow> nat \<Rightarrow> nat \<Rightarrow> int option" where
  "strncasecmp_loop m s1 s2 n i =
     (if i < n
      then do { a \<leftarrow> m (s1 + i); b \<leftarrow> m (s2 + i);
                if a \<noteq> 0 \<or> b \<noteq> 0
                then if tolower (sint a) \<noteq> tolower (sint b)
                     then Some (if tolower (sint a) < tolower (sint b) then - 1 else 1)
                     else strncasecmp_loop m s1 s2 n (i + 1)
                else Some 0 }
      else Some 0)"

definition strncasecmp :: "mem \<Rightarrow> ptr \<Rightarrow> ptr \<Rightarrow> nat \<Rightarrow> int option" where
  "strncasecmp m s1 s2 n = strncasecmp_loop m s1 s2 n 0"

text \<open>\<open>memcmp\<close> of \<open>string_asm.s\<close>: the difference of the first pair of bytes that differ.\<close>

fun memcmp :: "mem \<Rightarrow> ptr \<Rightarrow> ptr \<Rightarrow> nat \<Rightarrow> int option" where
  "memcmp m s1 s2 0 = Some 0"
| "memcmp m s1 s2 (Suc n) =
     do { a \<leftarrow> m s1; b \<leftarrow> m s2;
          if a = b \<and> n \<noteq> 0 then memcmp m (s1 + 1) (s2 + 1) n
          else Some (uint a - uint b) }"

definition bcmp :: "mem \<Rightarrow> ptr \<Rightarrow> ptr \<Rightarrow> nat \<Rightarrow> int option" where
  "bcmp m s1 s2 n = memcmp m s1 s2 n"

subsection \<open>Copying\<close>

text \<open>\<open>rep movsb\<close> with the direction flag clear and set, and \<open>memset\<close> byte by byte.\<close>

fun movsb_fwd :: "mem \<Rightarrow> ptr \<Rightarrow> ptr \<Rightarrow> nat \<Rightarrow> mem option" where
  "movsb_fwd m dest src 0 = Some m"
| "movsb_fwd m dest src (Suc n) =
     do { c \<leftarrow> m src; m \<leftarrow> store m dest c; movsb_fwd m (dest + 1) (src + 1) n }"

fun movsb_bwd :: "mem \<Rightarrow> ptr \<Rightarrow> ptr \<Rightarrow> nat \<Rightarrow> mem option" where
  "movsb_bwd m dest src 0 = Some m"
| "movsb_bwd m dest src (Suc n) =
     do { c \<leftarrow> m src; m \<leftarrow> store m dest c; movsb_bwd m (dest - 1) (src - 1) n }"

fun stosb :: "mem \<Rightarrow> ptr \<Rightarrow> u8 \<Rightarrow> nat \<Rightarrow> mem option" where
  "stosb m s c 0 = Some m"
| "stosb m s c (Suc n) = do { m \<leftarrow> store m s c; stosb m (s + 1) c n }"

definition memcpy :: "mem \<Rightarrow> ptr \<Rightarrow> ptr \<Rightarrow> nat \<Rightarrow> (mem \<times> ptr) option" where
  "memcpy m dest src n = do { m \<leftarrow> movsb_fwd m dest src n; Some (m, dest) }"

definition memset :: "mem \<Rightarrow> ptr \<Rightarrow> int \<Rightarrow> nat \<Rightarrow> (mem \<times> ptr) option" where
  "memset m s c n = do { m \<leftarrow> stosb m s (word_of_int c) n; Some (m, s) }"

definition mempcpy :: "mem \<Rightarrow> ptr \<Rightarrow> ptr \<Rightarrow> nat \<Rightarrow> (mem \<times> ptr) option" where
  "mempcpy m dest src n = do { (m, d) \<leftarrow> memcpy m dest src n; Some (m, dest + n) }"

text \<open>
  \<open>memmove\<close> passes \<open>dest\<close> to the assembler as an in-out operand, so what it returns is the
  pointer register after the copy, not its argument.
\<close>

definition memmove :: "mem \<Rightarrow> ptr \<Rightarrow> ptr \<Rightarrow> nat \<Rightarrow> (mem \<times> ptr) option" where
  "memmove m dest src n =
     (if src = dest then Some (m, dest)
      else if src > dest then do { m \<leftarrow> movsb_fwd m dest src n; Some (m, dest + n) }
      else do { m \<leftarrow> movsb_bwd m (dest + n - 1) (src + n - 1) n; Some (m, dest - 1) })"

definition bcopy :: "mem \<Rightarrow> ptr \<Rightarrow> ptr \<Rightarrow> nat \<Rightarrow> mem option" where
  "bcopy m s1 s2 n = do { (m, d) \<leftarrow> memmove m s2 s1 n; Some m }"

definition bzero :: "mem \<Rightarrow> ptr \<Rightarrow> nat \<Rightarrow> mem option" where
  "bzero m s n = do { (m, d) \<leftarrow> memset m s 0 n; Some m }"

fun memfrob :: "mem \<Rightarrow> ptr \<Rightarrow> nat \<Rightarrow> (mem \<times> ptr) option" where
  "memfrob m s 0 = Some (m, s)"
| "memfrob m s (Suc n) =
     do { b \<leftarrow> m s; m \<leftarrow> store m s (b XOR 42); memfrob m (s + 1) n }"

partial_function (option) strncpy_loop :: "mem \<Rightarrow> ptr \<Rightarrow> ptr \<Rightarrow> nat \<Rightarrow> nat \<Rightarrow> (mem \<times> nat) option" where
  "strncpy_loop m dest src dsize i =
     (if i < dsize
      then do { c \<leftarrow> m (src + i);
                if c \<noteq> 0
                then do { m \<leftarrow> store m (dest + i) c; strncpy_loop m dest src dsize (i + 1) }
                else Some (m, i) }
      else Some (m, i))"

definition strncpy :: "mem \<Rightarrow> ptr \<Rightarrow> ptr \<Rightarrow> nat \<Rightarrow> (mem \<times> ptr) option" where
  "strncpy m dest src dsize =
     do { (m, i) \<leftarrow> strncpy_loop m dest src dsize 0;
          (m, p) \<leftarrow> memset m (dest + i) 0 (dsize - i);
          Some (m, dest) }"

definition stpncpy :: "mem \<Rightarrow> ptr \<Rightarrow> ptr \<Rightarrow> nat \<Rightarrow> (mem \<times> ptr) option" where
  "stpncpy m dest src dsize =
     do { (m, p) \<leftarrow> strncpy m dest src dsize; n \<leftarrow> strnlen m src dsize; Some (m, p + n + 1) }"

definition strcpy :: "mem \<Rightarrow> ptr \<Rightarrow> ptr \<Rightarrow> (mem \<times> ptr) option" where
  "strcpy m dest src = do { n \<leftarrow> strlen m src; memcpy m dest src (n + 1) }"

definition stpcpy :: "mem \<Rightarrow> ptr \<Rightarrow> ptr \<Rightarrow> (mem \<times> ptr) option" where
  "stpcpy m dest src =
     do { (m, p) \<leftarrow> strcpy m dest src; n \<leftarrow> strlen m src; Some (m, p + n + 1) }"

definition strcat :: "mem \<Rightarrow> ptr \<Rightarrow> ptr \<Rightarrow> (mem \<times> ptr) option" where
  "strcat m s1 s2 =
     do { n \<leftarrow> strlen m s1; (m, p) \<leftarrow> strcpy m (s1 + n) s2; Some (m, s1) }"

definition strncat :: "mem \<Rightarrow> ptr \<Rightarrow> ptr \<Rightarrow> nat \<Rightarrow> (mem \<times> ptr) option" where
  "strncat m s1 s2 n =
     do { k \<leftarrow> strlen m s1; (m, p) \<leftarrow> strncpy m (s1 + k) s2 n; Some (m, s1) }"

end
