(* ===== verification/CString_Props.thy ===== *)
theory CString_Props
  imports CString "HOL-Library.List_Lexorder"
begin

text \<open>
  What the string routines of \<open>libc/src/string.c\<close> compute on NUL-terminated strings and byte
  arrays: lengths, copies (with overlap for \<open>memmove\<close>), comparison and search.
\<close>

subsection \<open>Lengths\<close>

lemma scan_nul_cstr: "cstr m p s \<Longrightarrow> scan_nul m p = Some (p + length s + 1)"
proof (induction s arbitrary: p)
  case Nil
  then show ?case by (subst scan_nul.simps) (simp add: mem_simps)
next
  case (Cons c s)
  then show ?case by (subst scan_nul.simps) (simp add: mem_simps)
qed

lemma strlen_cstr: "cstr m p s \<Longrightarrow> strlen m p = Some (length s)"
  by (simp add: strlen_def scan_nul_cstr)

lemma strnlen_loop_cstr:
  "cstr m (p + i) s \<Longrightarrow> i \<le> n \<Longrightarrow> strnlen_loop m p n i = Some (min n (i + length s))"
proof (induction s arbitrary: i)
  case Nil
  then show ?case by (subst strnlen_loop.simps) (auto simp: mem_simps)
next
  case (Cons c s)
  then show ?case by (subst strnlen_loop.simps) (auto simp: mem_simps)
qed

lemma strnlen_cstr: "cstr m p s \<Longrightarrow> strnlen m p n = Some (min n (length s))"
  using strnlen_loop_cstr [of m p 0 s n] by (simp add: strnlen_def)

subsection \<open>Copies\<close>

text \<open>The mapped bytes of a region.\<close>

definition mapped :: "mem \<Rightarrow> ptr \<Rightarrow> nat \<Rightarrow> bool" where
  "mapped m p n \<longleftrightarrow> (\<forall>i < n. m (p + i) \<noteq> None)"

lemma mapped_store [simp]: "mapped m p n \<Longrightarrow> mapped (m(q \<mapsto> b)) p n"
  by (simp add: mapped_def)

lemma mapped_Suc: "mapped m p (Suc n) \<longleftrightarrow> m p \<noteq> None \<and> mapped m (Suc p) n"
  unfolding mapped_def using less_Suc_eq_0_disj by auto

lemma mapped_last: "mapped m p (Suc n) \<longleftrightarrow> m (p + n) \<noteq> None \<and> mapped m p n"
  unfolding mapped_def using less_Suc_eq by auto

lemma store_mapped: "m p \<noteq> None \<Longrightarrow> store m p b = Some (m(p \<mapsto> b))"
  by (auto simp: store_def)

text \<open>The memory after a copy: \<open>bs\<close> at \<open>dest\<close>, everything else as before.\<close>

definition put :: "mem \<Rightarrow> ptr \<Rightarrow> u8 list \<Rightarrow> mem" where
  "put m p bs = (\<lambda>q. if p \<le> q \<and> q < p + length bs then Some (bs ! (q - p)) else m q)"

lemma bytes_put: "bytes (put m p bs) p bs"
  by (simp add: bytes_nth put_def)

lemma put_Nil [simp]: "put m p [] = m"
  by (auto simp: put_def fun_eq_iff)

lemma put_Cons: "put (m(p \<mapsto> b)) (Suc p) bs = put m p (b # bs)"
proof (rule ext)
  fix q show "put (m(p \<mapsto> b)) (Suc p) bs q = put m p (b # bs) q"
    by (cases "q = p") (auto simp: put_def nth_Cons')
qed

lemma put_snoc: "put (m(p + length bs \<mapsto> b)) p bs = put m p (bs @ [b])"
  by (auto simp: put_def fun_eq_iff nth_append)

lemma put_append: "put (put m p xs) (p + length xs) ys = put m p (xs @ ys)"
  by (auto simp: put_def fun_eq_iff nth_append)

text \<open>Forwards the source may overlap the destination from above, backwards from below.\<close>

lemma movsb_fwd_put:
  "bytes m src bs \<Longrightarrow> mapped m dest (length bs) \<Longrightarrow> dest \<le> src \<or> src + length bs \<le> dest \<Longrightarrow>
   movsb_fwd m dest src (length bs) = Some (put m dest bs)"
proof (induction bs arbitrary: m dest src)
  case (Cons b bs)
  have st: "store m dest b = Some (m(dest \<mapsto> b))"
    using Cons.prems(2) by (simp add: store_mapped mapped_Suc)
  have "movsb_fwd (m(dest \<mapsto> b)) (Suc dest) (Suc src) (length bs) = Some (put (m(dest \<mapsto> b)) (Suc dest) bs)"
    using Cons.IH [of "m(dest \<mapsto> b)" "Suc src" "Suc dest"] Cons.prems
    by (auto simp: mapped_Suc simp del: fun_upd_apply)
  then show ?case
    using Cons.prems(1) st by (simp add: put_Cons)
qed simp

lemma movsb_bwd_put:
  "bytes m src bs \<Longrightarrow> mapped m dest (length bs) \<Longrightarrow> src \<le> dest \<or> dest + length bs \<le> src \<Longrightarrow>
   movsb_bwd m (dest + length bs - 1) (src + length bs - 1) (length bs) = Some (put m dest bs)"
proof (induction bs arbitrary: m rule: rev_induct)
  case (snoc b bs)
  let ?m = "m(dest + length bs \<mapsto> b)"
  have "m (src + length bs) = Some b" "m (dest + length bs) \<noteq> None"
    using snoc.prems(1,2) by (simp_all add: bytes_append mapped_last)
  moreover have "movsb_bwd ?m (dest + length bs - 1) (src + length bs - 1) (length bs) = Some (put ?m dest bs)"
    using snoc.IH [of ?m] snoc.prems by (auto simp: bytes_append mapped_last simp del: fun_upd_apply)
  ultimately show ?case
    by (simp add: store_mapped put_snoc)
qed simp

lemma memcpy_put:
  "bytes m src bs \<Longrightarrow> mapped m dest (length bs) \<Longrightarrow> dest \<le> src \<or> src + length bs \<le> dest \<Longrightarrow>
   memcpy m dest src (length bs) = Some (put m dest bs, dest)"
  by (simp add: memcpy_def movsb_fwd_put)

lemma stosb_put: "mapped m s n \<Longrightarrow> stosb m s c n = Some (put m s (replicate n c))"
proof (induction n arbitrary: m s)
  case (Suc n)
  have "stosb (m(s \<mapsto> c)) (Suc s) c n = Some (put (m(s \<mapsto> c)) (Suc s) (replicate n c))"
    using Suc.IH [of "m(s \<mapsto> c)" "Suc s"] Suc.prems by (simp add: mapped_Suc del: fun_upd_apply)
  then show ?case
    using Suc.prems by (simp add: store_mapped mapped_Suc put_Cons)
qed simp

lemma put_same: "bytes m p bs \<Longrightarrow> put m p bs = m"
  by (auto simp: put_def fun_eq_iff bytes_nth) (metis le_add_diff_inverse nat_add_left_cancel_less)

text \<open>C16: \<open>memmove\<close> copies the source bytes to the destination however the two regions overlap and
  changes no other byte. It returns the destination only when source and destination coincide.\<close>

theorem memmove_correct:
  assumes "bytes m src bs" and "mapped m dest (length bs)"
  shows "memmove m dest src (length bs) =
    Some (put m dest bs, if src = dest then dest else if src > dest then dest + length bs else dest - 1)"
proof -
  consider "src = dest" | "src > dest" | "src < dest" by linarith
  then show ?thesis
  proof cases
    case 1
    then show ?thesis using assms(1) by (simp add: memmove_def put_same)
  next
    case 2
    then show ?thesis using movsb_fwd_put [OF assms] by (simp add: memmove_def)
  next
    case 3
    then show ?thesis using movsb_bwd_put [OF assms] by (simp add: memmove_def)
  qed
qed

theorem memmove_correct_witness:
  "memmove [0 \<mapsto> 1, 1 \<mapsto> 2, 2 \<mapsto> 3, 3 \<mapsto> 4] 1 0 3 =
     Some (put [0 \<mapsto> 1, 1 \<mapsto> 2, 2 \<mapsto> 3, 3 \<mapsto> 4] 1 [1, 2, 3], 0)"
  using memmove_correct [of "[0 \<mapsto> 1, 1 \<mapsto> 2, 2 \<mapsto> 3, 3 \<mapsto> 4]" 0 "[1, 2, 3]" 1]
  by (simp add: mapped_def numeral_3_eq_3 less_Suc_eq)

subsection \<open>String copies\<close>

lemma strcpy_put:
  assumes "cstr m src s" and "mapped m dest (length s + 1)"
    and "dest \<le> src \<or> src + length s < dest"
  shows "strcpy m dest src = Some (put m dest (s @ [0]), dest)"
  using memcpy_put [of m src "s @ [0]" dest] assms
  by (auto simp: strcpy_def strlen_cstr cstr_def)

lemma cstr_put: "0 \<notin> set s \<Longrightarrow> cstr (put m p (s @ [0])) p s"
  by (simp add: cstr_def bytes_put)

lemma cstr_put_other:
  "q + length t < p \<or> p + length bs \<le> q \<Longrightarrow> cstr (put m p bs) q t \<longleftrightarrow> cstr m q t"
  by (rule cstr_cong) (auto simp: put_def)

lemma bytes_put_other:
  "q + length t \<le> p \<or> p + length bs \<le> q \<Longrightarrow> bytes (put m p bs) q t \<longleftrightarrow> bytes m q t"
  by (rule bytes_cong) (auto simp: put_def)

text \<open>C36: \<open>strcat\<close> appends: when the destination has room and the source lies outside it, the
  destination afterwards holds the concatenation of the two strings, the source is unchanged and
  no byte outside the appended part is written.\<close>

theorem strcat_correct:
  assumes "cstr m s1 a" and "cstr m s2 b" and "mapped m (s1 + length a) (length b + 1)"
    and "s2 + length b < s1 \<or> s1 + length a + length b < s2"
  shows "\<exists>m'. strcat m s1 s2 = Some (m', s1) \<and> cstr m' s1 (a @ b) \<and> cstr m' s2 b \<and>
    (\<forall>q. q < s1 + length a \<or> s1 + length a + length b < q \<longrightarrow> m' q = m q)"
proof -
  let ?d = "s1 + length a"
  let ?m = "put m ?d (b @ [0])"
  have "strcpy m ?d s2 = Some (?m, ?d)"
    using assms by (intro strcpy_put) auto
  then have "strcat m s1 s2 = Some (?m, s1)"
    using assms(1) by (simp add: strcat_def strlen_cstr)
  moreover have "bytes ?m s1 a" "0 \<notin> set a" "0 \<notin> set b"
    using assms(1,2) by (simp_all add: bytes_put_other cstr_def bytes_append)
  then have "cstr ?m s1 (a @ b)"
    by (simp add: cstr_append cstr_put)
  moreover have "cstr ?m s2 b"
    using assms(2,4) by (subst cstr_put_other) auto
  moreover have "\<forall>q. q < ?d \<or> ?d + length b < q \<longrightarrow> ?m q = m q"
    by (simp add: put_def)
  ultimately show ?thesis by blast
qed

theorem strcat_correct_witness:
  "\<exists>m'. strcat [1 \<mapsto> 65, 2 \<mapsto> 0, 3 \<mapsto> 7, 5 \<mapsto> 66, 6 \<mapsto> 0] 1 5 = Some (m', 1) \<and> cstr m' 1 [65, 66]"
  using strcat_correct [of "[1 \<mapsto> 65, 2 \<mapsto> 0, 3 \<mapsto> 7, 5 \<mapsto> 66, 6 \<mapsto> 0]" 1 "[65]" 5 "[66]"]
  by (auto simp: cstr_def mapped_def less_Suc_eq)

subsection \<open>Comparison\<close>

text \<open>The order the routine implements: lexicographic on the signed values, terminator included.\<close>

definition compare :: "u8 list \<Rightarrow> u8 list \<Rightarrow> int" where
  "compare s t =
     (if s = t then 0 else if map sint (s @ [0]) < map sint (t @ [0]) then - 1 else 1)"

lemma sint_eq_iff: "sint a = sint b \<longleftrightarrow> a = b" for a b :: u8
  using signed_word_eqI [of a b] by auto

lemma sint_0_iff: "sint a = 0 \<longleftrightarrow> a = 0" for a :: u8
  using sint_eq_iff [of a 0] by simp

lemma strcmp_loop_compare:
  "cstr m (p + i) s \<Longrightarrow> cstr m (q + i) t \<Longrightarrow> strcmp_loop m p q i = Some (compare s t)"
proof (induction s arbitrary: i t)
  case Nil
  then show ?case
    by (subst strcmp_loop.simps, cases t) (auto simp: mem_simps compare_def sint_eq_iff sint_0_iff)
next
  case (Cons c s)
  show ?case
  proof (cases t)
    case Nil
    then show ?thesis
      using Cons.prems by (subst strcmp_loop.simps) (auto simp: mem_simps compare_def sint_eq_iff sint_0_iff)
  next
    case t: (Cons d t')
    have IH: "strcmp_loop m p q (i + 1) = Some (compare s t')" if "c = d"
      using Cons.IH [of "i + 1" t'] Cons.prems that t by (simp add: mem_simps)
    show ?thesis
      using Cons.prems t IH
      by (subst strcmp_loop.simps) (auto simp: mem_simps compare_def sint_eq_iff sint_0_iff)
  qed
qed

text \<open>\<open>strcmp\<close> of two strings ends; it returns zero exactly for equal strings and otherwise the
  sign of the lexicographic order of the characters read as signed \<open>char\<close>; swapping the
  arguments flips the sign.\<close>

theorem strcmp_correct:
  assumes "cstr m p s" and "cstr m q t"
  shows "strcmp m p q = Some (compare s t) \<and> strcmp m q p = Some (- compare s t) \<and>
    (strcmp m p q = Some 0 \<longleftrightarrow> s = t)"
proof -
  have inj: "map sint (s @ [0]) = map sint (t @ [0]) \<longleftrightarrow> s @ [0] = t @ [0]"
    by (rule inj_on_map_eq_map) (simp add: inj_on_def sint_eq_iff)
  then have "compare t s = - compare s t"
    unfolding compare_def by (auto dest: less_not_sym)
  then show ?thesis
    using strcmp_loop_compare [of m p 0 s q t] strcmp_loop_compare [of m q 0 t p s] assms
    by (auto simp: strcmp_def compare_def split: if_splits)
qed

theorem strcmp_correct_witness:
  "strcmp [1 \<mapsto> 0x61, 2 \<mapsto> 0, 3 \<mapsto> 0x80, 4 \<mapsto> 0] 1 3 = Some 1"
  using strcmp_correct [of "[1 \<mapsto> 0x61, 2 \<mapsto> 0, 3 \<mapsto> 0x80, 4 \<mapsto> 0]" 1 "[0x61]" 3 "[0x80]"]
  by (simp add: cstr_def compare_def)

subsection \<open>Search\<close>

definition occurs_at :: "u8 list \<Rightarrow> u8 list \<Rightarrow> nat \<Rightarrow> bool" where
  "occurs_at t s i \<longleftrightarrow> take (length t) (drop i s) = t"

lemma occurs_at_0: "occurs_at t s 0 \<longleftrightarrow> (\<exists>r. s = t @ r)"
  by (metis append_eq_conv_conj append_take_drop_id drop0 occurs_at_def)

lemma strstr_inner_spec:
  "cstr m ne t \<Longrightarrow> cstr m hs2 s \<Longrightarrow> m hs = Some h \<Longrightarrow> h \<noteq> 0 \<Longrightarrow>
   strstr_inner m hs ne hs2 = Some (if \<exists>r. s = t @ r then Some True else None)"
proof (induction t arbitrary: ne hs2 s)
  case Nil
  then show ?case
    by (subst strstr_inner.simps, cases s) (auto simp: mem_simps)
next
  case (Cons c t)
  then show ?case
    by (subst strstr_inner.simps, cases s) (auto simp: mem_simps)
qed

lemma strstr_loop_spec:
  "cstr m s2 t \<Longrightarrow> cstr m hs s \<Longrightarrow> t \<noteq> [] \<Longrightarrow>
   \<exists>p. strstr_loop m s2 hs = Some p \<and>
     (if \<exists>i. occurs_at t s i then p = hs + (LEAST i. occurs_at t s i) else p = NULL)"
proof (induction s arbitrary: hs)
  case Nil
  then show ?case
    by (subst strstr_loop.simps) (auto simp: mem_simps occurs_at_def)
next
  case (Cons c s)
  have inner: "strstr_inner m hs s2 hs = Some (if occurs_at t (c # s) 0 then Some True else None)"
    using strstr_inner_spec [of m s2 t hs "c # s" hs c] Cons.prems by (simp add: mem_simps occurs_at_0)
  have shift: "occurs_at t (c # s) (Suc i) \<longleftrightarrow> occurs_at t s i" for i
    by (simp add: occurs_at_def)
  show ?case
  proof (cases "occurs_at t (c # s) 0")
    case True
    then show ?thesis
      using Cons.prems inner by (subst strstr_loop.simps) (auto simp: mem_simps Least_eq_0)
  next
    case False
    obtain p where p: "strstr_loop m s2 (hs + 1) = Some p"
      "if \<exists>i. occurs_at t s i then p = hs + 1 + (LEAST i. occurs_at t s i) else p = NULL"
      using Cons.IH [of "hs + 1"] Cons.prems by (auto simp: mem_simps)
    have ex: "(\<exists>i. occurs_at t (c # s) i) \<longleftrightarrow> (\<exists>i. occurs_at t s i)"
      using False shift by (metis not0_implies_Suc)
    have least: "(LEAST i. occurs_at t (c # s) i) = Suc (LEAST i. occurs_at t s i)" if "occurs_at t s i" for i
      using that Least_Suc [of "occurs_at t (c # s)" "Suc i"] False shift by simp
    have "strstr_loop m s2 hs = Some p"
      using Cons.prems inner p(1) False by (subst strstr_loop.simps) (simp add: mem_simps)
    then show ?thesis
      using p(2) ex least by (auto split: if_splits)
  qed
qed

text \<open>C22: \<open>strstr\<close> ends and returns the first place where the second string occurs in the first, or
  \<open>NULL\<close> when there is none; an empty second string is found at the start.\<close>

theorem strstr_correct:
  assumes "cstr m s1 s" and "cstr m s2 t"
  shows "\<exists>p. strstr m s1 s2 = Some p \<and>
    (if \<exists>i. occurs_at t s i then p = s1 + (LEAST i. occurs_at t s i) else p = NULL)"
proof (cases t)
  case Nil
  then show ?thesis
    using assms by (auto simp: strstr_def mem_simps occurs_at_def)
next
  case (Cons d t')
  show ?thesis
  proof (cases s)
    case Nil
    then show ?thesis
      using assms Cons by (auto simp: strstr_def mem_simps occurs_at_def)
  next
    case (Cons c s')
    then show ?thesis
      using strstr_loop_spec [OF assms(2,1)] assms \<open>t = d # t'\<close> by (simp add: strstr_def mem_simps)
  qed
qed

theorem strstr_correct_witness:
  "strstr [11 \<mapsto> 65, 12 \<mapsto> 66, 13 \<mapsto> 67, 14 \<mapsto> 0, 17 \<mapsto> 66, 18 \<mapsto> 67, 19 \<mapsto> 0] 11 17 = Some 12"
proof -
  let ?m = "[11 \<mapsto> 65, 12 \<mapsto> 66, 13 \<mapsto> 67, 14 \<mapsto> 0, 17 \<mapsto> 66, 18 \<mapsto> 67, 19 \<mapsto> (0::u8)]"
  have at: "occurs_at [66, 67::u8] [65, 66, 67] 1" "\<not> occurs_at [66, 67::u8] [65, 66, 67] 0"
    by (simp_all add: occurs_at_def)
  have least: "(LEAST i. occurs_at [66, 67::u8] [65, 66, 67] i) = 1"
    by (rule Least_equality, rule at(1)) (metis at(2) less_one not_le)
  have "cstr ?m 11 [65, 66, 67]" "cstr ?m 17 [66, 67]"
    by (simp_all add: cstr_def)
  then show ?thesis
    using strstr_correct [of ?m 11 "[65, 66, 67]" 17 "[66, 67]"] at(1) least
    by (auto split: if_splits)
qed

text \<open>The inner loop of \<open>memmem\<close> compares; the outer one stops one position early.\<close>

lemma memmem_match_bytes:
  "bytes m (hs + j) as \<Longrightarrow> bytes m (ne + j) bs \<Longrightarrow> length as = length bs \<Longrightarrow>
   memmem_match m hs ne (j + length bs) j = Some (as = bs)"
proof (induction as arbitrary: bs j)
  case Nil
  then show ?case by (subst memmem_match.simps) simp
next
  case (Cons a as)
  obtain b bs' where bs: "bs = b # bs'" using Cons.prems(3) by (cases bs) auto
  have "memmem_match m hs ne (j + 1 + length bs') (j + 1) = Some (as = bs')"
    using Cons.IH [of "j + 1" bs'] Cons.prems bs by simp
  then show ?case
    using Cons.prems bs by (subst memmem_match.simps) simp
qed

lemma memmem_loop_spec:
  assumes "bytes m hs s" and "bytes m ne t" and "length t \<le> length s"
  shows "i \<le> length s - length t \<Longrightarrow>
    \<exists>p. memmem_loop m hs (length s) ne (length t) i = Some p \<and>
      (if \<exists>j. i \<le> j \<and> j < length s - length t \<and> occurs_at t s j
       then p = hs + (LEAST j. i \<le> j \<and> j < length s - length t \<and> occurs_at t s j) else p = NULL)"
proof (induction "length s - length t - i" arbitrary: i)
  case 0
  then show ?case by (subst memmem_loop.simps) auto
next
  case (Suc k)
  then have i: "i < length s - length t" by simp
  have "bytes m (hs + i) (take (length t) (drop i s))"
    using assms(1) by (auto simp: bytes_nth add.assoc)
  then have match: "memmem_match m (hs + i) ne (length t) 0 = Some (occurs_at t s i)"
    using memmem_match_bytes [of m "hs + i" 0 "take (length t) (drop i s)" ne t] assms(2) i
    by (simp add: occurs_at_def)
  let ?P = "\<lambda>i j. i \<le> j \<and> j < length s - length t \<and> occurs_at t s j"
  show ?case
  proof (cases "occurs_at t s i")
    case True
    then have "(LEAST j. ?P i j) = i"
      using i by (intro Least_equality) auto
    then show ?thesis
      using True i match by (subst memmem_loop.simps) auto
  next
    case False
    then have eq: "?P i j \<longleftrightarrow> ?P (i + 1) j" for j
      by (cases "j = i") auto
    show ?thesis
      using Suc.hyps(1) [of "i + 1"] Suc.hyps(2) i match False unfolding eq
      by (subst memmem_loop.simps) simp
  qed
qed

text \<open>\<open>memmem\<close> returns the first occurrence among the positions before \<open>haystacklen - needlelen\<close>;
  an occurrence at that last position, such as a needle equal to the haystack, is not found.\<close>

theorem memmem_spec:
  assumes "bytes m hs s" and "bytes m ne t" and "t \<noteq> []" and "length t \<le> length s"
  shows "\<exists>p. memmem m hs (length s) ne (length t) = Some p \<and>
    (if \<exists>j < length s - length t. occurs_at t s j
     then p = hs + (LEAST j. j < length s - length t \<and> occurs_at t s j) else p = NULL)"
  using memmem_loop_spec [OF assms(1,2,4), of 0] assms(3,4) by (auto simp: memmem_def split: if_splits)

theorem memmem_spec_witness:
  "memmem [11 \<mapsto> 65, 12 \<mapsto> 66, 21 \<mapsto> 66] 11 2 21 1 = Some NULL \<and> occurs_at [66::u8] [65, 66] 1"
  using memmem_spec [of "[11 \<mapsto> 65, 12 \<mapsto> 66, 21 \<mapsto> 66]" 11 "[65, 66]" 21 "[66]"]
  by (simp add: occurs_at_def numeral_2_eq_2)

end
