(* ===== verification/CNum.thy ===== *)
theory CNum
  imports CString_Props
begin

text \<open>
  Numbers and text: the \<open>itoa\<close> family of \<open>libc/src/string.c\<close> and the \<open>strto\<close> family of
  \<open>libc/src/stdlib_strto.c\<close>. The printing routines write into byte memory; the parsers return the
  number, the end pointer and the error number they set, if any. Signed overflow in \<open>strtoll\<close> is
  undefined and therefore \<open>None\<close>.
\<close>

subsection \<open>Printing\<close>

partial_function (option) itoa_digits ::
  "(nat \<Rightarrow> u8) \<Rightarrow> nat \<Rightarrow> mem \<Rightarrow> nat \<Rightarrow> ptr \<Rightarrow> nat \<Rightarrow> (mem \<times> nat) option" where
  "itoa_digits digit base m num out ctr =
     do { m \<leftarrow> store m (out + ctr) (digit (num mod base));
          if num div base = 0 then Some (m, ctr)
          else itoa_digits digit base m (num div base) out (ctr + 1) }"

partial_function (option) itoa_reverse :: "mem \<Rightarrow> ptr \<Rightarrow> nat \<Rightarrow> nat \<Rightarrow> mem option" where
  "itoa_reverse m out ctr i =
     (if i \<le> ctr div 2
      then do { temp \<leftarrow> m (out + i);
                c \<leftarrow> m (out + (ctr - i));
                m \<leftarrow> store m (out + i) c;
                m \<leftarrow> store m (out + (ctr - i)) temp;
                itoa_reverse m out ctr (i + 1) }
      else Some m)"

definition itoa_base :: "(nat \<Rightarrow> u8) \<Rightarrow> nat \<Rightarrow> mem \<Rightarrow> nat \<Rightarrow> ptr \<Rightarrow> mem option" where
  "itoa_base digit base m num out =
     do { (m, ctr) \<leftarrow> itoa_digits digit base m num out 0;
          m \<leftarrow> itoa_reverse m out ctr 0;
          store m (out + ctr + 1) 0 }"

definition dec_digit :: "nat \<Rightarrow> u8" where
  "dec_digit d = 48 + of_nat d"

definition get_nibble :: "nat \<Rightarrow> u8" where
  "get_nibble d = (if d \<ge> 10 then 65 + of_nat d - 10 else 48 + of_nat d)"

definition itoaud :: "mem \<Rightarrow> u64 \<Rightarrow> ptr \<Rightarrow> mem option" where
  "itoaud m num out = itoa_base dec_digit 10 m (unat num) out"

definition itoad :: "mem \<Rightarrow> u64 \<Rightarrow> ptr \<Rightarrow> mem option" where
  "itoad m num out =
     (if num AND push_bit 63 1 \<noteq> 0
      then do { m \<leftarrow> store m out 45; itoa_base dec_digit 10 m (unat (num * - 1)) (out + 1) }
      else itoa_base dec_digit 10 m (unat num) out)"

definition itoax :: "mem \<Rightarrow> u64 \<Rightarrow> ptr \<Rightarrow> mem option" where
  "itoax m num out = itoa_base get_nibble 16 m (unat num) out"

definition itoao :: "mem \<Rightarrow> u32 \<Rightarrow> ptr \<Rightarrow> mem option" where
  "itoao m num out = itoa_base dec_digit 8 m (unat num) out"

subsection \<open>Parsing\<close>

definition strto_get_value :: "int \<Rightarrow> int" where
  "strto_get_value c =
     (if isdigit c then c - 48 else if \<not> isalpha c then - 1 else tolower c - 97 + 10)"

partial_function (option) skip_space :: "mem \<Rightarrow> ptr \<Rightarrow> ptr option" where
  "skip_space m p = do { c \<leftarrow> m p; if isspace (sint c) then skip_space m (p + 1) else Some p }"

text \<open>\<open>strcmp(iter, lit) == 0\<close> for a string literal.\<close>

fun rest_is :: "mem \<Rightarrow> ptr \<Rightarrow> u8 list \<Rightarrow> bool option" where
  "rest_is m p [] = do { a \<leftarrow> m p; Some (a = 0) }"
| "rest_is m p (c # cs) = do { a \<leftarrow> m p; if a = c then rest_is m (p + 1) cs else Some False }"

text \<open>The sign, the base and the prefix: \<open>None\<close> inside is the jump to \<open>invalid_arg\<close>.\<close>

definition strto_start :: "mem \<Rightarrow> ptr \<Rightarrow> int \<Rightarrow> (ptr \<times> bool \<times> int) option option" where
  "strto_start m start base =
     (if base < 0 \<or> base > 36 \<or> base = 1 \<or> start = NULL then Some None
      else do {
        c0 \<leftarrow> m start;
        if c0 = 0 then Some None
        else do {
          iter \<leftarrow> skip_space m start;
          c \<leftarrow> m iter;
          if c = 0 then Some None
          else do {
            let neg = (c = 45);
            let iter = (if c = 45 \<or> c = 43 then iter + 1 else iter);
            d \<leftarrow> m iter;
            if base = 0 \<and> \<not> isdigit (sint d) then Some None
            else do {
              (iter, base) \<leftarrow>
                (if base = 0
                 then if d \<noteq> 48 then Some (iter, 10)
                      else do { x \<leftarrow> m (iter + 1);
                                if tolower (sint x) = 120 then Some (iter + 2, 16)
                                else Some (iter + 1, 8) }
                 else Some (iter, base));
              lit \<leftarrow> (if base = 16
                     then do { a \<leftarrow> rest_is m iter [48, 120];
                               if a then Some True else rest_is m iter [48, 88] }
                     else Some False);
              Some (Some (if lit then iter + 2 else iter, neg, base)) } } } })"

partial_function (option) strtoull_loop ::
  "mem \<Rightarrow> int \<Rightarrow> ptr \<Rightarrow> u64 \<Rightarrow> errno option \<Rightarrow> (u64 \<times> ptr \<times> errno option) option" where
  "strtoull_loop m base iter acc err =
     do { c \<leftarrow> m iter;
          if isalnum (sint c)
          then do {
            let v = strto_get_value (sint c);
            if v = - 1 \<or> v \<ge> base then Some (acc, iter, err)
            else if acc * of_int base + of_int v < acc
            then strtoull_loop m base (iter + 1) (- 1) (Some ERANGE)
            else strtoull_loop m base (iter + 1) (acc * of_int base + of_int v) err }
          else Some (acc, iter, err) }"

definition strtoull :: "mem \<Rightarrow> ptr \<Rightarrow> int \<Rightarrow> (u64 \<times> ptr \<times> errno option) option" where
  "strtoull m start base =
     do { st \<leftarrow> strto_start m start base;
          case st of
            None \<Rightarrow> Some (0, start, Some EINVAL)
          | Some (iter, neg, base) \<Rightarrow>
              do { (acc, iter, err) \<leftarrow> strtoull_loop m base iter 0 None;
                   Some (if neg then - acc else acc, iter, err) } }"

definition strtoul :: "mem \<Rightarrow> ptr \<Rightarrow> int \<Rightarrow> (u32 \<times> ptr \<times> errno option) option" where
  "strtoul m start base =
     do { (v, e, err) \<leftarrow> strtoull m start base;
          if v > 0xFFFFFFFF then Some (- 1, e, Some ERANGE) else Some (ucast v, e, err) }"

definition LLONG_MAX :: int where "LLONG_MAX = 2 ^ 63 - 1"

definition in_llong :: "int \<Rightarrow> bool" where
  "in_llong x \<longleftrightarrow> - (2 ^ 63) \<le> x \<and> x \<le> LLONG_MAX"

partial_function (option) strtoll_loop ::
  "mem \<Rightarrow> int \<Rightarrow> ptr \<Rightarrow> int \<Rightarrow> errno option \<Rightarrow> (int \<times> ptr \<times> errno option) option" where
  "strtoll_loop m base iter acc err =
     do { c \<leftarrow> m iter;
          if isalnum (sint c)
          then do {
            let v = strto_get_value (sint c);
            if v = - 1 \<or> v \<ge> base then Some (acc, iter, err)
            else if \<not> in_llong (acc * base) \<or> \<not> in_llong (acc * base + v) then None
            else if acc * base + v < acc
            then strtoll_loop m base (iter + 1) LLONG_MAX (Some ERANGE)
            else strtoll_loop m base (iter + 1) (acc * base + v) err }
          else Some (acc, iter, err) }"

definition strtoll :: "mem \<Rightarrow> ptr \<Rightarrow> int \<Rightarrow> (int \<times> ptr \<times> errno option) option" where
  "strtoll m start base =
     do { st \<leftarrow> strto_start m start base;
          case st of
            None \<Rightarrow> Some (0, start, Some EINVAL)
          | Some (iter, neg, base) \<Rightarrow>
              do { (acc, iter, err) \<leftarrow> strtoll_loop m base iter 0 None;
                   Some (if neg then - acc else acc, iter, err) } }"

definition strtol :: "mem \<Rightarrow> ptr \<Rightarrow> int \<Rightarrow> (int \<times> ptr \<times> errno option) option" where
  "strtol m start base =
     do { (v, e, err) \<leftarrow> strtoll m start base;
          if v > 2 ^ 31 - 1 then Some (2 ^ 31 - 1, e, Some ERANGE)
          else if v < - (2 ^ 31) then Some (- (2 ^ 31), e, Some ERANGE)
          else Some (v, e, err) }"

definition atoll :: "mem \<Rightarrow> ptr \<Rightarrow> int option" where
  "atoll m nptr =
     do { (v, e, err) \<leftarrow> strtoll m nptr 0; Some (if err \<noteq> None then 0 else v) }"

definition atol :: "mem \<Rightarrow> ptr \<Rightarrow> int option" where
  "atol m nptr = do { v \<leftarrow> atoll m nptr; Some (sint (word_of_int v :: u32)) }"

definition atoi :: "mem \<Rightarrow> ptr \<Rightarrow> int option" where
  "atoi m nptr = do { v \<leftarrow> atoll m nptr; Some (sint (word_of_int v :: u32)) }"

subsection \<open>Digits\<close>

text \<open>The reference: the digits of a number in a base, most significant first, and their value.\<close>

function digits :: "nat \<Rightarrow> nat \<Rightarrow> nat list" where
  "digits b n = (if b < 2 \<or> n < b then [n] else digits b (n div b) @ [n mod b])"
  by pat_completeness auto
termination by (relation "measure snd") auto

declare digits.simps [simp del]

definition number :: "nat \<Rightarrow> nat list \<Rightarrow> nat" where
  "number b ds = foldl (\<lambda>acc d. acc * b + d) 0 ds"

lemma number_snoc [simp]: "number b (ds @ [d]) = number b ds * b + d"
  by (simp add: number_def)

lemma number_digits: "2 \<le> b \<Longrightarrow> number b (digits b n) = n"
proof (induction b n rule: digits.induct)
  case (1 b n)
  then show ?case
    by (subst digits.simps) (auto simp: number_def)
qed

lemma digits_less: "2 \<le> b \<Longrightarrow> d \<in> set (digits b n) \<Longrightarrow> d < b"
proof (induction b n rule: digits.induct)
  case (1 b n)
  then show ?case
    by (subst (asm) (2) digits.simps) (auto split: if_splits)
qed

lemma digits_neq_Nil [simp]: "digits b n \<noteq> []"
  by (subst digits.simps) simp

subsection \<open>Printing is correct\<close>

lemma put_single: "put m p [x] = m(p \<mapsto> x)"
  by (auto simp: put_def fun_eq_iff)

lemma itoa_digits_put:
  assumes "2 \<le> b"
  shows "mapped m (out + ctr) (length (digits b num)) \<Longrightarrow>
    itoa_digits digit b m num out ctr =
      Some (put m (out + ctr) (map digit (rev (digits b num))), ctr + length (digits b num) - 1)"
  using assms
proof (induction b num arbitrary: m ctr rule: digits.induct)
  case (1 b n)
  show ?case
  proof (cases "n < b")
    case True
    then have "digits b n = [n]"
      by (subst digits.simps) simp
    then show ?thesis
      using 1(2) True by (subst itoa_digits.simps) (simp add: mapped_def store_mapped put_single)
  next
    case False
    then have ds: "digits b n = digits b (n div b) @ [n mod b]"
      using 1(3) by (subst digits.simps) simp
    let ?m = "m(out + ctr \<mapsto> digit (n mod b))"
    have st: "store m (out + ctr) (digit (n mod b)) = Some ?m"
      using 1(2) ds by (simp add: store_mapped mapped_Suc)
    have "mapped m (out + (ctr + 1)) (length (digits b (n div b)))"
      using 1(2) ds by (simp add: mapped_Suc)
    then have "itoa_digits digit b ?m (n div b) out (ctr + 1) =
        Some (put ?m (out + (ctr + 1)) (map digit (rev (digits b (n div b)))),
          ctr + 1 + length (digits b (n div b)) - 1)"
      using 1(1) [of ?m "ctr + 1"] False 1(3) by (simp del: fun_upd_apply)
    then show ?thesis
      using st False 1(3) ds
      by (subst itoa_digits.simps) (simp add: put_Cons div_eq_0_iff)
  qed
qed

lemma itoa_reverse_put:
  assumes "length xs = ctr + 1" and "i \<le> ctr div 2 + 1"
    and "\<And>j. j \<le> ctr \<Longrightarrow> m (out + j) = Some (if j < i \<or> ctr - i < j then xs ! (ctr - j) else xs ! j)"
  shows "itoa_reverse m out ctr i = Some (put m out (rev xs))"
  using assms(2,3)
proof (induction "ctr div 2 + 1 - i" arbitrary: i m)
  case 0
  then have i: "i = ctr div 2 + 1" by simp
  have "m (out + j) = Some (xs ! (ctr - j))" if "j \<le> ctr" for j
    using 0(3) [OF that] that i by (auto split: if_splits)
  then have "bytes m out (rev xs)"
    using assms(1) by (simp add: bytes_nth rev_nth less_Suc_eq_le)
  then show ?case
    using i by (subst itoa_reverse.simps) (simp add: put_same)
next
  case (Suc k)
  then have i: "i \<le> ctr div 2" "i \<le> ctr" "ctr - i \<le> ctr" "i \<le> ctr - i" by simp_all
  let ?m1 = "m(out + i \<mapsto> xs ! (ctr - i))"
  let ?m2 = "?m1(out + (ctr - i) \<mapsto> xs ! i)"
  have a: "m (out + i) = Some (xs ! i)" "m (out + (ctr - i)) = Some (xs ! (ctr - i))"
    using Suc.prems(2) [OF i(2)] Suc.prems(2) [OF i(3)] i(4) by simp_all
  have "?m2 (out + j) = Some (if j < i + 1 \<or> ctr - (i + 1) < j then xs ! (ctr - j) else xs ! j)"
    if "j \<le> ctr" for j
  proof -
    consider "j = ctr - i" | "j = i" "j \<noteq> ctr - i" | "j \<noteq> i" "j \<noteq> ctr - i" by blast
    then show ?thesis
    proof cases
      case 1
      then show ?thesis using i by auto
    next
      case 2
      then have "out + i \<noteq> out + (ctr - i)" by simp
      then show ?thesis using 2 i by simp
    next
      case 3
      then have "?m2 (out + j) = m (out + j)" by simp
      moreover have "j < i + 1 \<or> ctr - (i + 1) < j \<longleftrightarrow> j < i \<or> ctr - i < j"
        using 3 i by linarith
      ultimately show ?thesis
        using Suc.prems(2) [OF that] by simp
    qed
  qed
  then have "itoa_reverse ?m2 out ctr (i + 1) = Some (put ?m2 out (rev xs))"
    using Suc.hyps(1) [of "i + 1" ?m2] Suc.hyps(2) i(1) by simp
  moreover have "put ?m2 out (rev xs) = put m out (rev xs)"
    using assms(1) i by (auto simp: put_def fun_eq_iff)
  moreover have "store m (out + i) (xs ! (ctr - i)) = Some ?m1"
    "store ?m1 (out + (ctr - i)) (xs ! i) = Some ?m2"
    using a by (simp_all add: store_mapped)
  ultimately show ?case
    using i(1) a by (subst itoa_reverse.simps) simp
qed

lemma itoa_base_put:
  assumes "2 \<le> b" and "mapped m out (length (digits b num) + 1)"
  shows "itoa_base digit b m num out = Some (put m out (map digit (digits b num) @ [0]))"
proof -
  let ?ds = "digits b num"
  let ?xs = "map digit (rev ?ds)"
  let ?m1 = "put m out ?xs"
  obtain k where k: "length ?ds = Suc k"
    by (cases ?ds) auto
  have m0: "mapped m out (length ?ds)" "m (out + length ?ds) \<noteq> None"
    using assms(2) by (simp_all add: mapped_last)
  have d: "itoa_digits digit b m num out 0 = Some (?m1, k)"
    using itoa_digits_put [OF assms(1), of m out 0 num digit] m0(1) k by simp
  have "bytes ?m1 out ?xs"
    by (rule bytes_put)
  then have "itoa_reverse ?m1 out k 0 = Some (put ?m1 out (rev ?xs))"
    using k by (intro itoa_reverse_put) (auto simp: bytes_nth)
  moreover have "put ?m1 out (rev ?xs) = put m out (map digit ?ds)"
    by (auto simp: put_def fun_eq_iff rev_map)
  ultimately have r: "itoa_reverse ?m1 out k 0 = Some (put m out (map digit ?ds))"
    by simp
  have "(put m out (map digit ?ds)) (out + length ?ds) \<noteq> None"
    using m0(2) by (simp add: put_def)
  then have "store (put m out (map digit ?ds)) (out + k + 1) 0 = Some (put m out (map digit ?ds @ [0]))"
    using k put_append [of m out "map digit ?ds" "[0]"] by (simp add: store_mapped put_single)
  then show ?thesis
    using d r by (simp add: itoa_base_def)
qed

lemma digits_length: "2 \<le> b \<Longrightarrow> n < b ^ Suc k \<Longrightarrow> length (digits b n) \<le> Suc k"
proof (induction k arbitrary: n)
  case 0
  then show ?case by (subst digits.simps) simp
next
  case (Suc k)
  have "n div b < b ^ Suc k" using Suc.prems by (simp add: less_mult_imp_div_less mult.commute)
  from Suc.IH [OF Suc.prems(1) this] show ?case by (subst digits.simps) simp
qed

lemma digits_lead: "2 \<le> b \<Longrightarrow> hd (digits b n) = 0 \<Longrightarrow> digits b n = [0]"
proof (induction b n rule: digits.induct)
  case (1 b n)
  show ?case
  proof (cases "n < b")
    case True
    then have "digits b n = [n]" by (simp add: digits.simps [of b n])
    with "1.prems"(2) show ?thesis by simp
  next
    case False
    then have ds: "digits b n = digits b (n div b) @ [n mod b]"
      using "1.prems"(1) by (simp add: digits.simps [of b n])
    with "1.prems"(2) have "hd (digits b (n div b)) = 0" by simp
    with "1.IH" False "1.prems"(1) have "digits b (n div b) = [0]" by simp
    with number_digits [of b "n div b"] "1.prems"(1) have "n div b = 0" by (simp add: number_def)
    with False "1.prems"(1) show ?thesis by (simp add: div_eq_0_iff)
  qed
qed

text \<open>\<open>numeral_of b n s\<close>: the characters \<open>s\<close> are the numeral of \<open>n\<close> in base \<open>b\<close>, most significant digit
  first, without leading zeros and with upper-case letters.\<close>

definition numeral_of :: "nat \<Rightarrow> nat \<Rightarrow> u8 list \<Rightarrow> bool" where
  "numeral_of b n s \<longleftrightarrow> (\<exists>ds. s = map (\<lambda>d. of_char (''0123456789ABCDEF'' ! d)) ds \<and> ds \<noteq> [] \<and>
     (\<forall>d \<in> set ds. d < b) \<and> (hd ds = 0 \<longrightarrow> ds = [0]) \<and> number b ds = n)"

lemma digit_chars:
  "d < 10 \<Longrightarrow> dec_digit d = of_char (''0123456789ABCDEF'' ! d)"
  "d < 16 \<Longrightarrow> get_nibble d = of_char (''0123456789ABCDEF'' ! d)"
proof -
  have "list_all (\<lambda>d. dec_digit d = of_char (''0123456789ABCDEF'' ! d)) [0..<10]"
    by (simp add: dec_digit_def upt_rec numeral_eq_Suc)
  then show "d < 10 \<Longrightarrow> dec_digit d = of_char (''0123456789ABCDEF'' ! d)" by (simp add: list_all_iff)
  have "list_all (\<lambda>d. get_nibble d = of_char (''0123456789ABCDEF'' ! d)) [0..<16]"
    by (simp add: get_nibble_def upt_rec numeral_eq_Suc)
  then show "d < 16 \<Longrightarrow> get_nibble d = of_char (''0123456789ABCDEF'' ! d)" by (simp add: list_all_iff)
qed

lemma itoa_base_numeral:
  assumes "2 \<le> b" and "n < b ^ Suc k" and "mapped m out (k + 2)"
    and "\<And>d. d < b \<Longrightarrow> digit d = of_char (''0123456789ABCDEF'' ! d)"
  shows "\<exists>s. numeral_of b n s \<and> itoa_base digit b m n out = Some (put m out (s @ [0]))"
proof -
  have "length (digits b n) + 1 \<le> k + 2" using digits_length [OF assms(1,2)] by simp
  then have "mapped m out (length (digits b n) + 1)" using assms(3) by (simp add: mapped_def)
  from itoa_base_put [OF assms(1) this, of digit]
  have "itoa_base digit b m n out = Some (put m out (map digit (digits b n) @ [0]))" .
  moreover have "map digit (digits b n) = map (\<lambda>d. of_char (''0123456789ABCDEF'' ! d)) (digits b n)"
    using assms(4) digits_less [OF assms(1)] by (intro map_cong) auto
  moreover have "numeral_of b n (map (\<lambda>d. of_char (''0123456789ABCDEF'' ! d)) (digits b n))"
    unfolding numeral_of_def
    using digits_less [OF assms(1)] digits_lead [OF assms(1)] number_digits [OF assms(1)] by (intro exI [of _ "digits b n"]) auto
  ultimately show ?thesis by metis
qed

lemma negative_word:
  fixes n :: u64
  shows "n AND push_bit 63 1 \<noteq> 0 \<longleftrightarrow> sint n < 0" and "sint n < 0 \<Longrightarrow> unat (n * - 1) = nat (- sint n)"
    and "\<not> sint n < 0 \<Longrightarrow> unat n = nat (sint n)"
proof -
  have m: "(push_bit 63 1 :: u64) = 2 ^ 63" by (simp add: push_bit_eq_mult)
  show "n AND push_bit 63 1 \<noteq> 0 \<longleftrightarrow> sint n < 0"
    unfolding m and_exp_eq_0_iff_not_bit using bit_last_iff [of n] by simp
  show "unat (n * - 1) = nat (- sint n)" if "sint n < 0"
  proof -
    have b: "- (2 ^ 63) \<le> sint n" using sint_greater_eq [of n] by simp
    have "n * - 1 = word_of_int (- sint n)" by simp
    then have "uint (n * - 1) = (- sint n) mod 2 ^ 64" by (simp only: uint_word_of_int) simp
    also have "\<dots> = - sint n" using that b by (intro mod_pos_pos_trivial) auto
    finally show ?thesis by (simp add: unat_eq_nat_uint)
  qed
  show "unat n = nat (sint n)" if "\<not> sint n < 0"
  proof -
    have "sint n < 2 ^ 63" using sint_less [of n] by simp
    moreover have "uint n = sint n mod 2 ^ 64"
      using uint_word_of_int [where 'a = 64, of "sint n"] by (simp only: of_int_sint) simp
    ultimately show ?thesis using that by (simp add: unat_eq_nat_uint)
  qed
qed

text \<open>C37: in a buffer of 22 bytes \<open>itoaud\<close>, \<open>itoad\<close>, \<open>itoax\<close> and \<open>itoao\<close> write the decimal numeral of their
  argument, the decimal numeral of its absolute value as a signed number behind a minus sign for a
  negative one, its hexadecimal and its octal numeral, each followed by a NUL, and write nothing
  else. A numeral is a string of the characters \<open>0\<close> to \<open>9\<close> and \<open>A\<close> to \<open>F\<close> without leading zeros whose
  value is the number.\<close>

theorem itoa_correct:
  assumes "mapped m out 22"
  shows "(\<exists>s. numeral_of 10 (unat n) s \<and> itoaud m n out = Some (put m out (s @ [0]))) \<and>
    (\<exists>s. numeral_of 10 (nat \<bar>sint n\<bar>) s \<and>
       itoad m n out = Some (put m out ((if sint n < 0 then [45] else []) @ s @ [0]))) \<and>
    (\<exists>s. numeral_of 16 (unat n) s \<and> itoax m n out = Some (put m out (s @ [0]))) \<and>
    (\<exists>s. numeral_of 8 (unat k) s \<and> itoao m k out = Some (put m out (s @ [0])))"
proof (intro conjI)
  have less: "unat x < 2 ^ 64" for x :: u64 using unsigned_less [of x] by simp
  have room: "mapped m out (19 + 2)" "mapped m out (15 + 2)" "mapped m out (10 + 2)"
    using assms by (simp_all add: mapped_def)
  have dec: "unat x < 10 ^ Suc 19" for x :: u64
    by (rule less_le_trans [OF less]) simp
  show "\<exists>s. numeral_of 10 (unat n) s \<and> itoaud m n out = Some (put m out (s @ [0]))"
    unfolding itoaud_def by (rule itoa_base_numeral [OF _ dec room(1)]) (simp_all add: digit_chars)
  show "\<exists>s. numeral_of 16 (unat n) s \<and> itoax m n out = Some (put m out (s @ [0]))"
    unfolding itoax_def by (rule itoa_base_numeral [OF _ less_le_trans [OF less] room(2)]) (simp_all add: digit_chars)
  have "unat k < 8 ^ Suc 10" by (rule less_le_trans [OF unsigned_less]) simp
  from itoa_base_numeral [OF _ this room(3), of dec_digit]
  show "\<exists>s. numeral_of 8 (unat k) s \<and> itoao m k out = Some (put m out (s @ [0]))"
    by (simp add: itoao_def digit_chars)
  show "\<exists>s. numeral_of 10 (nat \<bar>sint n\<bar>) s \<and>
      itoad m n out = Some (put m out ((if sint n < 0 then [45] else []) @ s @ [0]))"
  proof (cases "sint n < 0")
    case True
    have m: "m out \<noteq> None" "mapped (m(out \<mapsto> 45)) (out + 1) (19 + 2)"
      using assms mapped_Suc [of m out 21] by simp_all
    obtain s where "numeral_of 10 (unat (n * - 1)) s"
        "itoa_base dec_digit 10 (m(out \<mapsto> 45)) (unat (n * - 1)) (out + 1) = Some (put (m(out \<mapsto> 45)) (out + 1) (s @ [0]))"
      using itoa_base_numeral [OF _ dec m(2), of dec_digit "n * - 1"] by (auto simp: digit_chars)
    with True show ?thesis
      using negative_word(1,2) [of n] store_mapped [of m out 45] m(1)
      by (intro exI [of _ s]) (simp add: itoad_def put_Cons)
  next
    case False
    obtain s where "numeral_of 10 (unat n) s" "itoa_base dec_digit 10 m (unat n) out = Some (put m out (s @ [0]))"
      using itoa_base_numeral [OF _ dec room(1), of dec_digit n] by (auto simp: digit_chars)
    with False show ?thesis
      using negative_word(1,3) [of n] by (intro exI [of _ s]) (simp add: itoad_def)
  qed
qed

theorem itoa_correct_witness:
  "\<exists>s. numeral_of 10 42 s \<and>
     itoad (\<lambda>p. if p < 40 then Some 0 else None) (- 42) 7 = Some (put (\<lambda>p. if p < 40 then Some 0 else None) 7 (45 # s @ [0]))"
  using itoa_correct [of "\<lambda>p. if p < 40 then Some 0 else None" 7 "- 42" 0]
  by (simp add: mapped_def)

subsection \<open>Parsing is correct\<close>

text \<open>The character of a digit as the parsers read it.\<close>

definition digit_char :: "nat \<Rightarrow> u8" where
  "digit_char d = (if d < 10 then 48 + of_nat d else 97 + of_nat d - 10)"

lemma sint_digit_char: "d < 36 \<Longrightarrow> sint (digit_char d) = (if d < 10 then 48 + int d else 87 + int d)"
proof -
  assume d: "d < 36"
  have "digit_char d = of_nat (if d < 10 then 48 + d else 87 + d)"
    by (simp add: digit_char_def)
  then show ?thesis
    using d by (simp only: signed_of_nat) (simp add: signed_take_bit_int_eq_self)
qed

lemma digit_char_value:
  assumes "d < 36"
  shows "isalnum (sint (digit_char d))" "strto_get_value (sint (digit_char d)) = int d"
    "\<not> isspace (sint (digit_char d))" "digit_char d \<noteq> 0" "digit_char d \<noteq> 45" "digit_char d \<noteq> 43"
proof -
  have "sint (digit_char d) \<noteq> sint (0::u8)" "sint (digit_char d) \<noteq> sint (45::u8)" "sint (digit_char d) \<noteq> sint (43::u8)"
    using sint_digit_char [OF assms] by auto
  then show "digit_char d \<noteq> 0" "digit_char d \<noteq> 45" "digit_char d \<noteq> 43"
    by metis+
  show "isalnum (sint (digit_char d))" "strto_get_value (sint (digit_char d)) = int d"
    "\<not> isspace (sint (digit_char d))"
    using sint_digit_char [OF assms] assms
    by (simp_all add: isalnum_def isdigit_def isalpha_def islower_def isupper_def isspace_def
        strto_get_value_def tolower_def)
qed

lemma rest_is_cstr: "cstr m p s \<Longrightarrow> 0 \<notin> set lit \<Longrightarrow> rest_is m p lit = Some (s = lit)"
proof (induction lit arbitrary: p s)
  case Nil
  then show ?case by (cases s) (auto simp: mem_simps)
next
  case (Cons c lit)
  then show ?case by (cases s) (auto simp: mem_simps)
qed

definition number_from :: "nat \<Rightarrow> nat \<Rightarrow> nat list \<Rightarrow> nat" where
  "number_from b acc ds = foldl (\<lambda>acc d. acc * b + d) acc ds"

lemma number_from_simps [simp]:
  "number_from b acc [] = acc" "number_from b acc (d # ds) = number_from b (acc * b + d) ds"
  by (simp_all add: number_from_def)

lemma number_from_ge: "0 < b \<Longrightarrow> acc \<le> number_from b acc ds"
proof (induction ds arbitrary: acc)
  case (Cons d ds)
  have "acc \<le> acc * b + d" using Cons.prems by (cases b) auto
  also have "\<dots> \<le> number_from b (acc * b + d) ds" using Cons by blast
  finally show ?case by simp
qed simp

lemma strtoull_loop_prefix:
  assumes "2 \<le> b" "b \<le> 36"
  shows "bytes m p (map digit_char ds) \<Longrightarrow> (\<And>d. d \<in> set ds \<Longrightarrow> d < b) \<Longrightarrow> number_from b acc ds < 2 ^ 64 \<Longrightarrow>
    strtoull_loop m (int b) p (of_nat acc) err =
      strtoull_loop m (int b) (p + length ds) (of_nat (number_from b acc ds)) err"
proof (induction ds arbitrary: p acc)
  case Nil
  then show ?case by simp
next
  case (Cons d ds)
  let ?acc = "acc * b + d"
  have d: "d < b" "d < 36"
    using Cons.prems(2) [of d] assms(2) by simp_all
  have le: "acc \<le> ?acc" "?acc \<le> number_from b ?acc ds"
    using assms(1) number_from_ge [of b ?acc ds] by (cases b, auto)
  then have small: "acc < 2 ^ 64" "?acc < 2 ^ 64"
    using Cons.prems(3) by simp_all
  have word: "of_nat acc * of_int (int b) + of_int (int d) = (of_nat ?acc :: u64)"
    by simp
  have nless: "\<not> (of_nat ?acc :: u64) < of_nat acc"
    using small le(1) by (simp add: word_less_nat_alt unat_of_nat del: of_nat_add of_nat_mult)
  have "strtoull_loop m (int b) (p + 1) (of_nat ?acc) err =
      strtoull_loop m (int b) (p + 1 + length ds) (of_nat (number_from b ?acc ds)) err"
    by (rule Cons.IH) (use Cons.prems in auto)
  then show ?case
    using Cons.prems(1) digit_char_value(1,2) [OF d(2)] d(1) nless
    by (subst strtoull_loop.simps) (simp add: Let_def)
qed

lemma strto_start_digits:
  assumes s: "cstr m p (map digit_char ds)" and ds: "ds \<noteq> []" "\<And>d. d \<in> set ds \<Longrightarrow> d < b"
    and b: "2 \<le> b" "b \<le> 36" and p: "p \<noteq> NULL"
  shows "strto_start m p (int b) = Some (Some (p, False, int b))"
proof -
  obtain d ds' where d: "ds = d # ds'" "d < 36"
    using ds b(2) by (cases ds) (auto intro: less_le_trans)
  have mp: "m p = Some (digit_char d)"
    using s d by (simp add: mem_simps)
  have skip: "skip_space m p = Some p"
    using mp digit_char_value(3) [OF d(2)] by (subst skip_space.simps) simp
  have nox: "map digit_char ds \<noteq> [48, x]" if "b = 16" "x = 120 \<or> x = 88" for x
  proof
    assume eq: "map digit_char ds = [48, x]"
    then obtain e where e: "ds' = [e]" "digit_char e = x"
      using d by auto
    then have "e < 16" using ds(2) d that(1) by auto
    then have "sint (digit_char e) \<le> 102"
      using sint_digit_char [of e] by simp
    moreover have "sint (digit_char e) \<ge> 48" "sint (digit_char e) \<le> 57 \<or> 97 \<le> sint (digit_char e)"
      using sint_digit_char [of e] \<open>e < 16\<close> by auto
    ultimately show False
      using e(2) that(2) by auto
  qed
  show ?thesis
    using p b mp skip digit_char_value [OF d(2)] rest_is_cstr [OF s] nox
    by (auto simp: strto_start_def Let_def simp del: rest_is.simps)
qed

lemma strtoull_digits:
  assumes "cstr m p (map digit_char ds)" and "ds \<noteq> []" and "\<And>d. d \<in> set ds \<Longrightarrow> d < b"
    and "2 \<le> b" and "b \<le> 36" and "p \<noteq> NULL" and "number b ds < 2 ^ 64"
  shows "strtoull m p (int b) = Some (of_nat (number b ds), p + length ds, None)"
proof -
  have "bytes m p (map digit_char ds)" "m (p + length ds) = Some 0"
    using assms(1) cstr_end [OF assms(1)] by (simp_all add: cstr_def bytes_append)
  moreover have "number_from b 0 ds = number b ds"
    by (simp add: number_from_def number_def)
  ultimately have "strtoull_loop m (int b) p (of_nat 0) None = Some (of_nat (number b ds), p + length ds, None)"
    using strtoull_loop_prefix [OF assms(4,5), of m p ds 0 None] assms(3,7)
    by (simp add: strtoull_loop.simps ctype_defs)
  then show ?thesis
    using strto_start_digits [OF assms(1-6)] by (simp add: strtoull_def)
qed

text \<open>C24: \<open>strtoull\<close> in any base from 2 to 36 reads back the digits of every number below \<open>2 ^ 64\<close>: it
  returns the number, stops at the terminator and sets no error.\<close>

theorem strtoull_correct:
  assumes "cstr m p (map digit_char ds)" and "ds \<noteq> []" and "set ds \<subseteq> {..<b}"
    and "2 \<le> b" and "b \<le> 36" and "p \<noteq> NULL" and "number b ds < 2 ^ 64"
  shows "strtoull m p (int b) = Some (of_nat (number b ds), p + length ds, None)"
  by (rule strtoull_digits) (use assms in auto)

theorem strtoull_correct_witness:
  "strtoull [5 \<mapsto> 102, 6 \<mapsto> 48, 7 \<mapsto> 0] 5 16 = Some (240, 7, None)"
  using strtoull_correct [of "[5 \<mapsto> 102, 6 \<mapsto> 48, 7 \<mapsto> 0]" 5 "[15, 0]" 16]
  by (auto simp: cstr_def digit_char_def number_def)

text \<open>C17: printing and parsing are inverse: \<open>strtoull\<close> in base 10 applied to what \<open>itoaud\<close> wrote
  returns the number that was printed, for all 64-bit numbers.\<close>

theorem itoaud_strtoull:
  assumes "mapped m out (length (digits 10 (unat n)) + 1)" and "out \<noteq> NULL"
  shows "\<exists>m' e. itoaud m n out = Some m' \<and> strtoull m' out 10 = Some (n, e, None)"
proof -
  let ?ds = "digits 10 (unat n)"
  let ?m = "put m out (map dec_digit ?ds @ [0])"
  have dig: "d < 10" if "d \<in> set ?ds" for d
    using digits_less [of 10 d "unat n"] that by simp
  have map_eq: "map dec_digit ?ds = map digit_char ?ds"
    using dig by (intro map_cong) (auto simp: dec_digit_def digit_char_def)
  have "0 \<notin> set (map digit_char ?ds)"
    using dig digit_char_value(4) by fastforce
  then have "cstr ?m out (map digit_char ?ds)"
    unfolding map_eq by (rule cstr_put)
  then have "strtoull ?m out (int 10) = Some (of_nat (number 10 ?ds), out + length ?ds, None)"
    using strtoull_digits [of ?m out ?ds 10] dig assms(2) number_digits [of 10 "unat n"] unsigned_less [of n]
    by simp
  moreover have "itoaud m n out = Some ?m"
    using assms(1) by (simp add: itoaud_def itoa_base_put)
  ultimately show ?thesis
    by (simp add: number_digits)
qed

theorem itoaud_strtoull_witness:
  "\<exists>m' e. itoaud [7 \<mapsto> 0, 8 \<mapsto> 0, 9 \<mapsto> 0] 42 7 = Some m' \<and> strtoull m' 7 10 = Some (42, e, None)"
proof -
  have "digits 10 42 = [4, 2]"
    by (simp add: digits.simps)
  then show ?thesis
    using itoaud_strtoull [of "[7 \<mapsto> 0, 8 \<mapsto> 0, 9 \<mapsto> 0]" 7 42]
    by (simp add: mapped_def less_Suc_eq numeral_3_eq_3)
qed

text \<open>the overflow test of \<open>strtoull\<close> misses overflows that wrap past the old value:
  \<open>50000000000000000000\<close>, which is above \<open>2 ^ 64\<close>, is read as another number and no error is set.\<close>

theorem strtoull_overflow_undetected:
  assumes "cstr m p (map digit_char (5 # replicate 19 0))" and "p \<noteq> NULL"
  shows "number 10 (5 # replicate 19 0) = 50000000000000000000 \<and>
    strtoull m p 10 = Some (13106511852580896768, p + 20, None)"
proof -
  let ?ds = "5 # replicate 18 (0::nat)"
  have split: "5 # replicate 19 0 = ?ds @ [0::nat]"
    using replicate_append_same [of 18 "0::nat"] by (simp add: eval_nat_numeral)
  have m: "bytes m p (map digit_char ?ds)" "m (p + 19) = Some 48" "m (p + 20) = Some 0"
    using assms(1) cstr_end [OF assms(1)] unfolding split
    by (simp_all add: cstr_def bytes_append digit_char_def add.commute)
  have zeros: "number_from 10 acc (replicate n 0) = acc * 10 ^ n" for acc n
    by (induction n arbitrary: acc) simp_all
  have step: "strtoull_loop m 10 (p + 19) 5000000000000000000 None = Some (13106511852580896768, p + 20, None)"
  proof -
    have stop: "strtoull_loop m 10 (p + 20) x None = Some (x, p + 20, None)" for x
      using m(3) by (subst strtoull_loop.simps) (simp add: ctype_defs)
    have zero: "strtoull_loop m 10 (p + 19) x None = strtoull_loop m 10 (p + 19 + 1) (x * 10) None"
      if "\<not> x * 10 < x" for x
      using m(2) that by (subst strtoull_loop.simps) (simp add: ctype_defs strto_get_value_def)
    have "(5000000000000000000 * 10 :: u64) = 13106511852580896768"
      "\<not> (5000000000000000000 * 10 :: u64) < 5000000000000000000"
      by simp_all
    then show ?thesis
      using zero [of 5000000000000000000] stop [of 13106511852580896768] by (simp only: add.assoc numeral_plus_one Num.add_num_simps not_False_eq_True simp_thms)
  qed
  have "strtoull_loop m (int 10) p (of_nat 0) None =
      strtoull_loop m (int 10) (p + length ?ds) (of_nat (number_from 10 0 ?ds)) None"
    by (rule strtoull_loop_prefix) (use m(1) zeros in auto)
  then have "strtoull_loop m 10 p 0 None = Some (13106511852580896768, p + 20, None)"
    using zeros step by simp
  moreover have "strto_start m p (int 10) = Some (Some (p, False, int 10))"
    by (rule strto_start_digits [OF assms(1) _ _ _ _ assms(2)]) auto
  moreover have "number 10 (5 # replicate 19 0) = number_from 10 0 (5 # replicate 19 0)"
    by (simp add: number_def number_from_def)
  ultimately show ?thesis
    using zeros by (simp add: strtoull_def)
qed

theorem strtoull_overflow_undetected_witness:
  "strtoull (put Map.empty 1 (53 # replicate 19 48 @ [0])) 1 10 = Some (13106511852580896768, 21, None)"
proof -
  have "cstr (put Map.empty 1 (map digit_char (5 # replicate 19 0) @ [0])) 1 (map digit_char (5 # replicate 19 0))"
    by (rule cstr_put) (simp add: digit_char_def)
  from strtoull_overflow_undetected [OF this] show ?thesis
    by (simp add: digit_char_def)
qed

end
