(* ===== verification/WCtype.thy ===== *)
theory WCtype
  imports WTables CNum
begin

text \<open>
  The wide-character classes and case mappings of \<open>libc/src/wchar/wctype.c\<close>. A wide character is a
  32-bit word. \<open>binary_search\<close> is modelled with the key of a row as a function of its index and
  returns the index of the row in place of a pointer to it; its \<open>elsize\<close> is the constant size of a
  row. The locale \<open>sorted_keys\<close> is what the search relies on, \<open>range_table\<close> what the classes rely
  on; the tables of the program that meet it are its interpretations.
\<close>

subsection \<open>The search\<close>

function bs_loop :: "(nat \<Rightarrow> nat) \<Rightarrow> nat \<Rightarrow> nat \<Rightarrow> nat \<Rightarrow> nat \<Rightarrow> nat + nat \<times> nat" where
  "bs_loop key n el start stop =
     (if start < stop \<and> start < n \<and> stop < n \<and> (stop - start) div 2 > 0
      then let test = start + (stop - start) div 2 in
           if key test = el then Inl test
           else if key test > el then bs_loop key n el start (test - 1)
           else bs_loop key n el test stop
      else Inr (start, stop))"
  by pat_completeness auto
termination
  by (relation "measure (\<lambda>(key, n, el, start, stop). stop - start)") (auto simp: diff_less_mono2)

definition binary_search :: "(nat \<Rightarrow> nat) \<Rightarrow> nat \<Rightarrow> bool \<Rightarrow> nat \<Rightarrow> nat option" where
  "binary_search key n is_int el =
     (if \<not> is_int \<and> el > 0xFFFF then None
      else if n = 0 then None
      else case bs_loop key n el 0 (n - 1) of
             Inl test \<Rightarrow> Some test
           | Inr (start, stop) \<Rightarrow>
               let start = (if (stop - start) div 2 = 0 \<and> key stop \<le> el then stop else start) in
               if start > stop then None
               else if stop > n then None
               else if start > n - 1 then None
               else Some start)"

subsection \<open>Classes\<close>

definition WEOF :: u32 where
  "WEOF = 0xFFFFFFFF"

definition iswdigit :: "u32 \<Rightarrow> bool" where
  "iswdigit wc = isdigit (sint wc)"

definition iswxdigit :: "u32 \<Rightarrow> bool" where
  "iswxdigit wc = isxdigit (sint wc)"

definition in_row :: "(nat \<times> nat) list \<Rightarrow> nat \<Rightarrow> bool" where
  "in_row tab c =
     (case binary_search (\<lambda>i. fst (tab ! i)) (length tab) False c of
        None \<Rightarrow> False
      | Some i \<Rightarrow> if fst (tab ! i) > c then False else if snd (tab ! i) < c then False else True)"

definition iswmacro :: "(nat \<times> nat) list \<Rightarrow> (nat \<times> nat) list \<Rightarrow> u32 \<Rightarrow> bool" where
  "iswmacro low high wc =
     (if wc = WEOF then False
      else if wc > 0xFFFF then in_row high (unat (wc - 0x10000))
      else in_row low (unat wc))"

definition iswupper :: "u32 \<Rightarrow> bool" where
  "iswupper wc = iswmacro iswupper_ranges iswupper_ranges_high wc"

definition iswlower :: "u32 \<Rightarrow> bool" where
  "iswlower wc = iswmacro iswlower_ranges iswlower_ranges_high wc"

definition iswpunct :: "u32 \<Rightarrow> bool" where
  "iswpunct wc = iswmacro iswpunct_ranges iswpunct_ranges_high wc"

definition is_modif :: "u32 \<Rightarrow> bool" where
  "is_modif wc = iswmacro modifier_letters modifier_letters_high wc"

definition is_other :: "u32 \<Rightarrow> bool" where
  "is_other wc =
     (if wc > 0x1FFFF
      then case binary_search (\<lambda>i. fst (other_letters_very_high ! i)) (length other_letters_very_high)
                  True (unat wc) of
             None \<Rightarrow> True
           | Some i \<Rightarrow>
               if fst (other_letters_very_high ! i) > unat wc then False
               else if snd (other_letters_very_high ! i) < unat wc then False
               else iswmacro other_letters other_letters_high wc
      else iswmacro other_letters other_letters_high wc)"

definition is_titlecase :: "u32 \<Rightarrow> bool" where
  "is_titlecase wc = list_ex (\<lambda>t. t = unat wc) titlecase_letters"

definition iswalpha :: "u32 \<Rightarrow> bool" where
  "iswalpha wc =
     (isalpha (sint wc) \<or> iswupper wc \<or> iswlower wc \<or> is_modif wc \<or> is_other wc \<or> is_titlecase wc)"

definition iswalnum :: "u32 \<Rightarrow> bool" where
  "iswalnum wc = (isalnum (sint wc) \<or> iswdigit wc \<or> iswalpha wc)"

definition iswspace :: "u32 \<Rightarrow> bool" where
  "iswspace wc =
     (9 \<le> wc \<and> wc \<le> 0xD \<or> wc = 0x20 \<or> wc = 0x1680 \<or> wc = 0x180E \<or> 0x2000 \<le> wc \<and> wc \<le> 0x2006 \<or>
      0x2008 \<le> wc \<and> wc \<le> 0x200A \<or> wc = 0x2028 \<or> wc = 0x2029 \<or> wc = 0x205F \<or> wc = 0x3000)"

definition iswcntrl :: "u32 \<Rightarrow> bool" where
  "iswcntrl wc = (wc \<le> 0x1F \<or> 0x7F \<le> wc \<and> wc \<le> 0x9F \<or> wc = 0x2028 \<or> wc = 0x2029)"

definition iswblank :: "u32 \<Rightarrow> bool" where
  "iswblank wc =
     (9 \<le> wc \<and> wc \<le> 0x20 \<or> wc = 0x1680 \<or> wc = 0x180E \<or> 0x2000 \<le> wc \<and> wc \<le> 0x2006 \<or>
      0x2008 \<le> wc \<and> wc \<le> 0x200A \<or> wc = 0x205F \<or> wc = 0x3000)"

definition is_the_rest :: "u32 \<Rightarrow> bool" where
  "is_the_rest wc = iswmacro the_rest the_rest_high wc"

definition iswprint :: "u32 \<Rightarrow> bool" where
  "iswprint wc =
     (if wc = WEOF then False
      else isprint (sint wc) \<or> is_the_rest wc \<or> iswspace wc \<or> iswblank wc \<or> iswpunct wc \<or> iswalnum wc)"

definition iswgraph :: "u32 \<Rightarrow> bool" where
  "iswgraph wc = (if wc = WEOF then False else \<not> iswspace wc \<and> iswprint wc)"

definition is_nontrivial :: "u32 \<Rightarrow> bool" where
  "is_nontrivial wc = iswmacro towupper_exclusions towupper_exclusions_high wc"

subsection \<open>Case mapping\<close>

text \<open>
  Above the basic plane the rows of \<open>towupper_delta_list_high\<close>, three \<open>unsigned short\<close> each, are
  read through an \<open>unsigned int\<close> pointer: \<open>ex[k]\<close> of row \<open>i\<close> is made of the shorts \<open>3 i + 2 k\<close> and
  \<open>3 i + 2 k + 1\<close>, little endian, and lies outside the array for the last \<open>i\<close> and \<open>k > 0\<close>.
\<close>

definition delta_high_shorts :: "nat list" where
  "delta_high_shorts = concat (map (\<lambda>(a, b, d). [a, b, d]) towupper_delta_list_high)"

definition delta_high_ex :: "nat \<Rightarrow> nat \<Rightarrow> nat option" where
  "delta_high_ex i k =
     (let j = 3 * i + 2 * k in
      if j + 1 < length delta_high_shorts
      then Some (delta_high_shorts ! j + 0x10000 * delta_high_shorts ! (j + 1))
      else None)"

definition case_high :: "(u32 \<Rightarrow> u32 \<Rightarrow> u32) \<Rightarrow> u32 \<Rightarrow> u32 option" where
  "case_high shift wc =
     (case binary_search (\<lambda>i. delta_high_shorts ! (3 * i) + 0x10000 * delta_high_shorts ! (3 * i + 1))
             (length towupper_delta_list_high) True (unat wc) of
        None \<Rightarrow> Some wc
      | Some i \<Rightarrow>
          do { e0 \<leftarrow> delta_high_ex i 0;
               if e0 > unat wc then Some wc
               else do { e1 \<leftarrow> delta_high_ex i 1;
                         if e1 < unat wc then Some wc
                         else do { e2 \<leftarrow> delta_high_ex i 2; Some (shift wc (of_nat e2)) } } })"

text \<open>
  In the basic plane the exceptions come first. \<open>flagged\<close> is applied when the last field of the
  row is not zero and \<open>plain\<close> when it is.
\<close>

definition case_low :: "(u32 \<Rightarrow> u32 \<Rightarrow> u32) \<Rightarrow> (u32 \<Rightarrow> u32 \<Rightarrow> u32) \<Rightarrow> u32 \<Rightarrow> u32" where
  "case_low flagged plain wc =
     (let ranges =
        (case binary_search (\<lambda>i. fst (towupper_delta_list ! i)) (length towupper_delta_list)
                False (unat wc) of
           None \<Rightarrow> wc
         | Some i \<Rightarrow>
             (case towupper_delta_list ! i of (lo, hi, delta, flag) \<Rightarrow>
                if lo > unat wc \<or> hi < unat wc then wc
                else if flag \<noteq> 0 then flagged wc (of_nat delta)
                else plain wc (of_nat delta)))
      in case binary_search (\<lambda>i. fst (towupper_delta_list_ex ! i)) (length towupper_delta_list_ex)
                False (unat wc) of
           None \<Rightarrow> ranges
         | Some i \<Rightarrow>
             (case towupper_delta_list_ex ! i of (c, delta, flag) \<Rightarrow>
                if c = unat wc
                then if flag \<noteq> 0 then flagged wc (of_nat delta) else plain wc (of_nat delta)
                else ranges))"

definition towlower :: "u32 \<Rightarrow> u32 option" where
  "towlower wc =
     (if wc = WEOF then Some WEOF
      else if \<not> iswupper wc then Some wc
      else if is_nontrivial wc then Some wc
      else if wc > 0xFFFF then case_high (-) wc
      else Some (case_low (-) (+) wc))"

definition towupper :: "u32 \<Rightarrow> u32 option" where
  "towupper wc =
     (if wc = WEOF then Some WEOF
      else if wc = 0xDF then Some 0x1E9E
      else if \<not> iswlower wc then Some wc
      else if is_nontrivial wc then Some wc
      else if wc > 0xFFFF then case_high (+) wc
      else Some (case_low (+) (-) wc))"

subsection \<open>Classes and mappings by name\<close>

definition iswfuncs :: "(u32 \<Rightarrow> bool) option list" where
  "iswfuncs =
     [None, Some iswalnum, Some iswalpha, Some iswblank, Some iswcntrl, Some iswdigit, Some iswgraph,
      Some iswlower, Some iswprint, Some iswpunct, Some iswspace, Some iswupper, Some iswxdigit]"

definition classes :: "string option list" where
  "classes =
     [None, Some ''alnum'', Some ''alpha'', Some ''blank'', Some ''cntrl'', Some ''digit'',
      Some ''graph'', Some ''lower'', Some ''print'', Some ''punct'', Some ''space'', Some ''upper'',
      Some ''xdigit'']"

definition literal :: "string \<Rightarrow> u8 list" where
  "literal = map of_char"

fun wctype_loop :: "mem \<Rightarrow> ptr \<Rightarrow> nat \<Rightarrow> string option list \<Rightarrow> nat option" where
  "wctype_loop m property i [] = Some 0"
| "wctype_loop m property i (None # cs) = wctype_loop m property (i + 1) cs"
| "wctype_loop m property i (Some c # cs) =
     do { eq \<leftarrow> rest_is m property (literal c);
          if eq then Some i else wctype_loop m property (i + 1) cs }"

definition wctype :: "mem \<Rightarrow> ptr \<Rightarrow> nat option" where
  "wctype m property = wctype_loop m property 0 classes"

definition iswctype :: "u32 \<Rightarrow> nat \<Rightarrow> bool" where
  "iswctype wc charclass =
     (if wc = WEOF then False
      else if charclass = 0 \<or> charclass \<ge> length iswfuncs then False
      else case iswfuncs ! charclass of None \<Rightarrow> False | Some f \<Rightarrow> f wc)"

definition wctrans :: "mem \<Rightarrow> ptr \<Rightarrow> nat option" where
  "wctrans m charclass =
     do { u \<leftarrow> rest_is m charclass (literal ''upper'');
          if u then Some 1
          else do { l \<leftarrow> rest_is m charclass (literal ''lower''); if l then Some 2 else Some 0 } }"

definition towctrans :: "u32 \<Rightarrow> nat \<Rightarrow> u32 option" where
  "towctrans wc desc =
     (if wc = WEOF then Some WEOF
      else if desc = 1 then towupper wc
      else if desc = 2 then towlower wc
      else Some wc)"

definition is_zerowidth :: "u32 \<Rightarrow> bool" where
  "is_zerowidth wc = iswmacro zerowidth_ranges zerowidth_ranges_high wc"

definition wcwidth :: "u32 \<Rightarrow> nat" where
  "wcwidth wc = (if sint wc < 0 \<or> sint wc \<ge> 0xE0000 \<or> is_zerowidth wc then 0 else 1)"

subsection \<open>The search finds the last row that does not start after the key\<close>

declare bs_loop.simps [simp del]

lemma bs_loop_bound:
  "start < n \<Longrightarrow> stop < n \<Longrightarrow>
   (case bs_loop key n el start stop of Inl t \<Rightarrow> t < n | Inr (s, e) \<Rightarrow> s < n \<and> e < n)"
proof (induction key n el start stop rule: bs_loop.induct)
  case (1 key n el start stop)
  show ?case
    using 1 by (subst bs_loop.simps) (auto simp: Let_def)
qed

lemma binary_search_bound: "binary_search key n is_int el = Some i \<Longrightarrow> i < n"
  using bs_loop_bound [of 0 n "n - 1" key el]
  by (auto simp: binary_search_def Let_def split: if_splits sum.splits)

locale sorted_keys =
  fixes key :: "nat \<Rightarrow> nat" and n :: nat
  assumes nonempty: "0 < n"
    and increasing: "i < j \<Longrightarrow> j < n \<Longrightarrow> key i < key j"
begin

lemma key_mono: "i \<le> j \<Longrightarrow> j < n \<Longrightarrow> key i \<le> key j"
  using increasing [of i j] by (cases "i = j") auto

lemma bs_loop_correct:
  assumes "start \<le> stop" and "stop < n" and "start = 0 \<or> key start \<le> el"
    and "\<And>j. stop < j \<Longrightarrow> j < n \<Longrightarrow> el < key j"
  shows "case bs_loop key n el start stop of
      Inl t \<Rightarrow> t < n \<and> key t = el
    | Inr (s, e) \<Rightarrow> s \<le> e \<and> e \<le> s + 1 \<and> e < n \<and> (s = 0 \<or> key s \<le> el) \<and>
        (\<forall>j. e < j \<longrightarrow> j < n \<longrightarrow> el < key j)"
  using assms
proof (induction "stop - start" arbitrary: start stop rule: less_induct)
  case less
  let ?test = "start + (stop - start) div 2"
  show ?case
  proof (cases "(stop - start) div 2 > 0")
    case False
    then have "bs_loop key n el start stop = Inr (start, stop)"
      by (subst bs_loop.simps) simp
    with less.prems False show ?thesis by auto
  next
    case True
    have above: "el < key j" if "el < key ?test" "?test - 1 < j" "j < n" for j
      using key_mono [of ?test j] that True by fastforce
    have test: "?test < n" "start < ?test" "?test \<le> stop"
      using True less.prems by linarith+
    have body: "bs_loop key n el start stop =
        (if key ?test = el then Inl ?test
         else if key ?test > el then bs_loop key n el start (?test - 1)
         else bs_loop key n el ?test stop)"
      by (subst bs_loop.simps) (use True less.prems(1,2) in \<open>auto simp: Let_def\<close>)
    consider "key ?test = el" | "key ?test > el" | "key ?test < el" by linarith
    then show ?thesis
    proof cases
      case 1
      with body test show ?thesis by simp
    next
      case 2
      have "?test - 1 - start < stop - start" "start \<le> ?test - 1" "?test - 1 < n"
        using test by linarith+
      from less.hyps [OF this less.prems(3) above [OF 2]] 2 body show ?thesis by simp
    next
      case 3
      have "stop - ?test < stop - start"
        using test by linarith
      from less.hyps [OF this test(3) less.prems(2) _ less.prems(4)] 3 body show ?thesis by simp
    qed
  qed
qed

lemma binary_search_correct:
  assumes "is_int \<or> el \<le> 0xFFFF"
  shows "\<exists>i < n. binary_search key n is_int el = Some i \<and> (i = 0 \<or> key i \<le> el) \<and>
    (\<forall>j < n. key j \<le> el \<longrightarrow> j \<le> i)"
proof -
  have below: "j \<le> i" if "key j \<le> el" "i < n" "el < key i' \<or> n \<le> i'" "i' = Suc i" "j < n" for i i' j
    using that key_mono [of i' j] by fastforce
  have hit: "j \<le> t" if "key t = el" "key j \<le> el" "j < n" for t j
    using that increasing [of t j] by fastforce
  have "case bs_loop key n el 0 (n - 1) of
      Inl t \<Rightarrow> t < n \<and> key t = el
    | Inr (s, e) \<Rightarrow> s \<le> e \<and> e \<le> s + 1 \<and> e < n \<and> (s = 0 \<or> key s \<le> el) \<and>
        (\<forall>j. e < j \<longrightarrow> j < n \<longrightarrow> el < key j)"
    by (rule bs_loop_correct) (use nonempty in auto)
  then show ?thesis
  proof (cases "bs_loop key n el 0 (n - 1)")
    case (Inl t)
    with \<open>case _ of Inl t \<Rightarrow> _ t | Inr x \<Rightarrow> _ x\<close> show ?thesis
      using assms nonempty hit by (auto simp: binary_search_def)
  next
    case (Inr se)
    obtain s e where se: "se = (s, e)" by force
    have inv: "s \<le> e" "e \<le> s + 1" "e < n" "s = 0 \<or> key s \<le> el"
      and up: "\<And>j. e < j \<Longrightarrow> j < n \<Longrightarrow> el < key j"
      using \<open>case _ of Inl t \<Rightarrow> _ t | Inr x \<Rightarrow> _ x\<close> Inr se by auto
    let ?i = "if key e \<le> el then e else s"
    have "binary_search key n is_int el = Some ?i"
      using assms nonempty inv Inr se by (auto simp: binary_search_def Let_def)
    moreover have "?i < n" "?i = 0 \<or> key ?i \<le> el"
      using inv by auto
    moreover have "j \<le> ?i" if "j < n" "key j \<le> el" for j
    proof (rule ccontr)
      assume "\<not> j \<le> ?i"
      with inv(2) have "e < j \<or> j = e \<and> \<not> key e \<le> el"
        using inv(1) by (auto split: if_splits)
      with up [of j] that show False by auto
    qed
    ultimately show ?thesis by blast
  qed
qed

end

end
