(* ===== verification/WCtype_Props.thy ===== *)
theory WCtype_Props
  imports WCtype
begin

text \<open>
  What the wide-character classes compute. \<open>in_ranges\<close> is the meaning of a table, the union of its
  rows; every class whose table is in order is membership in that union, and the tables of the
  program that are out of order lose rows.
\<close>

definition in_ranges :: "(nat \<times> nat) list \<Rightarrow> nat \<Rightarrow> bool" where
  "in_ranges tab c \<longleftrightarrow> (\<exists>(a, b) \<in> set tab. a \<le> c \<and> c \<le> b)"

fun ascending :: "nat \<Rightarrow> (nat \<times> nat) list \<Rightarrow> bool" where
  "ascending lo [] = True"
| "ascending lo ((a, b) # r) \<longleftrightarrow> lo \<le> a \<and> a \<le> b \<and> ascending (b + 1) r"

fun ends :: "nat \<Rightarrow> (nat \<times> nat) list \<Rightarrow> nat" where
  "ends lo [] = lo"
| "ends lo ((a, b) # r) = ends (b + 1) r"

lemma in_ranges_simps [simp]:
  "in_ranges [] c \<longleftrightarrow> False"
  "in_ranges (r # tab) c \<longleftrightarrow> fst r \<le> c \<and> c \<le> snd r \<or> in_ranges tab c"
  "in_ranges (t1 @ t2) c \<longleftrightarrow> in_ranges t1 c \<or> in_ranges t2 c"
  by (auto simp: in_ranges_def split_beta)

lemma ascending_append [simp]: "ascending lo (t1 @ t2) \<longleftrightarrow> ascending lo t1 \<and> ascending (ends lo t1) t2"
  by (induction lo t1 rule: ascending.induct) auto

lemma ascending_weaken: "ascending lo tab \<Longrightarrow> lo' \<le> lo \<Longrightarrow> ascending lo' tab"
  by (cases tab) auto

lemma ascending_below: "ascending lo tab \<Longrightarrow> c < lo \<Longrightarrow> \<not> in_ranges tab c"
  by (induction lo tab rule: ascending.induct) auto

lemma ascending_nth: "ascending lo tab \<Longrightarrow> i < length tab \<Longrightarrow> lo \<le> fst (tab ! i) \<and> fst (tab ! i) \<le> snd (tab ! i)"
proof (induction lo tab arbitrary: i rule: ascending.induct)
  case (2 lo a b r)
  then show ?case by (cases i) force+
qed simp

lemma ascending_increasing:
  "ascending lo tab \<Longrightarrow> i < j \<Longrightarrow> j < length tab \<Longrightarrow> snd (tab ! i) < fst (tab ! j)"
proof (induction lo tab arbitrary: i j rule: ascending.induct)
  case (2 lo a b r)
  obtain j' where j: "j = Suc j'" using 2 by (cases j) auto
  show ?case
    using 2 j ascending_nth [of "b + 1" r j'] by (cases i) auto
qed simp

lemma in_ranges_nth: "in_ranges tab c \<longleftrightarrow> (\<exists>i < length tab. fst (tab ! i) \<le> c \<and> c \<le> snd (tab ! i))"
  unfolding in_ranges_def by (metis (mono_tags, lifting) case_prod_beta in_set_conv_nth)

lemma ends_mono: "ascending lo tab \<Longrightarrow> lo \<le> ends lo tab"
  by (induction lo tab rule: ascending.induct) auto

lemma ascending_ends: "ascending lo tab \<Longrightarrow> in_ranges tab c \<Longrightarrow> c < ends lo tab"
proof (induction lo tab rule: ascending.induct)
  case (2 lo a b r)
  then show ?case using ends_mono [of "b + 1" r] by auto
qed simp

text \<open>Whatever the order of the rows, a hit is a row of the table.\<close>

lemma in_row_sound: "in_row tab c \<Longrightarrow> in_ranges tab c"
  using binary_search_bound [of "\<lambda>i. fst (tab ! i)" "length tab" False c]
  by (auto simp: in_row_def in_ranges_nth split: option.splits if_splits)

locale range_table =
  fixes tab :: "(nat \<times> nat) list"
  assumes rows: "tab \<noteq> []" and in_order: "ascending 0 tab" and short: "ends 0 tab \<le> 0x10000"
begin

lemma short_rows: "in_ranges tab c \<Longrightarrow> c \<le> 0xFFFF"
  using ascending_ends [OF in_order] short by fastforce

end

sublocale range_table \<subseteq> keys: sorted_keys "\<lambda>i. fst (tab ! i)" "length tab"
proof
  show "0 < length tab" using rows by simp
  show "fst (tab ! i) < fst (tab ! j)" if "i < j" "j < length tab" for i j
    using ascending_increasing [OF in_order that] ascending_nth [OF in_order, of i] that by simp
qed

context range_table
begin

lemma in_row_iff: "in_row tab c \<longleftrightarrow> in_ranges tab c"
proof
  assume "in_ranges tab c"
  then obtain j where j: "j < length tab" "fst (tab ! j) \<le> c" "c \<le> snd (tab ! j)"
    by (auto simp: in_ranges_nth)
  obtain i where i: "i < length tab" "binary_search (\<lambda>i. fst (tab ! i)) (length tab) False c = Some i"
      "i = 0 \<or> fst (tab ! i) \<le> c" "\<And>k. k < length tab \<Longrightarrow> fst (tab ! k) \<le> c \<Longrightarrow> k \<le> i"
    using keys.binary_search_correct [of False c] short_rows [OF \<open>in_ranges tab c\<close>] by auto
  from i(4) [OF j(1,2)] have "j \<le> i" .
  moreover have "\<not> j < i"
    using ascending_increasing [OF in_order, of j i] i(1,3) j(3) by fastforce
  ultimately show "in_row tab c"
    using i(2) j by (simp add: in_row_def)
qed (rule in_row_sound)

end

subsection \<open>The tables of the program\<close>

lemmas iswupper_ranges_rows = iswupper_ranges_def iswupper_ranges_1_def iswupper_ranges_2_def
  iswupper_ranges_3_def iswupper_ranges_4_def iswupper_ranges_5_def
lemmas iswupper_ranges_high_rows = iswupper_ranges_high_def
lemmas iswlower_ranges_rows = iswlower_ranges_def iswlower_ranges_1_def iswlower_ranges_2_def
  iswlower_ranges_3_def iswlower_ranges_4_def iswlower_ranges_5_def
lemmas iswlower_ranges_high_rows = iswlower_ranges_high_def
lemmas iswpunct_ranges_rows = iswpunct_ranges_def iswpunct_ranges_1_def iswpunct_ranges_2_def
lemmas iswpunct_ranges_high_rows = iswpunct_ranges_high_def
lemmas modifier_letters_rows = modifier_letters_def
lemmas modifier_letters_high_rows = modifier_letters_high_def
lemmas other_letters_rows = other_letters_def other_letters_1_def other_letters_2_def
  other_letters_3_def
lemmas the_rest_rows = the_rest_def
lemmas the_rest_high_rows = the_rest_high_def
lemmas zerowidth_ranges_rows = zerowidth_ranges_def zerowidth_ranges_1_def zerowidth_ranges_2_def
lemmas towupper_exclusions_high_rows = towupper_exclusions_high_def
lemmas towupper_exclusions_rows = towupper_exclusions_def
lemmas other_letters_high_rows = other_letters_high_def other_letters_high_1_def
  other_letters_high_2_def
lemmas zerowidth_ranges_high_rows = zerowidth_ranges_high_def zerowidth_ranges_high_1_def
lemmas towupper_delta_list_rows = towupper_delta_list_def
lemmas towupper_delta_list_ex_rows = towupper_delta_list_ex_def towupper_delta_list_ex_1_def
  towupper_delta_list_ex_2_def

interpretation upper: range_table iswupper_ranges
  by unfold_locales (simp_all add: iswupper_ranges_rows)

interpretation upper_high: range_table iswupper_ranges_high
  by unfold_locales (simp_all add: iswupper_ranges_high_rows)

interpretation lower: range_table iswlower_ranges
  by unfold_locales (simp_all add: iswlower_ranges_rows)

interpretation lower_high: range_table iswlower_ranges_high
  by unfold_locales (simp_all add: iswlower_ranges_high_rows)

interpretation punct: range_table iswpunct_ranges
  by unfold_locales (simp_all add: iswpunct_ranges_rows)

interpretation punct_high: range_table iswpunct_ranges_high
  by unfold_locales (simp_all add: iswpunct_ranges_high_rows)

interpretation modif: range_table modifier_letters
  by unfold_locales (simp_all add: modifier_letters_rows)

interpretation modif_high: range_table modifier_letters_high
  by unfold_locales (simp_all add: modifier_letters_high_rows)

interpretation other: range_table other_letters
  by unfold_locales (simp_all add: other_letters_rows)

interpretation rest: range_table the_rest
  by unfold_locales (simp_all add: the_rest_rows)

interpretation rest_high: range_table the_rest_high
  by unfold_locales (simp_all add: the_rest_high_rows)

interpretation zerowidth: range_table zerowidth_ranges
  by unfold_locales (simp_all add: zerowidth_ranges_rows)

interpretation exclusions_high: range_table towupper_exclusions_high
  by unfold_locales (simp_all add: towupper_exclusions_high_rows)

definition member :: "(nat \<times> nat) list \<Rightarrow> (nat \<times> nat) list \<Rightarrow> u32 \<Rightarrow> bool" where
  "member low high wc \<longleftrightarrow>
     (if unat wc > 0xFFFF then in_ranges high (unat wc - 0x10000) else in_ranges low (unat wc))"

lemma high_iff: "wc > 0xFFFF \<longleftrightarrow> unat wc > 0xFFFF" for wc :: u32
  by (simp add: word_less_nat_alt)

lemma unat_high: "unat wc > 0xFFFF \<Longrightarrow> unat (wc - 0x10000) = unat wc - 0x10000" for wc :: u32
  by (subst unat_sub) (simp_all add: word_le_nat_alt)

lemma iswmacro_member:
  assumes "range_table low" and "range_table high"
  shows "iswmacro low high wc \<longleftrightarrow> member low high wc"
proof (cases "wc = WEOF")
  case True
  then show ?thesis
    using range_table.short_rows [OF assms(2), of "0xFFFEFFFF"]
    by (auto simp: iswmacro_def member_def WEOF_def)
next
  case False
  then show ?thesis
    using range_table.in_row_iff [OF assms(1)] range_table.in_row_iff [OF assms(2)]
    by (simp add: iswmacro_def member_def high_iff unat_high)
qed

lemmas class_members =
  iswmacro_member [OF upper.range_table_axioms upper_high.range_table_axioms]
  iswmacro_member [OF lower.range_table_axioms lower_high.range_table_axioms]
  iswmacro_member [OF punct.range_table_axioms punct_high.range_table_axioms]
  iswmacro_member [OF modif.range_table_axioms modif_high.range_table_axioms]
  iswmacro_member [OF rest.range_table_axioms rest_high.range_table_axioms]

text \<open>C13: the classes \<open>iswupper\<close>, \<open>iswlower\<close>, \<open>iswpunct\<close>, the modifier letters and the remaining
  printable characters are exactly the union of the rows of their tables: the binary search over
  the real tables gives the same answer as a scan of all rows, for every 32-bit argument.\<close>

theorem wide_classes_correct:
  "iswupper wc = member iswupper_ranges iswupper_ranges_high wc \<and>
   iswlower wc = member iswlower_ranges iswlower_ranges_high wc \<and>
   iswpunct wc = member iswpunct_ranges iswpunct_ranges_high wc \<and>
   is_modif wc = member modifier_letters modifier_letters_high wc \<and>
   is_the_rest wc = member the_rest the_rest_high wc"
  by (simp add: iswupper_def iswlower_def iswpunct_def is_modif_def is_the_rest_def class_members)

subsection \<open>Upper and lower case\<close>

fun apart :: "(nat \<times> nat) list \<Rightarrow> (nat \<times> nat) list \<Rightarrow> bool" where
  "apart [] t = True"
| "apart s [] = True"
| "apart ((a, b) # s) ((c, d) # t) =
     (if b < c then apart s ((c, d) # t) else if d < a then apart ((a, b) # s) t else False)"

lemma apart_disjoint:
  "apart s t \<Longrightarrow> ascending lo s \<Longrightarrow> ascending lo' t \<Longrightarrow> in_ranges s x \<Longrightarrow> \<not> in_ranges t x"
proof (induction s t arbitrary: lo lo' rule: apart.induct)
  case (3 a b s c d t)
  have below: "x < a \<Longrightarrow> \<not> in_ranges ((a, b) # s) x" "x < c \<Longrightarrow> \<not> in_ranges ((c, d) # t) x"
    using ascending_below [of a "(a, b) # s" x] ascending_below [of c "(c, d) # t" x] 3 by auto
  show ?case
  proof (cases "b < c")
    case True
    then show ?thesis using 3 below by auto
  next
    case False
    then show ?thesis using 3 below by (auto split: if_splits)
  qed
qed auto

lemma apart_step:
  "b < c \<Longrightarrow> apart ((a, b) # s) ((c, d) # t) = apart s ((c, d) # t)"
  "a \<le> b \<Longrightarrow> d < a \<Longrightarrow> c \<le> d \<Longrightarrow> apart ((a, b) # s) ((c, d) # t) = apart ((a, b) # s) t"
  by auto

lemma cases_apart:
  "apart iswupper_ranges iswlower_ranges" "apart iswupper_ranges_high iswlower_ranges_high"
  by (simp_all add: iswupper_ranges_rows iswlower_ranges_rows iswupper_ranges_high_rows
    iswlower_ranges_high_rows apart_step del: apart.simps(3))

text \<open>no wide character is both an upper-case and a lower-case letter.\<close>

theorem upper_lower_disjoint: "\<not> (iswupper wc \<and> iswlower wc)"
  using apart_disjoint [OF cases_apart(1) upper.in_order lower.in_order]
    apart_disjoint [OF cases_apart(2) upper_high.in_order lower_high.in_order]
  by (auto simp: iswupper_def iswlower_def class_members member_def split: if_splits)

subsection \<open>Rows that the search loses\<close>

lemma sorted_keysI:
  "tab \<noteq> [] \<Longrightarrow> sorted_wrt (<) (map fst tab) \<Longrightarrow> sorted_keys (\<lambda>i. fst (tab ! i)) (length tab)"
  by unfold_locales (auto dest: sorted_wrt_nth_less)


lemma towupper_exclusions_nth:
  "length towupper_exclusions = 71"
  "towupper_exclusions ! 8 = (0x221, 0x221)"
  "towupper_exclusions ! 9 = (0x255, 0x255)"
  "towupper_exclusions ! 12 = (0x262, 0x262)"
  "towupper_exclusions ! 17 = (0x270, 0x270)"
  "towupper_exclusions ! 35 = (0x1d00, 0x1d2b)"
  by (simp_all add: towupper_exclusions_rows)

lemma other_letters_high_nth:
  "length other_letters_high = 267"
  "other_letters_high ! 133 = (0x1a50, 0x1a50)"
  "other_letters_high ! 199 = (0xe290, 0xe2ad)"
  "other_letters_high ! 232 = (0xee59, 0xee59)"
  "other_letters_high ! 249 = (0x0, 0x0)"
  "other_letters_high ! 257 = (0x0, 0x0)"
  "other_letters_high ! 261 = (0x0, 0x0)"
  "other_letters_high ! 263 = (0x0, 0x0)"
  "other_letters_high ! 264 = (0x0, 0x0)"
  "other_letters_high ! 265 = (0x0, 0x0)"
  "other_letters_high ! 266 = (0x0, 0x0)"
  by (simp_all add: other_letters_high_rows)

lemma zerowidth_ranges_high_nth:
  "length zerowidth_ranges_high = 134"
  "zerowidth_ranges_high ! 66 = (0x193b, 0x193c)"
  "zerowidth_ranges_high ! 99 = (0x6f4f, 0x6f4f)"
  "zerowidth_ranges_high ! 116 = (0xdaa1, 0xdaaf)"
  "zerowidth_ranges_high ! 124 = (0xe2ec, 0xe2ef)"
  "zerowidth_ranges_high ! 128 = (0x0, 0x0)"
  "zerowidth_ranges_high ! 130 = (0x0, 0x0)"
  "zerowidth_ranges_high ! 131 = (0x0, 0x0)"
  "zerowidth_ranges_high ! 132 = (0x0, 0x0)"
  "zerowidth_ranges_high ! 133 = (0x0, 0x0)"
  by (simp_all add: zerowidth_ranges_high_rows)

text \<open>three tables are not in order, and there the search misses rows that are in the table:
  \<open>towupper_exclusions\<close> has an entry out of place, \<open>other_letters_high\<close> and \<open>zerowidth_ranges_high\<close> are
  declared longer than their initialiser and end in rows of zeros. U+0234, U+1EEBB and U+1E94A are
  listed and not found.\<close>

theorem wide_table_gaps:
  "in_ranges towupper_exclusions 0x234 \<and> \<not> is_nontrivial 0x234 \<and>
   in_ranges other_letters_high (0x1EEBB - 0x10000) \<and> \<not> is_other 0x1EEBB \<and>
   in_ranges zerowidth_ranges_high (0x1E94A - 0x10000) \<and> \<not> is_zerowidth 0x1E94A"
proof -
  have "\<not> in_row towupper_exclusions 0x234" "\<not> in_row other_letters_high 0xEEBB"
      "\<not> in_row zerowidth_ranges_high 0xE94A"
    by (simp_all add: in_row_def binary_search_def bs_loop.simps Let_def towupper_exclusions_nth
      other_letters_high_nth zerowidth_ranges_high_nth)
  moreover have "in_ranges towupper_exclusions 0x234"
    by (simp add: towupper_exclusions_rows)
  moreover have "in_ranges other_letters_high 0xEEBB"
    by (simp add: other_letters_high_rows)
  moreover have "in_ranges zerowidth_ranges_high 0xE94A"
    by (simp add: zerowidth_ranges_high_rows)
  ultimately show ?thesis
    by (simp add: is_nontrivial_def is_other_def is_zerowidth_def iswmacro_def WEOF_def)
qed

interpretation very_high: sorted_keys "\<lambda>i. fst (other_letters_very_high ! i)" "length other_letters_very_high"
  by (rule sorted_keysI) (simp_all add: other_letters_very_high_def)

text \<open>no character from U+20000 on is classified as a letter by \<open>is_other\<close>, although the table
  \<open>other_letters_very_high\<close> exists for them: after a hit the code falls through to the search of the
  16-bit tables, which rejects every such character.\<close>

theorem is_other_very_high: "wc > 0x1FFFF \<Longrightarrow> \<not> is_other wc"
proof -
  assume high: "wc > 0x1FFFF"
  then have u: "unat wc > 0x1FFFF"
    by (simp add: word_less_nat_alt)
  have none: "\<not> in_row tab c" if "c > 0xFFFF" for tab c
    using that by (simp add: in_row_def binary_search_def)
  have "\<not> iswmacro other_letters other_letters_high wc"
    using u none [of "unat wc - 0x10000" other_letters_high]
    by (simp add: iswmacro_def high_iff unat_high)
  moreover have "binary_search (\<lambda>i. fst (other_letters_very_high ! i)) (length other_letters_very_high)
      True (unat wc) \<noteq> None"
    using very_high.binary_search_correct [of True "unat wc"] by auto
  ultimately show ?thesis
    using high by (auto simp: is_other_def split: option.splits)
qed

theorem is_other_very_high_witness: "\<not> is_other 0x20000"
  using is_other_very_high [of "0x20000"] by simp

end
