(* ===== verification/WCase.thy ===== *)
theory WCase
  imports WCtype_Props
begin

text \<open>
  The wide-character routines on ASCII against \<open>ctype.c\<close>, and the case mappings. In the basic plane
  the direction of the case shift is the wrong way round, and above it no letter is mapped.
\<close>

subsection \<open>ASCII\<close>

lemma in_ranges_take:
  assumes "ascending lo (drop k tab)" and "c < lo"
  shows "in_ranges tab c \<longleftrightarrow> in_ranges (take k tab) c"
  using ascending_below [OF assms] in_ranges_simps(3) [of "take k tab" "drop k tab" c] by simp

lemma sint_ascii: "unat wc < 0x80 \<Longrightarrow> sint wc = int (unat wc)" for wc :: u32
proof -
  assume "unat wc < 0x80"
  then have "uint wc < 0x80"
    using uint_nat [of wc] by linarith
  then have "signed_take_bit 31 (uint wc) = uint wc"
    by (intro signed_take_bit_int_eq_self) (auto intro: order.trans [of _ 0])
  then show ?thesis
    using sint_uint [of wc] by simp
qed

lemma ascii_prefix:
  "ascending 0x80 (drop 1 iswupper_ranges)" "take 1 iswupper_ranges = [(0x41, 0x5A)]"
  "ascending 0x80 (drop 1 iswlower_ranges)" "take 1 iswlower_ranges = [(0x61, 0x7A)]"
  "ascending 0x80 (drop 4 iswpunct_ranges)"
  "take 4 iswpunct_ranges = [(0x21, 0x2F), (0x3A, 0x40), (0x5B, 0x60), (0x7B, 0x7E)]"
  "ascending 0x80 modifier_letters" "ascending 0x80 other_letters"
  "ascending 0x80 (drop 1 the_rest)" "take 1 the_rest = [(0x30, 0x39)]"
  by (simp_all add: iswupper_ranges_rows iswlower_ranges_rows iswpunct_ranges_rows
    modifier_letters_rows other_letters_rows the_rest_rows)

lemma ascii_rows:
  assumes "c < 0x80"
  shows "in_ranges iswupper_ranges c \<longleftrightarrow> 0x41 \<le> c \<and> c \<le> 0x5A"
    and "in_ranges iswlower_ranges c \<longleftrightarrow> 0x61 \<le> c \<and> c \<le> 0x7A"
    and "in_ranges iswpunct_ranges c \<longleftrightarrow>
      0x21 \<le> c \<and> c \<le> 0x2F \<or> 0x3A \<le> c \<and> c \<le> 0x40 \<or> 0x5B \<le> c \<and> c \<le> 0x60 \<or> 0x7B \<le> c \<and> c \<le> 0x7E"
    and "\<not> in_ranges modifier_letters c" and "\<not> in_ranges other_letters c"
    and "in_ranges the_rest c \<longleftrightarrow> 0x30 \<le> c \<and> c \<le> 0x39"
  using in_ranges_take [OF ascii_prefix(1) assms] in_ranges_take [OF ascii_prefix(3) assms]
    in_ranges_take [OF ascii_prefix(5) assms] ascending_below [OF ascii_prefix(7) assms]
    ascending_below [OF ascii_prefix(8) assms] in_ranges_take [OF ascii_prefix(9) assms]
  unfolding ascii_prefix(2,4,6,10) by simp_all

lemma in_row_ascii: "c < 0x80 \<Longrightarrow> \<not> in_row other_letters c"
  using other.in_row_iff ascii_rows(5) by blast

lemma ascii_print:
  "isprint (int c) \<or> 0x30 \<le> c \<and> c \<le> 0x39 \<or> isspace (int c) \<or> 9 \<le> c \<and> c \<le> 0x20 \<or> ispunct (int c) \<or> isalnum (int c) \<longleftrightarrow>
    isprint (int c) \<or> 9 \<le> c \<and> c \<le> 0x1F"
proof -
  have "isprint (int c) \<longleftrightarrow> 32 \<le> c \<and> c \<le> 126" by (auto simp: isprint_def)
  moreover have "isspace (int c) \<Longrightarrow> 9 \<le> c \<and> c \<le> 0x20" by (auto simp: isspace_def)
  moreover have "ispunct (int c) \<or> isalnum (int c) \<Longrightarrow> 32 \<le> c \<and> c \<le> 126" by (auto simp: ctype_defs)
  moreover have "9 \<le> c \<and> c \<le> 0x20 \<longleftrightarrow> 9 \<le> c \<and> c \<le> 0x1F \<or> c = 0x20" by auto
  ultimately show ?thesis by (cases "9 \<le> c \<and> c \<le> 0x1F"; cases "32 \<le> c \<and> c \<le> 126") auto
qed

lemma ascii_graph:
  "\<not> isspace (int c) \<and> (isprint (int c) \<or> 9 \<le> c \<and> c \<le> 0x1F) \<longleftrightarrow> isgraph (int c) \<or> 0xE \<le> c \<and> c \<le> 0x1F"
proof -
  have "isprint (int c) \<longleftrightarrow> 32 \<le> c \<and> c \<le> 126" "isgraph (int c) \<longleftrightarrow> 32 < c \<and> c < 127"
    by (auto simp: isprint_def isgraph_def)
  moreover have "isspace (int c) \<longleftrightarrow> 9 \<le> c \<and> c \<le> 13 \<or> c = 32" by (auto simp: isspace_def)
  ultimately show ?thesis by presburger
qed

text \<open>C38: all twelve wide-character classes on ASCII. \<open>iswupper\<close>, \<open>iswlower\<close>, \<open>iswalpha\<close>, \<open>iswdigit\<close>,
  \<open>iswxdigit\<close>, \<open>iswalnum\<close>, \<open>iswpunct\<close>, \<open>iswspace\<close> and \<open>iswcntrl\<close> agree with their counterparts in \<open>ctype.c\<close>. The
  other three do not: \<open>iswblank\<close> takes every character from tab to space, where \<open>isblank\<close> is only those
  two; because of this \<open>iswprint\<close> takes the control characters from tab to 0x1F as well, and \<open>iswgraph\<close>
  those of them that are no white space, that is from 0x0E to 0x1F.\<close>

theorem wide_ascii:
  assumes "unat wc < 0x80"
  shows "iswupper wc = isupper (sint wc) \<and> iswlower wc = islower (sint wc) \<and>
    iswalpha wc = isalpha (sint wc) \<and> iswdigit wc = isdigit (sint wc) \<and> iswxdigit wc = isxdigit (sint wc) \<and>
    iswalnum wc = isalnum (sint wc) \<and> iswpunct wc = ispunct (sint wc) \<and>
    iswspace wc = isspace (sint wc) \<and> iswcntrl wc = iscntrl (sint wc) \<and>
    (iswblank wc \<longleftrightarrow> 9 \<le> unat wc \<and> unat wc \<le> 0x20) \<and>
    (iswprint wc \<longleftrightarrow> isprint (sint wc) \<or> 9 \<le> unat wc \<and> unat wc \<le> 0x1F) \<and>
    (iswgraph wc \<longleftrightarrow> isgraph (sint wc) \<or> 0xE \<le> unat wc \<and> unat wc \<le> 0x1F)"
proof -
  define c where "c = unat wc"
  have c: "unat wc = c" "sint wc = int c" "c < 0x80" and low: "\<not> 0xFFFF < c"
    using assms sint_ascii [OF assms] by (simp_all add: c_def)
  note rows = ascii_rows [OF c(3)]
  have neq: "wc \<noteq> WEOF" using assms by (auto simp: WEOF_def)
  have upper: "iswupper wc = isupper (int c)" and lower: "iswlower wc = islower (int c)"
    and punct: "iswpunct wc = ispunct (int c)" and modif: "\<not> is_modif wc"
    unfolding iswupper_def iswlower_def iswpunct_def is_modif_def class_members member_def c(1) rows
      isupper_def islower_def ispunct_def using low rows by auto
  have other: "\<not> is_other wc"
    using in_row_ascii [OF c(3)] c neq
    by (simp add: is_other_def iswmacro_def word_less_nat_alt)
  have title: "\<not> is_titlecase wc"
    using c by (simp add: is_titlecase_def titlecase_letters_def)
  have alpha: "iswalpha wc = isalpha (int c)"
    using upper lower modif other title c by (auto simp: iswalpha_def isalpha_def)
  have alnum: "iswalnum wc = isalnum (int c)"
    using alpha c by (auto simp: iswalnum_def isalnum_def iswdigit_def)
  have num: "wc = numeral k \<longleftrightarrow> c = unat (numeral k :: u32)" for k
    using c(1) by (auto simp: word_unat_eq_iff)
  have space: "iswspace wc = isspace (int c)" and cntrl: "iswcntrl wc = iscntrl (int c)"
    and blank: "iswblank wc \<longleftrightarrow> 9 \<le> c \<and> c \<le> 0x20"
    using c(3) unfolding iswspace_def iswcntrl_def iswblank_def isspace_def iscntrl_def num
      word_le_nat_alt c(1) by auto
  have rest: "is_the_rest wc \<longleftrightarrow> 0x30 \<le> c \<and> c \<le> 0x39"
    unfolding is_the_rest_def class_members member_def c(1) rows using low by auto
  have print: "iswprint wc \<longleftrightarrow> isprint (int c) \<or> 9 \<le> c \<and> c \<le> 0x1F"
    unfolding iswprint_def rest space blank punct alnum c(2) using neq ascii_print [of c] by simp
  have graph: "iswgraph wc \<longleftrightarrow> isgraph (int c) \<or> 0xE \<le> c \<and> c \<le> 0x1F"
    unfolding iswgraph_def print space using neq ascii_graph [of c] by simp
  show ?thesis
    unfolding c(1,2) using upper lower punct alpha alnum space cntrl blank print graph c(2)
    by (simp add: iswdigit_def iswxdigit_def)
qed

theorem wide_ascii_witness: "iswalpha 0x41 \<and> \<not> iswalpha 0x30 \<and> iswblank 0xA \<and> iswprint 0xA \<and> iswgraph 0xE"
  using wide_ascii [of "0x41"] wide_ascii [of "0x30"] wide_ascii [of "0xA"] wide_ascii [of "0xE"]
  by (simp add: isalpha_def isupper_def islower_def)

subsection \<open>Case mapping\<close>

interpretation delta: sorted_keys "\<lambda>i. fst (towupper_delta_list ! i)" "length towupper_delta_list"
  by (rule sorted_keysI) (simp_all add: towupper_delta_list_def)

lemma not_excluded: "c < 0xDF \<Longrightarrow> \<not> in_ranges towupper_exclusions c"
proof -
  have "list_all (\<lambda>(a, b). 0xDF \<le> a) towupper_exclusions"
    by (simp add: towupper_exclusions_def)
  then show "c < 0xDF \<Longrightarrow> \<not> in_ranges towupper_exclusions c"
    by (fastforce simp: in_ranges_def list_all_iff)
qed

lemma no_exception: "i < length towupper_delta_list_ex \<Longrightarrow> 0xB5 \<le> fst (towupper_delta_list_ex ! i)"
proof -
  have "list_all (\<lambda>r. 0xB5 \<le> fst r) towupper_delta_list_ex"
    by (simp add: towupper_delta_list_ex_rows)
  then show "i < length towupper_delta_list_ex \<Longrightarrow> 0xB5 \<le> fst (towupper_delta_list_ex ! i)"
    by (simp add: list_all_length)
qed

lemma delta_row_0:
  assumes "0x41 \<le> c" and "c < 0x100"
  shows "binary_search (\<lambda>i. fst (towupper_delta_list ! i)) (length towupper_delta_list) False c = Some 0"
proof -
  obtain i where i: "i < length towupper_delta_list" "i = 0 \<or> fst (towupper_delta_list ! i) \<le> c"
      "binary_search (\<lambda>i. fst (towupper_delta_list ! i)) (length towupper_delta_list) False c = Some i"
    using delta.binary_search_correct [of False c] assms by auto
  have "fst (towupper_delta_list ! 1) = 0x100"
    by (simp add: towupper_delta_list_def)
  then have "i = 0"
    using delta.key_mono [of 1 i] i(1,2) assms by (cases "i = 0") auto
  with i show ?thesis by simp
qed

lemma case_low_latin:
  assumes "0x41 \<le> unat wc" and "unat wc < 0xB5"
  shows "case_low flagged plain wc = flagged wc 32"
proof -
  have ex: "towupper_delta_list_ex ! i \<noteq> (unat wc, d, f)"
    if "binary_search k (length towupper_delta_list_ex) False (unat wc) = Some i" for k i d f
    using no_exception [OF binary_search_bound [OF that]] assms by (cases "towupper_delta_list_ex ! i") auto
  have row: "towupper_delta_list ! 0 = (0x41, 0xFE, 32, 1)"
    by (simp add: towupper_delta_list_def)
  show ?thesis
    using delta_row_0 [of "unat wc"] assms ex row
    by (auto simp: case_low_def Let_def split: option.splits prod.splits)
qed

text \<open>the case mappings shift the ASCII letters the wrong way: \<open>towupper\<close> adds 32 to a lower-case
  letter and \<open>towlower\<close> subtracts 32 from an upper-case letter, where \<open>toupper\<close> and \<open>tolower\<close> do the
  opposite.\<close>

theorem case_ascii_reversed:
  assumes l: "0x61 \<le> unat lc" "unat lc \<le> 0x7A" and u: "0x41 \<le> unat uc" "unat uc \<le> 0x5A"
  shows "towupper lc = Some (lc + 32) \<and> towlower uc = Some (uc - 32) \<and>
    toupper (sint lc) = sint lc - 32 \<and> tolower (sint uc) = sint uc + 32"
proof -
  have s: "97 \<le> sint lc" "sint lc \<le> 122" "65 \<le> sint uc" "sint uc \<le> 90"
    using sint_ascii [of lc] sint_ascii [of uc] l u by linarith+
  have cls: "iswlower lc" "iswupper uc"
    using ascii_rows(1) [of "unat uc"] ascii_rows(2) [of "unat lc"] l u
    by (auto simp: iswlower_def iswupper_def class_members member_def)
  have weof: "lc \<noteq> WEOF" "uc \<noteq> WEOF" "lc \<noteq> 0xDF" and high: "\<not> 0xFFFF < lc" "\<not> 0xFFFF < uc"
    using l u by (auto simp: WEOF_def word_less_nat_alt)
  have "\<not> is_nontrivial lc" "\<not> is_nontrivial uc"
    using in_row_sound [of towupper_exclusions "unat lc"] not_excluded [of "unat lc"]
      in_row_sound [of towupper_exclusions "unat uc"] not_excluded [of "unat uc"] l u weof high
    by (auto simp: is_nontrivial_def iswmacro_def)
  then show ?thesis
    using cls weof high case_low_latin [of lc] case_low_latin [of uc] l u s
    by (simp add: towupper_def towlower_def toupper_def tolower_def isupper_def islower_def)
qed

theorem case_ascii_reversed_witness: "towupper 0x61 = Some 0x81 \<and> towlower 0x41 = Some 0x21"
  using case_ascii_reversed [of "0x61" "0x41"] by simp

text \<open>no character of the supplementary planes is mapped: for every code point from U+10000 to
  U+10FFFF both mappings return their argument, because the table of 16-bit rows is searched and
  read as one of 32-bit rows.\<close>

theorem case_high_identity:
  assumes "0x10000 \<le> unat wc" and "unat wc \<le> 0x10FFFF"
  shows "towupper wc = Some wc \<and> towlower wc = Some wc"
proof -
  have rows: "length towupper_delta_list_high = 7" "length delta_high_shorts = 21"
    by (simp_all add: towupper_delta_list_high_def delta_high_shorts_def)
  have keys: "\<exists>e. delta_high_ex i 0 = Some e \<and> e > 0x10FFFF" if "i < 7" for i
  proof -
    from that consider "i = 0" | "i = 1" | "i = 2" | "i = 3" | "i = 4" | "i = 5" | "i = 6" by linarith
    then show ?thesis
      by cases (simp_all add: delta_high_ex_def delta_high_shorts_def towupper_delta_list_high_def)
  qed
  have "case_high f wc = Some wc" for f
  proof (cases "binary_search (\<lambda>i. delta_high_shorts ! (3 * i) + 0x10000 * delta_high_shorts ! (3 * i + 1))
      (length towupper_delta_list_high) True (unat wc)")
    case None
    then show ?thesis by (simp add: case_high_def)
  next
    case (Some i)
    from binary_search_bound [OF this] obtain e where "delta_high_ex i 0 = Some e" "e > 0x10FFFF"
      using keys [of i] rows by auto
    with Some assms show ?thesis by (simp add: case_high_def)
  qed
  moreover have "wc \<noteq> 0xDF"
    using assms by auto
  ultimately show ?thesis
    using assms by (auto simp: towupper_def towlower_def word_less_nat_alt)
qed

theorem case_high_identity_witness: "towlower 0x10400 = Some 0x10400"
  using case_high_identity [of "0x10400"] by simp

end
