(* ===== verification/Users.thy ===== *)
theory Users
  imports Prelude
begin

text \<open>
  The identity calls of \<open>src/users.c\<close> on the credentials of the calling process, and the permission
  check \<open>inode_check_perm\<close> of \<open>src/fs/fs.c\<close> that uses them. \<open>uid_t\<close> and \<open>gid_t\<close> are 32-bit words
  and \<open>-1\<close> is their largest value. Each call returns its error or \<open>0\<close> together with the credentials
  afterwards.
\<close>

subsection \<open>Credentials\<close>

record creds =
  uid :: u32
  euid :: u32
  suid :: u32
  gid :: u32
  egid :: u32
  sgid :: u32
  sup_groups :: "u32 list"
  ngroup :: nat

definition NGROUPS_MAX :: nat where
  "NGROUPS_MAX = 16"

text \<open>\<open>(uid_t)-1\<close>, the id that means no change.\<close>

definition no_id :: u32 where
  "no_id = - 1"

definition sys_setgid :: "u32 \<Rightarrow> creds \<Rightarrow> unit sysret \<times> creds" where
  "sys_setgid g p =
     (if g = no_id then (Inl EINVAL, p)
      else if euid p = 0 then (Inr (), p\<lparr>gid := g, egid := g, sgid := g\<rparr>)
      else if g = gid p \<or> g = sgid p then (Inr (), p\<lparr>egid := g\<rparr>)
      else (Inl EPERM, p))"

definition sys_setegid :: "u32 \<Rightarrow> creds \<Rightarrow> unit sysret \<times> creds" where
  "sys_setegid g p =
     (if g = no_id then (Inl EINVAL, p)
      else if euid p = 0 \<or> g = gid p \<or> g = sgid p then (Inr (), p\<lparr>egid := g\<rparr>)
      else (Inl EPERM, p))"

definition sys_setregid :: "u32 \<Rightarrow> u32 \<Rightarrow> creds \<Rightarrow> unit sysret \<times> creds" where
  "sys_setregid rg eg p =
     (if rg \<noteq> no_id \<and> euid p \<noteq> 0 \<and> rg \<noteq> sgid p then (Inl EPERM, p)
      else if eg \<noteq> no_id \<and> euid p \<noteq> 0 \<and> eg \<noteq> sgid p \<and> eg \<noteq> gid p then (Inl EPERM, p)
      else let p = (if rg \<noteq> no_id then p\<lparr>gid := rg\<rparr> else p);
               p = (if eg \<noteq> no_id then p\<lparr>egid := eg\<rparr> else p);
               p = (if egid p \<noteq> gid p \<or> rg \<noteq> no_id then p\<lparr>sgid := egid p\<rparr> else p)
           in (Inr (), p))"

definition sys_setresgid :: "u32 \<Rightarrow> u32 \<Rightarrow> u32 \<Rightarrow> creds \<Rightarrow> unit sysret \<times> creds" where
  "sys_setresgid rg eg sg p =
     (if rg \<noteq> no_id \<and> euid p \<noteq> 0 \<and> rg \<noteq> gid p \<and> rg \<noteq> egid p \<and> rg \<noteq> sgid p then (Inl EPERM, p)
      else if eg \<noteq> no_id \<and> euid p \<noteq> 0 \<and> eg \<noteq> gid p \<and> eg \<noteq> egid p \<and> eg \<noteq> sgid p then (Inl EPERM, p)
      else if sg \<noteq> no_id \<and> euid p \<noteq> 0 \<and> sg \<noteq> gid p \<and> sg \<noteq> egid p \<and> sg \<noteq> sgid p then (Inl EPERM, p)
      else let p = (if rg \<noteq> no_id then p\<lparr>gid := rg\<rparr> else p);
               p = (if eg \<noteq> no_id then p\<lparr>egid := eg\<rparr> else p);
               p = (if sg \<noteq> no_id then p\<lparr>sgid := sg\<rparr> else p)
           in (Inr (), p))"

definition sys_setuid :: "u32 \<Rightarrow> creds \<Rightarrow> unit sysret \<times> creds" where
  "sys_setuid u p =
     (if u = no_id then (Inl EINVAL, p)
      else if euid p = 0 then (Inr (), p\<lparr>uid := u, euid := u, suid := u\<rparr>)
      else if u = uid p \<or> u = suid p then (Inr (), p\<lparr>euid := u\<rparr>)
      else (Inl EPERM, p))"

definition sys_seteuid :: "u32 \<Rightarrow> creds \<Rightarrow> unit sysret \<times> creds" where
  "sys_seteuid u p =
     (if u = no_id then (Inl EINVAL, p)
      else if euid p = 0 \<or> u = uid p \<or> u = suid p then (Inr (), p\<lparr>euid := u\<rparr>)
      else (Inl EPERM, p))"

definition sys_setreuid :: "u32 \<Rightarrow> u32 \<Rightarrow> creds \<Rightarrow> unit sysret \<times> creds" where
  "sys_setreuid ru eu p =
     (if ru \<noteq> no_id \<and> euid p \<noteq> 0 \<and> ru \<noteq> suid p \<and> ru \<noteq> euid p \<and> ru \<noteq> uid p then (Inl EPERM, p)
      else if eu \<noteq> no_id \<and> euid p \<noteq> 0 \<and> eu \<noteq> suid p \<and> eu \<noteq> euid p \<and> eu \<noteq> uid p then (Inl EPERM, p)
      else let p = (if ru \<noteq> no_id then p\<lparr>uid := ru\<rparr> else p);
               p = (if eu \<noteq> no_id then p\<lparr>euid := eu\<rparr> else p);
               p = (if euid p \<noteq> uid p \<or> ru \<noteq> no_id then p\<lparr>suid := euid p\<rparr> else p)
           in (Inr (), p))"

definition sys_setresuid :: "u32 \<Rightarrow> u32 \<Rightarrow> u32 \<Rightarrow> creds \<Rightarrow> unit sysret \<times> creds" where
  "sys_setresuid ru eu su p =
     (if ru \<noteq> no_id \<and> euid p \<noteq> 0 \<and> ru \<noteq> suid p \<and> ru \<noteq> euid p \<and> ru \<noteq> uid p then (Inl EPERM, p)
      else if eu \<noteq> no_id \<and> euid p \<noteq> 0 \<and> eu \<noteq> suid p \<and> eu \<noteq> euid p \<and> eu \<noteq> uid p then (Inl EPERM, p)
      else if su \<noteq> no_id \<and> euid p \<noteq> 0 \<and> su \<noteq> suid p \<and> su \<noteq> euid p \<and> su \<noteq> uid p then (Inl EPERM, p)
      else let p = (if ru \<noteq> no_id then p\<lparr>uid := ru\<rparr> else p);
               p = (if eu \<noteq> no_id then p\<lparr>euid := eu\<rparr> else p);
               p = (if su \<noteq> no_id then p\<lparr>suid := su\<rparr> else p)
           in (Inr (), p))"

text \<open>\<open>gidsetsize\<close> is a signed \<open>int\<close>; the list returned is what is copied to the caller's buffer.\<close>

definition sys_getgroups :: "int \<Rightarrow> creds \<Rightarrow> (nat \<times> u32 list) sysret" where
  "sys_getgroups gidsetsize p =
     (if gidsetsize < 0 then Inl EINVAL
      else if gidsetsize = 0 then Inr (ngroup p, [])
      else let copied = (if nat gidsetsize > ngroup p then ngroup p else nat gidsetsize)
           in Inr (copied, take copied (sup_groups p)))"

definition sys_setgroups :: "int \<Rightarrow> u32 list \<Rightarrow> creds \<Rightarrow> unit sysret \<times> creds" where
  "sys_setgroups gidsetsize grouplist p =
     (if gidsetsize \<le> 0 \<or> gidsetsize > int NGROUPS_MAX then (Inl EINVAL, p)
      else if euid p \<noteq> 0 then (Inl EPERM, p)
      else let n = nat gidsetsize
           in (Inr (), p\<lparr>sup_groups := take n grouplist @ drop n (sup_groups p), ngroup := n\<rparr>))"

subsection \<open>The permission check\<close>

record inode =
  i_mode :: u32
  i_uid :: u32
  i_gid :: u32

definition S_ISDIR :: "u32 \<Rightarrow> bool" where
  "S_ISDIR m \<longleftrightarrow> m AND 0xF000 = 0x4000"

definition S_ISLNK :: "u32 \<Rightarrow> bool" where
  "S_ISLNK m \<longleftrightarrow> m AND 0xF000 = 0xA000"

fun group_loop :: "inode \<Rightarrow> u32 \<Rightarrow> u32 list \<Rightarrow> bool" where
  "group_loop i amode [] = False"
| "group_loop i amode (g # gs) =
     (if i_gid i = g \<and> i_mode i AND amode = amode then True else group_loop i amode gs)"

definition inode_check_perm :: "inode \<Rightarrow> u32 \<Rightarrow> bool \<Rightarrow> creds \<Rightarrow> unit sysret" where
  "inode_check_perm i amode eaccess p =
     (let amode = amode AND 7;
          target_uid = (if eaccess then euid p else uid p);
          target_gid = (if eaccess then egid p else gid p);
          ret = (Inl EACCES :: unit sysret)
      in if target_uid = 0 \<and> amode AND 1 \<noteq> 0 \<and> i_mode i AND 0x49 = 0 \<and>
            \<not> (S_ISDIR (i_mode i) \<or> S_ISLNK (i_mode i))
         then ret
         else let ret = (if target_uid = 0 then Inr () else ret);
                  amode = push_bit 6 amode;
                  ret = (if i_uid i = target_uid \<and> i_mode i AND amode = amode then Inr () else ret);
                  amode = drop_bit 3 amode;
                  ret = (if i_gid i = target_gid \<and> i_mode i AND amode = amode then Inr () else ret)
              in if group_loop i amode (take (ngroup p) (sup_groups p)) then Inr ()
                 else let amode = drop_bit 3 amode
                      in if i_mode i AND amode = amode then Inr () else ret)"

subsection \<open>All calls as a transition relation\<close>

datatype cred_call =
    Setgid u32 | Setegid u32 | Setregid u32 u32 | Setresgid u32 u32 u32
  | Setuid u32 | Seteuid u32 | Setreuid u32 u32 | Setresuid u32 u32 u32
  | Setgroups int "u32 list"

fun run_call :: "cred_call \<Rightarrow> creds \<Rightarrow> unit sysret \<times> creds" where
  "run_call (Setgid g) p = sys_setgid g p"
| "run_call (Setegid g) p = sys_setegid g p"
| "run_call (Setregid r e) p = sys_setregid r e p"
| "run_call (Setresgid r e s) p = sys_setresgid r e s p"
| "run_call (Setuid u) p = sys_setuid u p"
| "run_call (Seteuid u) p = sys_seteuid u p"
| "run_call (Setreuid r e) p = sys_setreuid r e p"
| "run_call (Setresuid r e s) p = sys_setresuid r e s p"
| "run_call (Setgroups n gs) p = sys_setgroups n gs p"

inductive cred_reach :: "creds \<Rightarrow> creds \<Rightarrow> bool" where
  start: "cred_reach p p"
| step: "cred_reach p q \<Longrightarrow> cred_reach p (snd (run_call c q))"

lemmas call_defs = sys_setgid_def sys_setegid_def sys_setregid_def sys_setresgid_def sys_setuid_def
  sys_seteuid_def sys_setreuid_def sys_setresuid_def sys_setgroups_def

definition uids :: "creds \<Rightarrow> u32 set" where
  "uids p = {uid p, euid p, suid p}"

definition gids :: "creds \<Rightarrow> u32 set" where
  "gids p = {gid p, egid p, sgid p}"

text \<open>The proof goes through a call branch by branch, with the ids allowed fixed.\<close>

definition within :: "u32 set \<Rightarrow> u32 set \<Rightarrow> u32 list \<Rightarrow> nat \<Rightarrow> creds \<Rightarrow> bool" where
  "within U G gs n p \<longleftrightarrow> uids p \<subseteq> U \<and> gids p \<subseteq> G \<and> sup_groups p = gs \<and> ngroup p = n"

lemma within_self: "within (uids p) (gids p) (sup_groups p) (ngroup p) p"
  by (simp add: within_def)

lemma within_update [intro]:
  assumes "within U G gs n p"
  shows "x \<in> U \<Longrightarrow> within U G gs n (p\<lparr>uid := x\<rparr>)" and "x \<in> U \<Longrightarrow> within U G gs n (p\<lparr>euid := x\<rparr>)"
    and "x \<in> U \<Longrightarrow> within U G gs n (p\<lparr>suid := x\<rparr>)" and "x \<in> G \<Longrightarrow> within U G gs n (p\<lparr>gid := x\<rparr>)"
    and "x \<in> G \<Longrightarrow> within U G gs n (p\<lparr>egid := x\<rparr>)" and "x \<in> G \<Longrightarrow> within U G gs n (p\<lparr>sgid := x\<rparr>)"
    and "euid p \<in> U" and "egid p \<in> G"
  using assms by (auto simp: within_def uids_def gids_def)

lemma within_branch:
  "(c \<Longrightarrow> within U G gs n (snd x)) \<Longrightarrow> (\<not> c \<Longrightarrow> within U G gs n (snd y)) \<Longrightarrow>
    within U G gs n (snd (if c then x else y))"
  "within U G gs n p \<Longrightarrow> within U G gs n (snd (r, p))"
  "within U G gs n q \<Longrightarrow> (\<And>p. within U G gs n p \<Longrightarrow> within U G gs n (snd (f p))) \<Longrightarrow>
    within U G gs n (snd (let p = q in f p))"
  "within U G gs n p \<Longrightarrow> (c \<Longrightarrow> within U G gs n p \<Longrightarrow> within U G gs n q) \<Longrightarrow>
    within U G gs n (if c then q else p)"
  by (auto simp: Let_def)

lemma call_unprivileged:
  assumes "euid p \<noteq> 0"
  shows "within (uids p) (gids p) (sup_groups p) (ngroup p) (snd (run_call c p))"
proof -
  note self = within_self [of p]
  show ?thesis
    by (cases c; simp only: run_call.simps call_defs; intro within_branch self)
      (use assms self in \<open>auto intro!: within_update simp: uids_def gids_def\<close>)
qed

lemma reach_within:
  "cred_reach p q \<Longrightarrow> 0 \<notin> uids p \<Longrightarrow> within (uids p) (gids p) (sup_groups p) (ngroup p) q"
proof (induction rule: cred_reach.induct)
  case (start p)
  show ?case by (rule within_self)
next
  case (step p q c)
  then have q: "within (uids p) (gids p) (sup_groups p) (ngroup p) q" by simp
  with step.prems have "euid q \<noteq> 0"
    by (auto simp: within_def uids_def)
  from call_unprivileged [OF this, of c] q show ?case
    by (auto simp: within_def)
qed

text \<open>C4: no sequence of identity calls raises privilege: from credentials in which none of the three
  user ids is 0, every reachable state has its user ids among the initial user ids, its group ids
  among the initial group ids, and the initial supplementary groups. In particular no user id is
  ever 0.\<close>

theorem no_privilege_gain:
  assumes "cred_reach p q" and "0 \<notin> uids p"
  shows "uids q \<subseteq> uids p \<and> gids q \<subseteq> gids p \<and> sup_groups q = sup_groups p \<and> ngroup q = ngroup p \<and>
    0 \<notin> uids q"
  using reach_within [OF assms] assms(2) by (auto simp: within_def)

theorem no_privilege_gain_witness:
  "0 \<notin> uids (snd (run_call (Setresuid 7 0 7)
     \<lparr>uid = 5, euid = 6, suid = 7, gid = 8, egid = 8, sgid = 8, sup_groups = [], ngroup = 0\<rparr>))"
proof -
  let ?p = "\<lparr>uid = 5, euid = 6, suid = 7, gid = 8, egid = 8, sgid = 8, sup_groups = [], ngroup = 0\<rparr>"
  have "cred_reach ?p (snd (run_call (Setresuid 7 0 7) ?p))"
    by (rule cred_reach.step [OF cred_reach.start])
  from no_privilege_gain [OF this] show ?thesis
    by (simp add: uids_def)
qed

text \<open>C39: dropping privileges is permanent: after \<open>setuid(u)\<close> by a process with effective user id 0,
  for a \<open>u\<close> that is neither 0 nor -1, no sequence of calls ever changes a user id again.\<close>

theorem setuid_drops:
  assumes "euid p = 0" and "u \<noteq> 0" and "u \<noteq> no_id" and "cred_reach (snd (sys_setuid u p)) q"
  shows "fst (sys_setuid u p) = Inr () \<and> uids q = {u}"
proof -
  have "uids (snd (sys_setuid u p)) = {u}"
    using assms by (simp add: sys_setuid_def uids_def)
  moreover have "uids q \<subseteq> uids (snd (sys_setuid u p))"
    using reach_within [OF assms(4)] calculation assms(2) by (auto simp: within_def)
  moreover have "uids q \<noteq> {}"
    by (simp add: uids_def)
  ultimately show ?thesis
    using assms by (auto simp: sys_setuid_def)
qed

theorem setuid_drops_witness:
  "fst (sys_setuid 1000 \<lparr>uid = 0, euid = 0, suid = 0, gid = 0, egid = 0, sgid = 0, sup_groups = [],
      ngroup = 0\<rparr>) = Inr ()"
  using setuid_drops [OF _ _ _ cred_reach.start, of
    "\<lparr>uid = 0, euid = 0, suid = 0, gid = 0, egid = 0, sgid = 0, sup_groups = [], ngroup = 0\<rparr>" 1000]
  by (simp add: no_id_def)

lemma group_loop_iff: "group_loop i amode gs \<longleftrightarrow> i_gid i \<in> set gs \<and> i_mode i AND amode = amode"
  by (induction gs) auto

lemma bit_access: "bit (a AND 7 :: u32) n \<Longrightarrow> n < 3"
proof -
  have "(7 :: u32) = mask 3"
    by (simp add: mask_eq_exp_minus_1)
  then show "bit (a AND 7 :: u32) n \<Longrightarrow> n < 3"
    by (simp add: bit_and_iff bit_mask_iff)
qed

lemma shift_access:
  fixes x :: u32
  assumes "\<And>n. bit x n \<Longrightarrow> n < 3"
  shows "drop_bit 3 (push_bit 6 x) = push_bit 3 x" and "drop_bit 3 (push_bit 3 x) = x"
proof -
  have "bit (drop_bit 3 (push_bit 6 x)) n \<longleftrightarrow> bit (push_bit 3 x) n" if "n < 32" for n
    using assms [of "n - 3"] that by (auto simp: bit_drop_bit_eq bit_push_bit_iff)
  then show "drop_bit 3 (push_bit 6 x) = push_bit 3 x"
    by (intro bit_word_eqI) simp
  have "bit (drop_bit 3 (push_bit 3 x)) n \<longleftrightarrow> bit x n" if "n < 32" for n
    using assms [of n] that by (auto simp: bit_drop_bit_eq bit_push_bit_iff)
  then show "drop_bit 3 (push_bit 3 x) = x"
    by (intro bit_word_eqI) simp
qed

lemma access_shifts:
  "drop_bit 3 (push_bit 6 (a AND 7 :: u32)) = push_bit 3 (a AND 7)"
  "drop_bit 3 (push_bit 3 (a AND 7 :: u32)) = a AND 7"
  by (rule shift_access, erule bit_access)+

definition grants :: "inode \<Rightarrow> u32 \<Rightarrow> nat \<Rightarrow> bool" where
  "grants i amode shift \<longleftrightarrow>
     i_mode i AND push_bit shift (amode AND 7) = push_bit shift (amode AND 7)"

text \<open>C20: what \<open>inode_check_perm\<close> grants to a process whose user id is not 0: exactly what some class
  that applies to it grants, owner, group or all others; the class of all others is consulted even
  for the owner and for members of the group.\<close>

theorem inode_check_perm_spec:
  assumes "u = (if eaccess then euid p else uid p)" and "g = (if eaccess then egid p else gid p)"
    and "u \<noteq> 0"
  shows "inode_check_perm i amode eaccess p = Inr () \<longleftrightarrow>
     i_uid i = u \<and> grants i amode 6 \<or>
     (i_gid i = g \<or> i_gid i \<in> set (take (ngroup p) (sup_groups p))) \<and> grants i amode 3 \<or>
     grants i amode 0"
  unfolding inode_check_perm_def group_loop_iff Let_def
  unfolding access_shifts assms(1,2) [symmetric]
  using assms(3) by (simp add: grants_def del: push_bit_and) blast

theorem inode_check_perm_spec_witness:
  "inode_check_perm \<lparr>i_mode = 0x804, i_uid = 7, i_gid = 0\<rparr> 4 True
     \<lparr>uid = 5, euid = 7, suid = 7, gid = 8, egid = 8, sgid = 8, sup_groups = [], ngroup = 0\<rparr> = Inr ()"
  using inode_check_perm_spec [of 7 True
    "\<lparr>uid = 5, euid = 7, suid = 7, gid = 8, egid = 8, sgid = 8, sup_groups = [], ngroup = 0\<rparr>" 8
    "\<lparr>i_mode = 0x804, i_uid = 7, i_gid = 0\<rparr>" 4]
  by (simp add: grants_def)

end
