(* ===== verification/ThreadQueue.thy ===== *)
theory ThreadQueue
  imports Prelude
begin

text \<open>
  The queues of blocked threads of \<open>src/kernel_sched_queue.c\<close>. A queue is a linked list whose first
  node is part of the queue itself; the \<open>prev\<close> field of the first node is meant to point to the
  last one. The heap of nodes and the heap of threads are explicit; the queue lock, held for the
  whole of each operation, and the switch to another thread at the end of the blocking variants
  have no effect on either. The address \<open>kalloc\<close> returns is an argument of the operation that calls
  it, \<open>NULL\<close> when memory is exhausted.
\<close>

datatype pstatus_t =
    SCHED_RUNNING | SCHED_RUNNABLE | SCHED_INTERR_SLEEP | SCHED_UNINTERR_SLEEP | SCHED_WAITING
  | SCHED_THREAD_CLEANUP | SCHED_V86_THREAD_CLEANUP | SCHED_DONT_SCHEDULE

record thread_t =
  instances :: u32
  tid :: int
  status :: pstatus_t
  futex_addr :: ptr
  futex_owner :: int
  is_waiting_on_futex :: bool
  owner_dead :: bool
  thread_magic :: u32

record tq_inner =
  parent_process :: ptr
  tq_thread :: ptr
  magic_queue_value :: u32
  tq_prev :: ptr
  tq_next :: ptr

record tq_state =
  nodes :: "ptr \<rightharpoonup> tq_inner"
  threads :: "ptr \<rightharpoonup> thread_t"

definition zero_node :: tq_inner where
  "zero_node = \<lparr>parent_process = NULL, tq_thread = NULL, magic_queue_value = 0, tq_prev = NULL, tq_next = NULL\<rparr>"

text \<open>Drop one reference to a thread and free it with the last one.\<close>

definition put_thread :: "(ptr \<rightharpoonup> thread_t) \<Rightarrow> ptr \<Rightarrow> thread_t \<Rightarrow> (ptr \<rightharpoonup> thread_t)" where
  "put_thread ts p t =
     (let n = instances t - 1 in if n = 0 then ts(p := None) else ts(p \<mapsto> t\<lparr>instances := n\<rparr>))"

text \<open>
  Taking the first entry off: the first node is cleared, or the second is copied into it and freed.
\<close>

definition pop :: "(ptr \<rightharpoonup> tq_inner) \<Rightarrow> ptr \<Rightarrow> (ptr \<rightharpoonup> tq_inner) option" where
  "pop ns q =
     do { h \<leftarrow> ns q;
          if tq_next h \<noteq> NULL
          then do { n \<leftarrow> ns (tq_next h); Some ((ns(q \<mapsto> n))(tq_next h := None)) }
          else Some (ns(q \<mapsto> zero_node)) }"

partial_function (option) tq_unblock :: "ptr \<Rightarrow> tq_state \<Rightarrow> tq_state option" where
  "tq_unblock q s =
     do { h \<leftarrow> nodes s q;
          if parent_process h = NULL then Some s
          else do {
            t \<leftarrow> threads s (tq_thread h);
            if instances t = 0 then None
            else do {
              let valid = (magic_queue_value h = thread_magic t);
              let ts = put_thread (threads s) (tq_thread h)
                         (if valid then t\<lparr>status := SCHED_RUNNABLE\<rparr> else t);
              ns \<leftarrow> pop (nodes s) q;
              let s = s\<lparr>nodes := ns, threads := ts\<rparr>;
              if valid then Some s else tq_unblock q s } } }"

definition thread_queue_unblock_nonreentrant :: "ptr \<Rightarrow> tq_state \<Rightarrow> tq_state option" where
  "thread_queue_unblock_nonreentrant q s = tq_unblock q s"

partial_function (option) thread_queue_unblock_all_nonreentrant :: "ptr \<Rightarrow> tq_state \<Rightarrow> tq_state option" where
  "thread_queue_unblock_all_nonreentrant q s =
     do { h \<leftarrow> nodes s q;
          if parent_process h \<noteq> NULL
          then do { s \<leftarrow> tq_unblock q s; thread_queue_unblock_all_nonreentrant q s }
          else Some s }"

definition tq_add :: "ptr \<Rightarrow> ptr \<Rightarrow> ptr \<Rightarrow> ptr \<Rightarrow> tq_state \<Rightarrow> tq_state option" where
  "tq_add q pprocess thr new s =
     do { t \<leftarrow> threads s thr;
          if instances t + 1 = 0xFFFFFFFF then None
          else do {
            let s = s\<lparr>threads := (threads s)(thr \<mapsto> t\<lparr>instances := instances t + 1\<rparr>)\<rparr>;
            h \<leftarrow> nodes s q;
            if parent_process h = NULL
            then Some (s\<lparr>nodes := (nodes s)(q \<mapsto> h\<lparr>parent_process := pprocess, tq_thread := thr,
                                       tq_prev := q, magic_queue_value := thread_magic t\<rparr>)\<rparr>)
            else do {
              ns \<leftarrow> upd (nodes s) (tq_prev h) (\<lambda>n. n\<lparr>tq_next := new\<rparr>);
              if new = NULL then None
              else do {
                let ns = ns(new \<mapsto> zero_node\<lparr>tq_prev := tq_prev h, parent_process := pprocess,
                                 tq_thread := thr, magic_queue_value := thread_magic t\<rparr>);
                ns \<leftarrow> upd ns q (\<lambda>n. n\<lparr>tq_prev := new\<rparr>);
                Some (s\<lparr>nodes := ns\<rparr>) } } } }"

definition thread_queue_add_nonreentrant :: "ptr \<Rightarrow> ptr \<Rightarrow> ptr \<Rightarrow> ptr \<Rightarrow> tq_state \<Rightarrow> tq_state option" where
  "thread_queue_add_nonreentrant q pprocess thr new s = tq_add q pprocess thr new s"

definition thread_queue_add ::
  "ptr \<Rightarrow> ptr \<Rightarrow> ptr \<Rightarrow> pstatus_t \<Rightarrow> ptr \<Rightarrow> tq_state \<Rightarrow> tq_state option" where
  "thread_queue_add q pprocess thr new_status new s =
     do { s \<leftarrow> tq_add q pprocess thr new s;
          ts \<leftarrow> upd (threads s) thr (\<lambda>t. t\<lparr>status := new_status\<rparr>);
          Some (s\<lparr>threads := ts\<rparr>) }"

subsection \<open>The queue as a list\<close>

type_synonym entry = "ptr \<times> ptr \<times> u32"

definition entry_of :: "tq_inner \<Rightarrow> entry" where
  "entry_of n = (parent_process n, tq_thread n, magic_queue_value n)"

fun chain :: "(ptr \<rightharpoonup> tq_inner) \<Rightarrow> ptr \<Rightarrow> ptr list \<Rightarrow> entry list \<Rightarrow> bool" where
  "chain ns p [] es \<longleftrightarrow> p = NULL \<and> es = []"
| "chain ns p (a # as) es \<longleftrightarrow>
     p = a \<and> a \<noteq> NULL \<and>
     (\<exists>n e es'. ns a = Some n \<and> es = e # es' \<and> entry_of n = e \<and> fst e \<noteq> NULL \<and> chain ns (tq_next n) as es')"

text \<open>
  \<open>listed ns q as es\<close>: from the queue \<open>q\<close> the entries \<open>es\<close> are reached, the first in the queue itself
  and the others in nodes at \<open>as\<close>. \<open>queue\<close> adds the links back: every node of \<open>as\<close> knows the one
  before it and the first node knows the last one.
\<close>

definition listed :: "(ptr \<rightharpoonup> tq_inner) \<Rightarrow> ptr \<Rightarrow> ptr list \<Rightarrow> entry list \<Rightarrow> bool" where
  "listed ns q as es \<longleftrightarrow> q \<noteq> NULL \<and> distinct (q # as) \<and>
     (if es = [] then as = [] \<and> (\<exists>n. ns q = Some n \<and> parent_process n = NULL \<and> tq_next n = NULL)
      else chain ns q (q # as) es)"

fun backlinks :: "(ptr \<rightharpoonup> tq_inner) \<Rightarrow> ptr \<Rightarrow> ptr list \<Rightarrow> bool" where
  "backlinks ns p [] \<longleftrightarrow> True"
| "backlinks ns p (a # as) \<longleftrightarrow> (\<exists>n. ns a = Some n \<and> tq_prev n = p) \<and> backlinks ns a as"

definition tail_ok :: "(ptr \<rightharpoonup> tq_inner) \<Rightarrow> ptr \<Rightarrow> ptr list \<Rightarrow> entry list \<Rightarrow> bool" where
  "tail_ok ns q as es \<longleftrightarrow> es \<noteq> [] \<longrightarrow> (\<exists>n. ns q = Some n \<and> tq_prev n = last (q # as))"

definition queue :: "(ptr \<rightharpoonup> tq_inner) \<Rightarrow> ptr \<Rightarrow> ptr list \<Rightarrow> entry list \<Rightarrow> bool" where
  "queue ns q as es \<longleftrightarrow> listed ns q as es \<and> tail_ok ns q as es \<and> backlinks ns q as"

text \<open>Every entry holds a reference to its thread.\<close>

definition refs_ok :: "(ptr \<rightharpoonup> thread_t) \<Rightarrow> entry list \<Rightarrow> bool" where
  "refs_ok ts es \<longleftrightarrow>
     (\<forall>p \<in> set (map (fst \<circ> snd) es). \<exists>t. ts p = Some t \<and> count_list (map (fst \<circ> snd) es) p \<le> unat (instances t))"

text \<open>The specification: entries leave from the front until one still names its thread's wait.\<close>

fun wake :: "(ptr \<rightharpoonup> thread_t) \<Rightarrow> entry list \<Rightarrow> (ptr \<rightharpoonup> thread_t) \<times> entry list" where
  "wake ts [] = (ts, [])"
| "wake ts ((p, thr, m) # es) =
     (case ts thr of
        None \<Rightarrow> (ts, es)
      | Some t \<Rightarrow>
          if m = thread_magic t then (put_thread ts thr (t\<lparr>status := SCHED_RUNNABLE\<rparr>), es)
          else wake (put_thread ts thr t) es)"

lemma chain_cong: "(\<And>a. a \<in> set as \<Longrightarrow> ns a = ns' a) \<Longrightarrow> chain ns p as es \<longleftrightarrow> chain ns' p as es"
  by (induction as arbitrary: p es) auto

lemma chain_dom: "chain ns p as es \<Longrightarrow> a \<in> set as \<Longrightarrow> \<exists>n. ns a = Some n"
  by (induction as arbitrary: p es) auto

lemma chain_length: "chain ns p as es \<Longrightarrow> length as = length es"
  by (induction as arbitrary: p es) auto

lemma put_thread_other [simp]: "p \<noteq> p' \<Longrightarrow> put_thread ts p t p' = ts p'"
  by (simp add: put_thread_def Let_def)

lemma refs_ok_put:
  assumes "refs_ok ts ((p, thr, m) # es)" and "ts thr = Some t" and "instances t' = instances t"
  shows "refs_ok (put_thread ts thr t') es"
  unfolding refs_ok_def
proof
  fix a assume a: "a \<in> set (map (fst \<circ> snd) es)"
  with assms(1) obtain u where u: "ts a = Some u"
      "count_list (map (fst \<circ> snd) ((p, thr, m) # es)) a \<le> unat (instances u)"
    by (fastforce simp: refs_ok_def)
  show "\<exists>t. put_thread ts thr t' a = Some t \<and> count_list (map (fst \<circ> snd) es) a \<le> unat (instances t)"
  proof (cases "a = thr")
    case False
    with u show ?thesis by auto
  next
    case True
    have pos: "count_list (map (fst \<circ> snd) es) a > 0"
      using a count_list_0_iff [of "map (fst \<circ> snd) es" a] by auto
    have inst: "Suc (count_list (map (fst \<circ> snd) es) a) \<le> unat (instances t')"
      using u True assms by simp
    then have "instances t' \<noteq> 0" and le: "1 \<le> instances t'"
      using pos by (auto simp: word_le_nat_alt)
    then have minus: "unat (instances t' - 1) = unat (instances t') - 1"
      by (simp add: unat_sub)
    with inst pos have "unat (instances t' - 1) \<noteq> 0"
      by linarith
    then have "instances t' - 1 \<noteq> 0"
      by (metis unat_0)
    then show ?thesis
      using True minus inst by (simp add: put_thread_def Let_def)
  qed
qed

lemma refs_ok_head:
  assumes "refs_ok ts ((p, thr, m) # es)"
  obtains t where "ts thr = Some t" "instances t \<noteq> 0"
proof -
  from assms obtain t where t: "ts thr = Some t"
      "count_list (map (fst \<circ> snd) ((p, thr, m) # es)) thr \<le> unat (instances t)"
    by (fastforce simp: refs_ok_def)
  then have "0 < unat (instances t)" by simp
  then have "instances t \<noteq> 0" by (metis less_irrefl unat_0)
  with t that show ?thesis by blast
qed

lemma backlinks_cong: "(\<And>a. a \<in> set as \<Longrightarrow> ns a = ns' a) \<Longrightarrow> backlinks ns p as \<longleftrightarrow> backlinks ns' p as"
  by (induction as arbitrary: p) auto

lemma listed_head:
  assumes "listed ns q as (e # es)"
  obtains h where "ns q = Some h" "entry_of h = e" "parent_process h \<noteq> NULL" "q \<noteq> NULL" "q \<notin> set as"
    "distinct as" "chain ns (tq_next h) as es"
  using assms by (auto simp: listed_def entry_of_def)

lemma listed_length: "listed ns q as (e # es) \<Longrightarrow> length as = length es"
  by (auto simp: listed_def dest: chain_length)

lemma pop_last:
  assumes "listed ns q [] [e]"
  shows "pop ns q = Some (ns(q \<mapsto> zero_node))" and "queue (ns(q \<mapsto> zero_node)) q [] []"
proof -
  obtain h where "ns q = Some h" "q \<noteq> NULL" "chain ns (tq_next h) [] []"
    by (rule listed_head [OF assms])
  then show "pop ns q = Some (ns(q \<mapsto> zero_node))" and "queue (ns(q \<mapsto> zero_node)) q [] []"
    by (simp_all add: pop_def queue_def listed_def tail_ok_def zero_node_def)
qed

lemma pop_next:
  assumes "listed ns q (b # as) (e # e' # es)"
  obtains n where "ns b = Some n" and "pop ns q = Some ((ns(q \<mapsto> n))(b := None))"
    and "listed ((ns(q \<mapsto> n))(b := None)) q as (e' # es)"
proof -
  obtain h where h: "ns q = Some h" "q \<noteq> NULL" "q \<notin> set (b # as)" "distinct (b # as)"
      "chain ns (tq_next h) (b # as) (e' # es)"
    by (rule listed_head [OF assms])
  from h(5) obtain n where n: "tq_next h = b" "b \<noteq> NULL" "ns b = Some n" "entry_of n = e'" "fst e' \<noteq> NULL"
      "chain ns (tq_next n) as es"
    by auto
  have "chain ((ns(q \<mapsto> n))(b := None)) (tq_next n) as es"
    using n(6) h(3,4) by (subst chain_cong [of as _ ns]) auto
  then have "listed ((ns(q \<mapsto> n))(b := None)) q as (e' # es)"
    using h(2,3,4) n by (auto simp: listed_def)
  moreover have "pop ns q = Some ((ns(q \<mapsto> n))(b := None))"
    using h(1) n by (simp add: pop_def)
  ultimately show ?thesis
    using n that by blast
qed

lemma listed_pop:
  assumes "listed ns q as (e # es)"
  obtains as' ns' where "pop ns q = Some ns'" and "listed ns' q as' es" and "set as' \<subseteq> set as"
    and "length es \<le> 1 \<longrightarrow> queue ns q as (e # es) \<longrightarrow> queue ns' q as' es"
proof (cases es)
  case Nil
  then have "as = []"
    using listed_length [OF assms] by simp
  with Nil assms have l: "listed ns q [] [e]" by simp
  show ?thesis
    by (rule that [OF pop_last(1) [OF l], of "[]"])
      (use pop_last(2) [OF l] Nil in \<open>auto simp: queue_def\<close>)
next
  case (Cons e' es')
  obtain b bs where as: "as = b # bs"
    using listed_length [OF assms] Cons by (cases as) auto
  obtain n where n: "ns b = Some n" "pop ns q = Some ((ns(q \<mapsto> n))(b := None))"
      "listed ((ns(q \<mapsto> n))(b := None)) q bs (e' # es')"
    by (rule pop_next [of ns q b bs e e' es']) (use assms as Cons in auto)
  have "queue ((ns(q \<mapsto> n))(b := None)) q bs es" if "length es \<le> 1" "queue ns q as (e # es)"
  proof -
    have "bs = []"
      using that listed_length [OF n(3)] Cons by simp
    moreover have "tq_prev n = q" "q \<noteq> b"
      using that(2) as n(1) by (auto simp: queue_def listed_def)
    ultimately show ?thesis
      using n(3) Cons by (auto simp: queue_def tail_ok_def)
  qed
  with n as Cons that [of "(ns(q \<mapsto> n))(b := None)" bs] show ?thesis
    by auto
qed

lemma tq_unblock_round:
  assumes "nodes s q = Some h" and "parent_process h \<noteq> NULL" and "threads s (tq_thread h) = Some t"
    and "instances t \<noteq> 0" and "pop (nodes s) q = Some ns'"
  shows "tq_unblock q s =
    (if magic_queue_value h = thread_magic t
     then Some (s\<lparr>nodes := ns', threads := put_thread (threads s) (tq_thread h) (t\<lparr>status := SCHED_RUNNABLE\<rparr>)\<rparr>)
     else tq_unblock q (s\<lparr>nodes := ns', threads := put_thread (threads s) (tq_thread h) t\<rparr>))"
  by (subst tq_unblock.simps) (simp add: assms Let_def)

lemma tq_unblock_empty: "listed (nodes s) q as [] \<Longrightarrow> tq_unblock q s = Some s"
  by (subst tq_unblock.simps) (auto simp: listed_def)

lemma tq_unblock_listed:
  assumes "listed (nodes s) q as es" and "refs_ok (threads s) es"
  shows "\<exists>ns as'. tq_unblock q s = Some (s\<lparr>nodes := ns, threads := fst (wake (threads s) es)\<rparr>) \<and>
    listed ns q as' (snd (wake (threads s) es)) \<and> refs_ok (fst (wake (threads s) es)) (snd (wake (threads s) es)) \<and>
    (length es \<le> 2 \<longrightarrow> queue (nodes s) q as es \<longrightarrow> queue ns q as' (snd (wake (threads s) es)))"
  using assms
proof (induction es arbitrary: s as)
  case Nil
  then show ?case
    using tq_unblock_empty [of s q as] by (intro exI [of _ "nodes s"] exI [of _ as]) simp
next
  case (Cons e es)
  obtain p thr m where e: "e = (p, thr, m)" by (cases e)
  obtain h where h: "nodes s q = Some h" "entry_of h = e" "parent_process h \<noteq> NULL"
    by (rule listed_head [OF Cons.prems(1)])
  from h(2) e have eh: "tq_thread h = thr" "magic_queue_value h = m"
    by (auto simp: entry_of_def)
  obtain t where t: "threads s thr = Some t" "instances t \<noteq> 0"
    by (rule refs_ok_head [of "threads s" p thr m es]) (use Cons.prems(2) e in auto)
  obtain as' ns' where pop: "pop (nodes s) q = Some ns'" and l: "listed ns' q as' es"
    and "set as' \<subseteq> set as"
    and k: "length es \<le> 1 \<longrightarrow> queue (nodes s) q as (e # es) \<longrightarrow> queue ns' q as' es"
    by (rule listed_pop [OF Cons.prems(1)]) blast
  note round = tq_unblock_round [OF h(1,3) _ t(2) pop, unfolded eh, OF t(1)]
  have refs: "refs_ok (put_thread (threads s) thr t') es" if "instances t' = instances t" for t'
    by (rule refs_ok_put [of "threads s" p thr m es t]) (use Cons.prems(2) e t(1) that in auto)
  show ?case
  proof (cases "m = thread_magic t")
    case True
    have w: "wake (threads s) (e # es) = (put_thread (threads s) thr (t\<lparr>status := SCHED_RUNNABLE\<rparr>), es)"
      using True e t by simp
    show ?thesis
      unfolding w using True round l k refs [of "t\<lparr>status := SCHED_RUNNABLE\<rparr>"]
      by (intro exI [of _ ns'] exI [of _ as']) simp
  next
    case False
    let ?s = "s\<lparr>nodes := ns', threads := put_thread (threads s) thr t\<rparr>"
    have w: "wake (threads s) (e # es) = wake (threads ?s) es"
      using False e t by simp
    have "\<exists>ns as''. tq_unblock q ?s = Some (?s\<lparr>nodes := ns, threads := fst (wake (threads ?s) es)\<rparr>) \<and>
        listed ns q as'' (snd (wake (threads ?s) es)) \<and>
        refs_ok (fst (wake (threads ?s) es)) (snd (wake (threads ?s) es)) \<and>
        (length es \<le> 2 \<longrightarrow> queue (nodes ?s) q as' es \<longrightarrow> queue ns q as'' (snd (wake (threads ?s) es)))"
      by (rule Cons.IH) (use l refs [of t] in auto)
    then obtain ns as'' where ih: "tq_unblock q ?s = Some (?s\<lparr>nodes := ns, threads := fst (wake (threads ?s) es)\<rparr>)"
        "listed ns q as'' (snd (wake (threads ?s) es))"
        "refs_ok (fst (wake (threads ?s) es)) (snd (wake (threads ?s) es))"
        "length es \<le> 2 \<longrightarrow> queue (nodes ?s) q as' es \<longrightarrow> queue ns q as'' (snd (wake (threads ?s) es))"
      by blast
    from False round ih(1) have "tq_unblock q s = Some (s\<lparr>nodes := ns, threads := fst (wake (threads ?s) es)\<rparr>)"
      by simp
    with ih(2-4) k show ?thesis
      unfolding w by (intro exI [of _ ns] exI [of _ as'']) simp
  qed
qed

subsection \<open>Adding\<close>

lemma chain_upd_last:
  assumes "chain ns p (as @ [l]) es" and "l \<notin> set as" and "new \<noteq> NULL" and "new \<notin> set (as @ [l])"
    and "ns l = Some n" and "entry_of m = e" and "fst e \<noteq> NULL" and "tq_next m = NULL"
  shows "chain (ns(l \<mapsto> n\<lparr>tq_next := new\<rparr>, new \<mapsto> m)) p (as @ [l, new]) (es @ [e])"
  using assms
proof (induction as arbitrary: p es)
  case Nil
  then show ?case by (auto simp: entry_of_def)
next
  case (Cons a as)
  then obtain k e' es' where "ns a = Some k" "es = e' # es'" "entry_of k = e'" "fst e' \<noteq> NULL"
      "chain ns (tq_next k) (as @ [l]) es'" "p = a" "a \<noteq> NULL"
    by auto
  moreover have "chain (ns(l \<mapsto> n\<lparr>tq_next := new\<rparr>, new \<mapsto> m)) (tq_next k) (as @ [l, new]) (es' @ [e])"
    by (rule Cons.IH) (use Cons.prems calculation in auto)
  ultimately show ?case
    using Cons.prems by (auto simp: fun_upd_def)
qed

lemma chain_set_prev:
  "ns q = Some n \<Longrightarrow> chain (ns(q \<mapsto> n\<lparr>tq_prev := x\<rparr>)) p as es \<longleftrightarrow> chain ns p as es"
  by (induction as arbitrary: p es) (auto simp: entry_of_def)

definition new_entry :: "ptr \<Rightarrow> ptr \<Rightarrow> thread_t \<Rightarrow> entry" where
  "new_entry pprocess thr t = (pprocess, thr, thread_magic t)"

definition new_node :: "ptr \<Rightarrow> ptr \<Rightarrow> thread_t \<Rightarrow> ptr \<Rightarrow> tq_inner" where
  "new_node pprocess thr t l =
     zero_node\<lparr>tq_prev := l, parent_process := pprocess, tq_thread := thr, magic_queue_value := thread_magic t\<rparr>"

lemma new_node_simps [simp]:
  "entry_of (new_node pprocess thr t l) = new_entry pprocess thr t"
  "tq_next (new_node pprocess thr t l) = NULL" "tq_prev (new_node pprocess thr t l) = l"
  by (simp_all add: new_node_def new_entry_def entry_of_def zero_node_def)

lemma tq_add_behind:
  fixes pprocess :: ptr
  assumes "threads s thr = Some t" and "instances t + 1 \<noteq> 0xFFFFFFFF"
    and "nodes s q = Some h" and "parent_process h \<noteq> NULL" and "nodes s (tq_prev h) = Some n"
    and "new \<noteq> NULL" and "new \<noteq> q"
  defines "ns \<equiv> (nodes s)(tq_prev h \<mapsto> n\<lparr>tq_next := new\<rparr>, new \<mapsto> new_node pprocess thr t (tq_prev h))"
  shows "tq_add q pprocess thr new s =
    Some (s\<lparr>threads := (threads s)(thr \<mapsto> t\<lparr>instances := instances t + 1\<rparr>),
            nodes := ns(q \<mapsto> (the (ns q))\<lparr>tq_prev := new\<rparr>)\<rparr>)"
  using assms(1-7) unfolding ns_def new_node_def
  by (cases "tq_prev h = q") (auto simp: tq_add_def upd_def)

lemma tq_add_empty:
  assumes "threads s thr = Some t" and "instances t + 1 \<noteq> 0xFFFFFFFF"
    and "listed (nodes s) q as []" and "pprocess \<noteq> NULL"
  obtains ns where "tq_add q pprocess thr new s =
      Some (s\<lparr>threads := (threads s)(thr \<mapsto> t\<lparr>instances := instances t + 1\<rparr>), nodes := ns\<rparr>)"
    and "queue ns q [] [new_entry pprocess thr t]"
proof -
  from assms(3) obtain h where h: "nodes s q = Some h" "parent_process h = NULL" "tq_next h = NULL" "q \<noteq> NULL"
    by (auto simp: listed_def)
  let ?h = "h\<lparr>parent_process := pprocess, tq_thread := thr, tq_prev := q, magic_queue_value := thread_magic t\<rparr>"
  have "tq_add q pprocess thr new s =
      Some (s\<lparr>threads := (threads s)(thr \<mapsto> t\<lparr>instances := instances t + 1\<rparr>), nodes := (nodes s)(q \<mapsto> ?h)\<rparr>)"
    using assms h by (simp add: tq_add_def)
  moreover have "queue ((nodes s)(q \<mapsto> ?h)) q [] [new_entry pprocess thr t]"
    using h assms(4) by (simp add: queue_def listed_def tail_ok_def new_entry_def entry_of_def)
  ultimately show ?thesis by (rule that)
qed

lemma backlinks_dom: "backlinks ns p as \<Longrightarrow> a \<in> set as \<Longrightarrow> ns a \<noteq> None"
  by (induction as arbitrary: p) auto

lemma backlinks_snoc:
  "backlinks ns p (as @ [a]) \<longleftrightarrow> backlinks ns p as \<and> (\<exists>n. ns a = Some n \<and> tq_prev n = last (p # as))"
  by (induction as arbitrary: p) auto

lemma backlinks_upd_next:
  "backlinks ns p as \<Longrightarrow> ns l = Some n \<Longrightarrow> backlinks (ns(l \<mapsto> n\<lparr>tq_next := x\<rparr>)) p as"
  by (induction as arbitrary: p) auto

lemma tq_add_queue:
  assumes "threads s thr = Some t" and "instances t + 1 \<noteq> 0xFFFFFFFF"
    and "queue (nodes s) q as es" and "pprocess \<noteq> NULL" and "new \<noteq> NULL" and "nodes s new = None"
  obtains ns as' where "tq_add q pprocess thr new s =
      Some (s\<lparr>threads := (threads s)(thr \<mapsto> t\<lparr>instances := instances t + 1\<rparr>), nodes := ns\<rparr>)"
    and "queue ns q as' (es @ [new_entry pprocess thr t])"
proof (cases es)
  case Nil
  with assms(3) have "listed (nodes s) q as []" by (simp add: queue_def)
  from tq_add_empty [OF assms(1,2) this assms(4)] that Nil show ?thesis
    by (metis append_Nil)
next
  case (Cons e es')
  with assms(3) have l: "listed (nodes s) q as (e # es')" and b: "backlinks (nodes s) q as"
    by (auto simp: queue_def)
  obtain h where h: "nodes s q = Some h" "parent_process h \<noteq> NULL" "q \<noteq> NULL" "q \<notin> set as" "distinct as"
    by (rule listed_head [OF l])
  have prev: "tq_prev h = last (q # as)"
    using assms(3) Cons h(1) by (auto simp: queue_def tail_ok_def)
  obtain xs where xs: "q # as = xs @ [last (q # as)]"
    by (metis append_butlast_last_id list.distinct(1))
  have c: "chain (nodes s) q (q # as) es"
    using l Cons by (simp add: listed_def)
  obtain n where n: "nodes s (tq_prev h) = Some n"
    using chain_dom [OF c, of "tq_prev h"] prev by (metis last_in_set list.distinct(1))
  have fresh: "new \<notin> set (q # as)"
    using chain_dom [OF c, of new] assms(6) by auto
  then have "new \<noteq> q" by simp
  define ns where "ns = (nodes s)(tq_prev h \<mapsto> n\<lparr>tq_next := new\<rparr>, new \<mapsto> new_node pprocess thr t (tq_prev h))"
  note eq = tq_add_behind [OF assms(1,2) h(1,2) n assms(5) \<open>new \<noteq> q\<close>, of pprocess, folded ns_def]
  have "chain (nodes s) q (xs @ [tq_prev h]) es"
    using c xs prev by metis
  moreover have "distinct (xs @ [tq_prev h])"
    using h(4,5) xs prev by (metis distinct.simps(2))
  moreover have "new \<notin> set (xs @ [tq_prev h])"
    using fresh xs prev by metis
  ultimately have "chain ns q (xs @ [tq_prev h, new]) (es @ [new_entry pprocess thr t])"
    unfolding ns_def using assms(4,5) n by (intro chain_upd_last) (auto simp: new_entry_def)
  moreover have "xs @ [tq_prev h, new] = q # as @ [new]"
    using xs prev by simp
  ultimately have chain: "chain ns q (q # as @ [new]) (es @ [new_entry pprocess thr t])"
    by simp
  then obtain h' where h': "ns q = Some h'" by auto
  let ?ns = "ns(q \<mapsto> h'\<lparr>tq_prev := new\<rparr>)"
  have "listed ?ns q (as @ [new]) (es @ [new_entry pprocess thr t])"
    using chain h(3,4,5) fresh chain_set_prev [of ns q h' new q "q # as @ [new]", OF h']
    by (simp add: listed_def del: chain.simps)
  moreover have "tail_ok ?ns q (as @ [new]) (es @ [new_entry pprocess thr t])"
    by (simp add: tail_ok_def)
  moreover have "backlinks ?ns q (as @ [new])"
  proof -
    have "backlinks ((nodes s)(tq_prev h \<mapsto> n\<lparr>tq_next := new\<rparr>)) q as"
      by (rule backlinks_upd_next [OF b n])
    then have "backlinks ns q as"
      unfolding ns_def using fresh by (subst backlinks_cong [of as _ "(nodes s)(tq_prev h \<mapsto> n\<lparr>tq_next := new\<rparr>)"]) auto
    then have "backlinks ?ns q as"
      using h(4) by (subst backlinks_cong [of as _ ns]) auto
    then show ?thesis
      using \<open>new \<noteq> q\<close> prev by (simp add: backlinks_snoc ns_def)
  qed
  ultimately show ?thesis
    using that eq h' by (auto simp: queue_def)
qed

subsection \<open>The contract of the queue\<close>

lemma unblock_all_listed:
  assumes "listed (nodes s) q as es" and "refs_ok (threads s) es"
  shows "\<exists>s'. thread_queue_unblock_all_nonreentrant q s = Some s' \<and> listed (nodes s') q [] []"
  using assms
proof (induction "length es" arbitrary: s as es rule: less_induct)
  case less
  show ?case
  proof (cases es)
    case Nil
    with less.prems show ?thesis
      by (subst thread_queue_unblock_all_nonreentrant.simps) (auto simp: listed_def)
  next
    case (Cons e es')
    obtain h where h: "nodes s q = Some h" "parent_process h \<noteq> NULL"
      by (rule listed_head [of "nodes s" q as e es']) (use less.prems Cons in auto)
    obtain ns as' where u: "tq_unblock q s = Some (s\<lparr>nodes := ns, threads := fst (wake (threads s) es)\<rparr>)"
        "listed ns q as' (snd (wake (threads s) es))"
        "refs_ok (fst (wake (threads s) es)) (snd (wake (threads s) es))"
      using tq_unblock_listed [OF less.prems] by blast
    have "length (snd (wake ts xs)) \<le> length xs - 1" for ts xs
      by (induction ts xs rule: wake.induct) (fastforce split: option.splits)+
    then have "length (snd (wake (threads s) es)) < length es"
      using Cons by (metis One_nat_def Suc_pred length_greater_0_conv less_Suc_eq_le list.distinct(1))
    from less.hyps [OF this, of "s\<lparr>nodes := ns, threads := fst (wake (threads s) es)\<rparr>" as'] u(2,3)
    obtain s' where "thread_queue_unblock_all_nonreentrant q
        (s\<lparr>nodes := ns, threads := fst (wake (threads s) es)\<rparr>) = Some s'" "listed (nodes s') q [] []"
      by auto
    with h u(1) show ?thesis
      by (subst thread_queue_unblock_all_nonreentrant.simps) simp
  qed
qed

text \<open>C5: the queue refines a FIFO list as long as at most two threads wait: adding a thread appends
  its entry, for a queue of any length, and unblocking takes entries off the front until one of
  them still names its thread's current wait, makes that thread runnable, drops one reference to
  each thread taken off, and leaves a well-formed queue.\<close>

theorem thread_queue_fifo:
  assumes "queue (nodes s) q as es" and "refs_ok (threads s) es" and "length es \<le> 2"
    and "threads s thr = Some t" and "instances t + 1 \<noteq> 0xFFFFFFFF"
    and "pprocess \<noteq> NULL" and "new \<noteq> NULL" and "nodes s new = None"
  shows "(\<exists>ns as'. thread_queue_add_nonreentrant q pprocess thr new s =
        Some (s\<lparr>threads := (threads s)(thr \<mapsto> t\<lparr>instances := instances t + 1\<rparr>), nodes := ns\<rparr>) \<and>
        queue ns q as' (es @ [new_entry pprocess thr t])) \<and>
    (\<exists>ns as'. thread_queue_unblock_nonreentrant q s =
        Some (s\<lparr>nodes := ns, threads := fst (wake (threads s) es)\<rparr>) \<and>
        queue ns q as' (snd (wake (threads s) es)))"
proof
  from tq_add_queue [OF assms(4,5,1,6,7,8)]
  show "\<exists>ns as'. thread_queue_add_nonreentrant q pprocess thr new s =
        Some (s\<lparr>threads := (threads s)(thr \<mapsto> t\<lparr>instances := instances t + 1\<rparr>), nodes := ns\<rparr>) \<and>
        queue ns q as' (es @ [new_entry pprocess thr t])"
    unfolding thread_queue_add_nonreentrant_def by metis
  have "listed (nodes s) q as es"
    using assms(1) by (simp add: queue_def)
  from tq_unblock_listed [OF this assms(2)] assms(1,3)
  show "\<exists>ns as'. thread_queue_unblock_nonreentrant q s =
        Some (s\<lparr>nodes := ns, threads := fst (wake (threads s) es)\<rparr>) \<and>
        queue ns q as' (snd (wake (threads s) es))"
    unfolding thread_queue_unblock_nonreentrant_def by blast
qed

text \<open>A queue of three waiting threads, built by three additions.\<close>

definition waiting :: thread_t where
  "waiting = \<lparr>instances = 1, tid = 1, status = SCHED_INTERR_SLEEP, futex_addr = NULL, futex_owner = 0,
     is_waiting_on_futex = False, owner_dead = False, thread_magic = 7\<rparr>"

definition idle_queue :: tq_state where
  "idle_queue = \<lparr>nodes = [100 \<mapsto> zero_node],
     threads = [11 \<mapsto> waiting, 12 \<mapsto> waiting, 13 \<mapsto> waiting, 14 \<mapsto> waiting]\<rparr>"

theorem thread_queue_fifo_witness:
  "\<exists>ns as'. thread_queue_add_nonreentrant 100 50 11 200 idle_queue =
     Some (idle_queue\<lparr>threads := (threads idle_queue)(11 \<mapsto> waiting\<lparr>instances := 2\<rparr>), nodes := ns\<rparr>) \<and>
     queue ns 100 as' [(50, 11, 7)]"
proof -
  have "queue (nodes idle_queue) 100 [] []"
    by (simp add: idle_queue_def queue_def listed_def tail_ok_def zero_node_def)
  moreover have "refs_ok (threads idle_queue) []"
    by (simp add: refs_ok_def)
  moreover have "threads idle_queue 11 = Some waiting" "nodes idle_queue 200 = None"
    by (simp_all add: idle_queue_def)
  ultimately show ?thesis
    using thread_queue_fifo [of idle_queue 100 "[]" "[]" 11 waiting 50 200]
    by (simp add: new_entry_def waiting_def)
qed

subsection \<open>Three waiting threads\<close>

lemma unblock_valid:
  assumes "listed (nodes s) q as ((p, thr, thread_magic t) # es)" and "threads s thr = Some t"
    and "instances t \<noteq> 0" and "pop (nodes s) q = Some ns"
  shows "thread_queue_unblock_nonreentrant q s =
    Some (s\<lparr>nodes := ns, threads := put_thread (threads s) thr (t\<lparr>status := SCHED_RUNNABLE\<rparr>)\<rparr>)"
proof -
  obtain h where h: "nodes s q = Some h" "entry_of h = (p, thr, thread_magic t)" "parent_process h \<noteq> NULL"
    by (rule listed_head [OF assms(1)])
  then show ?thesis
    using tq_unblock_round [OF h(1,3) _ assms(3,4)] assms(2)
    by (simp add: thread_queue_unblock_nonreentrant_def entry_of_def)
qed

text \<open>The state with three threads queued.\<close>

definition three_waiting :: tq_state where
  "three_waiting =
     \<lparr>nodes =
        [100 \<mapsto> \<lparr>parent_process = 50, tq_thread = 11, magic_queue_value = 7, tq_prev = 300, tq_next = 200\<rparr>,
         200 \<mapsto> \<lparr>parent_process = 50, tq_thread = 12, magic_queue_value = 7, tq_prev = 100, tq_next = 300\<rparr>,
         300 \<mapsto> \<lparr>parent_process = 50, tq_thread = 13, magic_queue_value = 7, tq_prev = 200, tq_next = NULL\<rparr>],
      threads = [11 \<mapsto> waiting, 12 \<mapsto> waiting, 13 \<mapsto> waiting, 14 \<mapsto> waiting]\<rparr>"

lemma queue_three:
  "queue (nodes three_waiting) 100 [200, 300]
     [(50, 11, thread_magic waiting), (50, 12, thread_magic waiting), (50, 13, 7)]"
  by (simp add: three_waiting_def queue_def listed_def tail_ok_def entry_of_def waiting_def)

text \<open>C25: with three or more threads waiting, waking one and then adding another loses all waiting
  threads but the first of them: the list reached from the queue afterwards has two entries, the
  second of the original threads and the new one. The threads in between are never woken by the
  queue again. After waking, the first node points back to itself instead of to the last node.\<close>

theorem thread_queue_loses_waiters:
  assumes "queue (nodes s) q (b # c # as) ((p1, t1, thread_magic th1) # e2 # e3 # es)"
    and "threads s t1 = Some th1" and "instances th1 \<noteq> 0"
    and "threads s thr = Some t" and "thr \<noteq> t1" and "instances t + 1 \<noteq> 0xFFFFFFFF"
    and "pprocess \<noteq> NULL" and "new \<noteq> NULL" and "new \<noteq> q"
  shows "\<exists>s'. do { s \<leftarrow> thread_queue_unblock_nonreentrant q s;
                  thread_queue_add_nonreentrant q pprocess thr new s } = Some s' \<and>
    listed (nodes s') q [new] [e2, new_entry pprocess thr t]"
proof -
  have l: "listed (nodes s) q (b # c # as) ((p1, t1, thread_magic th1) # e2 # e3 # es)"
    using assms(1) by (simp add: queue_def)
  obtain n where n: "nodes s b = Some n" "pop (nodes s) q = Some ((nodes s)(q \<mapsto> n, b := None))"
      "listed ((nodes s)(q \<mapsto> n, b := None)) q (c # as) (e2 # e3 # es)"
    by (rule pop_next [OF l])
  have n': "tq_prev n = q" "q \<noteq> b" "q \<noteq> NULL" "parent_process n \<noteq> NULL" "entry_of n = e2" "fst e2 \<noteq> NULL"
    using assms(1) n(1,3) by (auto simp: queue_def listed_def entry_of_def)
  let ?s = "s\<lparr>nodes := (nodes s)(q \<mapsto> n, b := None),
    threads := put_thread (threads s) t1 (th1\<lparr>status := SCHED_RUNNABLE\<rparr>)\<rparr>"
  have s1: "thread_queue_unblock_nonreentrant q s = Some ?s"
    by (rule unblock_valid [OF l assms(2,3) n(2)])
  let ?m = "new_node pprocess thr t q"
  have "tq_add q pprocess thr new ?s =
    Some (?s\<lparr>threads := (threads ?s)(thr \<mapsto> t\<lparr>instances := instances t + 1\<rparr>),
      nodes := (nodes ?s)(q \<mapsto> n\<lparr>tq_next := new\<rparr>, new \<mapsto> ?m, q \<mapsto> n\<lparr>tq_next := new, tq_prev := new\<rparr>)\<rparr>)"
    using tq_add_behind [of ?s thr t q n n new pprocess] assms n' by simp
  moreover have "listed ((nodes ?s)(q \<mapsto> n\<lparr>tq_next := new\<rparr>, new \<mapsto> ?m, q \<mapsto> n\<lparr>tq_next := new, tq_prev := new\<rparr>))
      q [new] [e2, new_entry pprocess thr t]"
    using n' assms(7-9) by (auto simp: listed_def entry_of_def new_node_def new_entry_def zero_node_def)
  ultimately show ?thesis
    using s1 by (simp add: thread_queue_add_nonreentrant_def)
qed

theorem thread_queue_loses_waiters_witness:
  "\<exists>s'. do { s \<leftarrow> thread_queue_unblock_nonreentrant 100 three_waiting;
             thread_queue_add_nonreentrant 100 50 14 400 s } = Some s' \<and>
    listed (nodes s') 100 [400] [(50, 12, 7), (50, 14, 7)]"
proof -
  have "threads three_waiting 11 = Some waiting" "threads three_waiting 14 = Some waiting"
    by (simp_all add: three_waiting_def)
  moreover have "instances waiting \<noteq> 0" "instances waiting + 1 \<noteq> 0xFFFFFFFF" "thread_magic waiting = 7"
    by (simp_all add: waiting_def)
  ultimately show ?thesis
    using thread_queue_loses_waiters [OF queue_three, of 14 waiting 50 400] by (simp add: new_entry_def)
qed

text \<open>C26: with three threads waiting, waking two and then adding a thread writes to a freed node. Both
  wake-ups succeed; after them the first node of the queue, which still holds a waiting thread, has
  as its \<open>prev\<close> the address of the second node, which was allocated before and is freed now. Adding a
  thread, for which neither the thread nor its count of references is a reason to fail, then writes
  through that address.\<close>

theorem thread_queue_use_after_free:
  assumes "queue (nodes s) q (b # c # as) ((p1, t1, thread_magic th1) # (p2, t2, thread_magic th2) # e3 # es)"
    and "threads s t1 = Some th1" and "instances th1 \<noteq> 0"
    and "threads s t2 = Some th2" and "instances th2 \<noteq> 0" and "t1 \<noteq> t2"
    and "threads s thr = Some th" and "thr \<noteq> t1" and "thr \<noteq> t2" and "instances th + 1 \<noteq> 0xFFFFFFFF"
  shows "\<exists>s1 s2 h. thread_queue_unblock_nonreentrant q s = Some s1 \<and>
    thread_queue_unblock_nonreentrant q s1 = Some s2 \<and>
    nodes s2 q = Some h \<and> entry_of h = e3 \<and> parent_process h \<noteq> NULL \<and> tq_prev h = b \<and>
    nodes s b \<noteq> None \<and> nodes s2 b = None \<and> threads s2 thr = Some th \<and>
    thread_queue_add_nonreentrant q pprocess thr new s2 = None"
proof -
  let ?e1 = "(p1, t1, thread_magic th1)" and ?e2 = "(p2, t2, thread_magic th2)"
  have l: "listed (nodes s) q (b # c # as) (?e1 # ?e2 # e3 # es)"
    using assms(1) by (simp add: queue_def)
  obtain n where n: "pop (nodes s) q = Some ((nodes s)(q \<mapsto> n, b := None))"
      "listed ((nodes s)(q \<mapsto> n, b := None)) q (c # as) (?e2 # e3 # es)"
    by (rule pop_next [OF l])
  let ?s1 = "s\<lparr>nodes := (nodes s)(q \<mapsto> n, b := None),
    threads := put_thread (threads s) t1 (th1\<lparr>status := SCHED_RUNNABLE\<rparr>)\<rparr>"
  have s1: "thread_queue_unblock_nonreentrant q s = Some ?s1"
    by (rule unblock_valid [OF l assms(2,3) n(1)])
  have l1: "listed (nodes ?s1) q (c # as) (?e2 # e3 # es)"
    using n(2) by simp
  obtain k where k: "nodes ?s1 c = Some k" "pop (nodes ?s1) q = Some ((nodes ?s1)(q \<mapsto> k, c := None))"
      "listed ((nodes ?s1)(q \<mapsto> k, c := None)) q as (e3 # es)"
    by (rule pop_next [OF l1])
  let ?s2 = "?s1\<lparr>nodes := (nodes ?s1)(q \<mapsto> k, c := None),
    threads := put_thread (threads ?s1) t2 (th2\<lparr>status := SCHED_RUNNABLE\<rparr>)\<rparr>"
  have s2: "thread_queue_unblock_nonreentrant q ?s1 = Some ?s2"
    by (rule unblock_valid [OF l1 _ assms(5) k(2)]) (use assms(4,6) in simp)
  have d: "q \<noteq> b" "q \<noteq> c" "b \<noteq> c" and b: "nodes s b \<noteq> None"
    using assms(1) by (auto simp: queue_def listed_def)
  then have prev: "tq_prev k = b"
    using assms(1) k(1) by (auto simp: queue_def)
  have busy: "parent_process k \<noteq> NULL" "entry_of k = e3"
    using k(3) d by (auto simp: listed_def entry_of_def)
  have thr: "threads ?s2 thr = Some th"
    using assms(7-9) by (simp add: put_thread_def Let_def)
  have "thread_queue_add_nonreentrant q pprocess thr new ?s2 = None"
    using d prev busy thr assms(10) by (simp add: thread_queue_add_nonreentrant_def tq_add_def upd_def)
  with s1 s2 d b prev busy thr show ?thesis
    by (intro exI [of _ ?s1] exI [of _ ?s2] exI [of _ k]) simp
qed

theorem thread_queue_use_after_free_witness:
  "\<exists>s1 s2 h. thread_queue_unblock_nonreentrant 100 three_waiting = Some s1 \<and>
     thread_queue_unblock_nonreentrant 100 s1 = Some s2 \<and> nodes s2 100 = Some h \<and> nodes s2 (tq_prev h) = None \<and>
     thread_queue_add_nonreentrant 100 50 14 400 s2 = None"
proof -
  have "threads three_waiting 11 = Some waiting" "threads three_waiting 12 = Some waiting"
      "threads three_waiting 14 = Some waiting" "instances waiting \<noteq> 0" "instances waiting + 1 \<noteq> 0xFFFFFFFF"
    by (simp_all add: three_waiting_def waiting_def)
  then show ?thesis
    using thread_queue_use_after_free [OF queue_three, of 14 waiting 50 400] by auto
qed

end
