(* ===== verification/SleepQueue.thy ===== *)
theory SleepQueue
  imports ThreadQueue
begin

text \<open>
  The queue of sleeping threads of \<open>src/kernel_sched_sleep_queue.c\<close>: a linked list ordered by wake-up
  time in which every node stores its distance to the one before. The heap of nodes and the heap of
  threads are explicit; a freed node is no longer in the heap, and reading or writing it is \<open>None\<close>.
  The address that \<open>kalloc\<close> returns for a new node is an argument. The tick converts its count to
  microseconds in 32 bits, as the code does; \<open>time_t\<close> has 64 bits, and the times in it are integers
  here, whose sums stay below that range for the times a clock can show.
\<close>

record sleep_node =
  sq_process :: ptr
  sq_thread :: ptr
  sq_magic :: u32
  time_delta_usec :: int
  sq_next :: ptr

record sleep_state =
  sq :: ptr
  sq_nodes :: "ptr \<rightharpoonup> sleep_node"
  sq_threads :: "ptr \<rightharpoonup> thread_t"
  uptime_clicks :: int
  system_time_sec :: int

definition RTC_TIMER_RESOLUTION_HZ :: nat where
  "RTC_TIMER_RESOLUTION_HZ = 1024"

definition RTC_TIME_RESOLUTION_USEC :: nat where
  "RTC_TIME_RESOLUTION_USEC = 1000000 div RTC_TIMER_RESOLUTION_HZ"

definition add_delta :: "int \<Rightarrow> sleep_node \<Rightarrow> sleep_node" where
  "add_delta d n = n\<lparr>time_delta_usec := time_delta_usec n + d\<rparr>"

definition sleep_pop_thread :: "sleep_state \<Rightarrow> sleep_state option" where
  "sleep_pop_thread s =
     (if sq s = NULL then Some s
      else do {
        e \<leftarrow> sq_nodes s (sq s);
        if sq_thread e = NULL then None
        else do {
          t \<leftarrow> sq_threads s (sq_thread e);
          if instances t = 0 then None
          else Some (s\<lparr>sq := sq_next e, sq_nodes := (sq_nodes s)(sq s := None),
                      sq_threads := put_thread (sq_threads s) (sq_thread e)
                        (if sq_magic e = thread_magic t
                         then t\<lparr>status := SCHED_RUNNABLE, thread_magic := thread_magic t + 1\<rparr> else t)\<rparr>) } })"

partial_function (option) remove_loop ::
  "ptr \<Rightarrow> ptr \<Rightarrow> thread_t \<Rightarrow> ptr \<Rightarrow> ptr \<Rightarrow> sleep_state \<Rightarrow> sleep_state option" where
  "remove_loop process thr t prev cu s =
     (if cu = NULL then Some s
      else do {
        c \<leftarrow> sq_nodes s cu;
        if sq_thread c = thr \<and> sq_process c = process
        then do {
          ns \<leftarrow> upd (sq_nodes s) prev (\<lambda>p. p\<lparr>sq_next := sq_next c\<rparr>);
          ns \<leftarrow> (if sq_next c \<noteq> NULL then upd ns (sq_next c) (add_delta (time_delta_usec c)) else Some ns);
          Some (s\<lparr>sq_nodes := ns(cu := None), sq_threads := put_thread (sq_threads s) thr t\<rparr>) }
        else remove_loop process thr t cu (sq_next c) s })"

definition sleep_remove_thread :: "ptr \<Rightarrow> ptr \<Rightarrow> sleep_state \<Rightarrow> sleep_state option" where
  "sleep_remove_thread process thr s =
     do { t \<leftarrow> sq_threads s thr;
          if thr = NULL \<or> instances t = 0 then None
          else if sq s = NULL then Some s
          else do {
            e \<leftarrow> sq_nodes s (sq s);
            if sq_thread e = thr \<and> sq_process e = process
            then do {
              s' \<leftarrow> (if sq_next e \<noteq> NULL
                     then do { ns \<leftarrow> upd (sq_nodes s) (sq_next e) (add_delta (time_delta_usec e)); Some (s\<lparr>sq_nodes := ns\<rparr>) }
                     else Some (s\<lparr>sq := NULL\<rparr>));
              Some (s'\<lparr>sq_nodes := (sq_nodes s')(sq s := None), sq_threads := put_thread (sq_threads s) thr t\<rparr>) }
            else remove_loop process thr t (sq s) (sq_next e) s } }"

partial_function (option) tick_loop :: "u32 \<Rightarrow> sleep_state \<Rightarrow> (u32 \<times> sleep_state) option" where
  "tick_loop delta s =
     (if sq s = NULL then Some (delta, s)
      else do {
        e \<leftarrow> sq_nodes s (sq s);
        if time_delta_usec e \<le> uint delta
        then do { s \<leftarrow> sleep_pop_thread s; tick_loop (delta - word_of_int (time_delta_usec e)) s }
        else Some (delta, s) })"

definition sleep_sched_tick :: "u32 \<Rightarrow> sleep_state \<Rightarrow> sleep_state option" where
  "sleep_sched_tick ticks s =
     (if sq s = NULL then Some s
      else do {
        (delta, s) \<leftarrow> tick_loop (of_nat RTC_TIME_RESOLUTION_USEC * ticks) s;
        if sq s \<noteq> NULL
        then do { ns \<leftarrow> upd (sq_nodes s) (sq s) (add_delta (- uint delta)); Some (s\<lparr>sq_nodes := ns\<rparr>) }
        else Some s })"

text \<open>The search for the place of a new node: its predecessor or \<open>NULL\<close>, its successor or \<open>NULL\<close>, and
  the time of the predecessor.\<close>

partial_function (option) sleep_place ::
  "(ptr \<rightharpoonup> sleep_node) \<Rightarrow> int \<Rightarrow> int \<Rightarrow> ptr \<Rightarrow> ptr \<Rightarrow> (ptr \<times> ptr \<times> int) option" where
  "sleep_place ns requested acc cu nxt =
     (if nxt = NULL then Some (cu, nxt, acc)
      else do {
        n \<leftarrow> ns nxt;
        if acc + time_delta_usec n > requested then Some (cu, nxt, acc)
        else sleep_place ns requested (acc + time_delta_usec n) nxt (sq_next n) })"

definition sleep_insert :: "ptr \<Rightarrow> sleep_node \<Rightarrow> int \<Rightarrow> sleep_state \<Rightarrow> sleep_state option" where
  "sleep_insert addr new requested s =
     do { let ns = (sq_nodes s)(addr \<mapsto> new);
          (cu, nxt, acc) \<leftarrow> sleep_place ns requested 0 NULL (sq s);
          let delta = requested - acc;
          let ns = ns(addr \<mapsto> new\<lparr>time_delta_usec := delta, sq_next := nxt\<rparr>);
          if cu = NULL
          then do {
            ns \<leftarrow> (if sq s \<noteq> NULL then upd ns (sq s) (add_delta (- delta)) else Some ns);
            Some (s\<lparr>sq := addr, sq_nodes := ns\<rparr>) }
          else do {
            ns \<leftarrow> upd ns cu (\<lambda>c. c\<lparr>sq_next := addr\<rparr>);
            ns \<leftarrow> (if nxt \<noteq> NULL then upd ns nxt (add_delta (- delta)) else Some ns);
            Some (s\<lparr>sq_nodes := ns\<rparr>) } }"

datatype clock = CLOCK_REALTIME | CLOCK_MONOTONIC | CLOCK_OTHER

text \<open>
  \<open>sys_clock_nanosleep\<close> for the calling thread. The microseconds to sleep come first; \<open>None\<close> inside is
  an immediate return of \<open>0\<close>. What happens between the switch to another thread and the return is
  \<open>others\<close>. The result is the error or \<open>()\<close>, and the remaining time, which is reported only when
  \<open>want\<close> is set and the request was relative.
\<close>

definition old_time_usec :: "sleep_state \<Rightarrow> int" where
  "old_time_usec s = uptime_clicks s * int RTC_TIME_RESOLUTION_USEC"

definition nanosleep_usec :: "clock \<Rightarrow> bool \<Rightarrow> int \<Rightarrow> int \<Rightarrow> sleep_state \<Rightarrow> errno + int option" where
  "nanosleep_usec clock_id abstime sec nsec s =
     (let sec = (if abstime \<and> clock_id = CLOCK_REALTIME then sec - system_time_sec s else sec)
      in if sec < 0 then Inr None
         else if nsec \<ge> 1000000000 \<or> nsec < 0 then Inl EINVAL
         else let requested = sec * 1000000 + nsec div 1000;
                  requested = (if abstime \<and> clock_id \<noteq> CLOCK_REALTIME
                               then requested - old_time_usec s else requested)
              in if requested < 0 then Inr None
                 else if requested = 0 then Inr None
                 else Inr (Some requested))"

definition sleep_enqueue :: "ptr \<Rightarrow> ptr \<Rightarrow> ptr \<Rightarrow> int \<Rightarrow> sleep_state \<Rightarrow> sleep_state option" where
  "sleep_enqueue process thr addr requested s =
     do { t \<leftarrow> sq_threads s thr;
          if addr = NULL \<or> instances t + 1 = 0xFFFFFFFF then None
          else do {
            s \<leftarrow> sleep_insert addr \<lparr>sq_process = process, sq_thread = thr, sq_magic = thread_magic t,
                   time_delta_usec = 0, sq_next = NULL\<rparr> requested s;
            Some (s\<lparr>sq_threads := (sq_threads s)(thr \<mapsto>
                     t\<lparr>instances := instances t + 1, status := SCHED_INTERR_SLEEP\<rparr>)\<rparr>) } }"

definition sys_clock_nanosleep ::
  "(sleep_state \<Rightarrow> sleep_state) \<Rightarrow> ptr \<Rightarrow> ptr \<Rightarrow> ptr \<Rightarrow> clock \<Rightarrow> bool \<Rightarrow> int \<Rightarrow> int \<Rightarrow> bool \<Rightarrow> sleep_state \<Rightarrow>
    (unit sysret \<times> (int \<times> int) option \<times> sleep_state) option" where
  "sys_clock_nanosleep others process thr addr clock_id abstime sec nsec want s =
     (if clock_id = CLOCK_OTHER then Some (Inl ENOTSUP, None, s)
      else do {
        t \<leftarrow> sq_threads s thr;
        if thr = NULL \<or> instances t = 0 then None
        else case nanosleep_usec clock_id abstime sec nsec s of
               Inl e \<Rightarrow> Some (Inl e, None, s)
             | Inr None \<Rightarrow> Some (Inr (), None, s)
             | Inr (Some requested) \<Rightarrow>
                 do { s1 \<leftarrow> sleep_enqueue process thr addr requested s;
                      let s2 = others s1;
                      if old_time_usec s + requested > old_time_usec s2
                      then do {
                        s3 \<leftarrow> sleep_remove_thread process thr s2;
                        if \<not> want \<or> abstime then Some (Inl EINTR, None, s3)
                        else let left = requested - (old_time_usec s2 - old_time_usec s)
                             in Some (Inl EINTR, Some (left div 1000000, (left mod 1000000) * 1000), s3) }
                      else Some (Inr (), None, s2) } })"

text \<open>\<open>sys_alarm\<close>: the seconds it returns and the new alarm of the process. The division truncates.\<close>

definition sys_alarm :: "u32 \<Rightarrow> int \<Rightarrow> int \<Rightarrow> u32 \<times> int" where
  "sys_alarm seconds clicks next_alarm =
     (let prev = (if next_alarm \<noteq> 0
                  then let x = clicks - next_alarm + int RTC_TIMER_RESOLUTION_HZ - 1
                       in word_of_int (if x < 0 then - (- x div int RTC_TIMER_RESOLUTION_HZ)
                                       else x div int RTC_TIMER_RESOLUTION_HZ)
                  else 0)
      in (prev, if seconds = 0 then 0 else clicks + uint (seconds * of_nat RTC_TIMER_RESOLUTION_HZ)))"

subsection \<open>The list in the heap\<close>

text \<open>\<open>seg ns p as q\<close>: following the links from \<open>p\<close> one visits the nodes \<open>as\<close> and arrives at \<open>q\<close>.\<close>

fun seg :: "(ptr \<rightharpoonup> sleep_node) \<Rightarrow> ptr \<Rightarrow> ptr list \<Rightarrow> ptr \<Rightarrow> bool" where
  "seg ns p [] q \<longleftrightarrow> p = q"
| "seg ns p (a # as) q \<longleftrightarrow> p = a \<and> a \<noteq> NULL \<and> (\<exists>n. ns a = Some n \<and> seg ns (sq_next n) as q)"

type_synonym sleeper = "ptr \<times> ptr \<times> u32"

definition sleeper_of :: "sleep_node \<Rightarrow> sleeper" where
  "sleeper_of n = (sq_process n, sq_thread n, sq_magic n)"

text \<open>The sleepers in the nodes \<open>as\<close> with their distances.\<close>

definition ents :: "(ptr \<rightharpoonup> sleep_node) \<Rightarrow> ptr list \<Rightarrow> (sleeper \<times> int) list" where
  "ents ns as = map (\<lambda>a. (sleeper_of (the (ns a)), time_delta_usec (the (ns a)))) as"

text \<open>The wake-up times when the first distance is counted from \<open>t\<close>.\<close>

fun due :: "int \<Rightarrow> (sleeper \<times> int) list \<Rightarrow> (sleeper \<times> int) list" where
  "due t [] = []"
| "due t ((k, d) # es) = (k, t + d) # due (t + d) es"

definition total :: "(sleeper \<times> int) list \<Rightarrow> int" where
  "total es = sum_list (map snd es)"

text \<open>A well-formed queue: a list without cycles, ordered by time, in which every sleeper holds a
  reference to its thread.\<close>

definition sleep_ok :: "sleep_state \<Rightarrow> ptr list \<Rightarrow> bool" where
  "sleep_ok s as \<longleftrightarrow> seg (sq_nodes s) (sq s) as NULL \<and> distinct as \<and>
     (\<forall>e \<in> set (ents (sq_nodes s) as). 0 \<le> snd e \<and> fst (snd (fst e)) \<noteq> NULL) \<and>
     refs_ok (sq_threads s) (map fst (ents (sq_nodes s) as))"

lemma ents_simps [simp]:
  "ents ns [] = []" "ents ns (a # as) = (sleeper_of (the (ns a)), time_delta_usec (the (ns a))) # ents ns as"
  "ents ns (as @ bs) = ents ns as @ ents ns bs" "length (ents ns as) = length as"
  by (simp_all add: ents_def)

lemma total_simps [simp]: "total [] = 0" "total (e # es) = snd e + total es" "total (es @ fs) = total es + total fs"
  by (simp_all add: total_def)

lemma ents_upd [simp]: "a \<notin> set as \<Longrightarrow> ents (ns(a := x)) as = ents ns as"
  by (auto simp: ents_def)

lemma ents_next [simp]: "ns a = Some n \<Longrightarrow> ents (ns(a \<mapsto> n\<lparr>sq_next := p\<rparr>)) as = ents ns as"
  by (auto simp: ents_def sleeper_of_def)

lemma sleeper_add_delta [simp]:
  "sleeper_of (add_delta d n) = sleeper_of n" "time_delta_usec (add_delta d n) = time_delta_usec n + d"
  "sq_next (add_delta d n) = sq_next n" "sleeper_of (n\<lparr>sq_next := p\<rparr>) = sleeper_of n"
  by (simp_all add: sleeper_of_def add_delta_def)

lemma seg_upd [simp]: "a \<notin> set as \<Longrightarrow> seg (ns(a := x)) p as q \<longleftrightarrow> seg ns p as q"
  by (induction as arbitrary: p) auto

lemma seg_append: "seg ns p (as @ bs) q \<longleftrightarrow> (\<exists>r. seg ns p as r \<and> seg ns r bs q)"
  by (induction as arbitrary: p) auto

lemma seg_dom: "seg ns p as q \<Longrightarrow> a \<in> set as \<Longrightarrow> a \<noteq> NULL \<and> ns a \<noteq> None"
  by (induction as arbitrary: p) auto

text \<open>The first node of a list, or \<open>NULL\<close>.\<close>

definition first :: "ptr list \<Rightarrow> ptr" where
  "first as = (case as of [] \<Rightarrow> NULL | a # _ \<Rightarrow> a)"

lemma first_simps [simp]: "first [] = NULL" "first (a # as) = a"
  by (simp_all add: first_def)

lemma seg_first: "seg ns p as NULL \<Longrightarrow> p = first as"
  by (cases as) auto

lemma seg_add_delta [simp]: "ns a = Some n \<Longrightarrow> seg (ns(a \<mapsto> add_delta d n)) p as q \<longleftrightarrow> seg ns p as q"
  by (induction as arbitrary: p) auto

subsection \<open>Wake-up times\<close>

lemma due_append: "due t (xs @ ys) = due t xs @ due (t + total xs) ys"
  by (induction xs arbitrary: t) (auto simp: add.assoc)

lemma due_le: "\<forall>e \<in> set es. 0 \<le> snd e \<Longrightarrow> x \<in> set (due t es) \<Longrightarrow> snd x \<le> t + total es"
proof (induction es arbitrary: t)
  case (Cons e es)
  obtain k d where e: "e = (k, d)" by (cases e)
  have "0 \<le> total es" using Cons.prems(1) by (auto simp: total_def e intro!: sum_list_nonneg)
  then show ?case using Cons.IH [of "t + d"] Cons.prems e by (auto simp: add.assoc)
qed simp

lemma due_ge: "\<forall>e \<in> set es. 0 \<le> snd e \<Longrightarrow> x \<in> set (due t es) \<Longrightarrow> t \<le> snd x"
proof (induction es arbitrary: t)
  case (Cons e es)
  obtain k d where e: "e = (k, d)" by (cases e)
  then show ?case using Cons.IH [of "t + d"] Cons.prems by force
qed simp

lemma due_split:
  assumes "\<forall>e \<in> set (xs @ ys). 0 \<le> snd e" and "total xs \<le> d" and "ys \<noteq> [] \<Longrightarrow> d < total xs + snd (hd ys)"
  shows "takeWhile (\<lambda>x. snd x \<le> t + d) (due t (xs @ ys)) = due t xs"
    and "dropWhile (\<lambda>x. snd x \<le> t + d) (due t (xs @ ys)) = due (t + total xs) ys"
proof -
  have a: "\<forall>x \<in> set (due t xs). snd x \<le> t + d"
    using due_le [of xs _ t] assms(1,2) by fastforce
  have b: "takeWhile (\<lambda>x. snd x \<le> t + d) (due (t + total xs) ys) = []"
    "dropWhile (\<lambda>x. snd x \<le> t + d) (due (t + total xs) ys) = due (t + total xs) ys"
    using assms(3) by (cases ys; auto)+
  show "takeWhile (\<lambda>x. snd x \<le> t + d) (due t (xs @ ys)) = due t xs"
    using a b by (simp add: due_append takeWhile_append)
  show "dropWhile (\<lambda>x. snd x \<le> t + d) (due t (xs @ ys)) = due (t + total xs) ys"
    using a b by (simp add: due_append dropWhile_append)
qed

fun insert_due :: "'k \<times> int \<Rightarrow> ('k \<times> int) list \<Rightarrow> ('k \<times> int) list" where
  "insert_due x [] = [x]"
| "insert_due x (y # ys) = (if snd y > snd x then x # y # ys else y # insert_due x ys)"

lemma insert_due_append: "\<forall>y \<in> set xs. snd y \<le> snd x \<Longrightarrow> insert_due x (xs @ ys) = xs @ insert_due x ys"
  by (induction xs) auto

text \<open>Taking time off the first distance moves the origin.\<close>

definition adjust :: "int \<Rightarrow> (sleeper \<times> int) list \<Rightarrow> (sleeper \<times> int) list" where
  "adjust d es = (case es of [] \<Rightarrow> [] | (k, x) # es \<Rightarrow> (k, x + d) # es)"

lemma adjust_simps [simp]: "adjust d [] = []" "adjust d ((k, x) # es) = (k, x + d) # es"
  by (simp_all add: adjust_def)

lemma due_adjust: "due (t - d) (adjust d es) = due t es"
  by (cases es) auto

lemma map_fst_adjust [simp]: "map fst (adjust d es) = map fst es"
  by (cases es) auto

subsection \<open>The timer tick\<close>

definition wake_one :: "sleeper \<Rightarrow> (ptr \<rightharpoonup> thread_t) \<Rightarrow> (ptr \<rightharpoonup> thread_t)" where
  "wake_one = (\<lambda>(process, thr, magic) ts.
     let t = the (ts thr) in
     put_thread ts thr
       (if magic = thread_magic t
        then t\<lparr>status := SCHED_RUNNABLE, thread_magic := thread_magic t + 1\<rparr> else t))"

lemma wake_one_refs:
  assumes "refs_ok ts (k # ks)"
  shows "refs_ok (wake_one k ts) ks"
proof -
  obtain process thr magic where k: "k = (process, thr, magic)" by (cases k)
  obtain t where t: "ts thr = Some t"
    by (rule refs_ok_head [OF assms [unfolded k]])
  have "refs_ok (put_thread ts thr t') ks" if "instances t' = instances t" for t'
    by (rule refs_ok_put [OF assms [unfolded k] t that])
  then show ?thesis using t by (simp add: wake_one_def k Let_def)
qed

lemma sleep_ok_Cons:
  assumes "sleep_ok s (a # as)"
  obtains n where "sq s = a" "a \<noteq> NULL" "sq_nodes s a = Some n" "a \<notin> set as" "sq_thread n \<noteq> NULL"
    "0 \<le> time_delta_usec n" "seg (sq_nodes s) (sq_next n) as NULL"
    "refs_ok (sq_threads s) (sleeper_of n # map fst (ents (sq_nodes s) as))"
  using assms by (auto simp: sleep_ok_def sleeper_of_def)

lemma sleep_pop:
  assumes "sleep_ok s (a # as)"
  shows "\<exists>s'. sleep_pop_thread s = Some s' \<and> sleep_ok s' as \<and> ents (sq_nodes s') as = ents (sq_nodes s) as \<and>
    sq_threads s' = wake_one (sleeper_of (the (sq_nodes s a))) (sq_threads s)"
proof -
  obtain n where n: "sq s = a" "a \<noteq> NULL" "sq_nodes s a = Some n" "a \<notin> set as" "sq_thread n \<noteq> NULL"
      "seg (sq_nodes s) (sq_next n) as NULL" "refs_ok (sq_threads s) (sleeper_of n # map fst (ents (sq_nodes s) as))"
    by (rule sleep_ok_Cons [OF assms])
  obtain t where t: "sq_threads s (sq_thread n) = Some t" "instances t \<noteq> 0"
    by (rule refs_ok_head [OF n(7) [unfolded sleeper_of_def]])
  let ?s = "s\<lparr>sq := sq_next n, sq_nodes := (sq_nodes s)(a := None),
    sq_threads := wake_one (sleeper_of n) (sq_threads s)\<rparr>"
  have "sleep_pop_thread s = Some ?s"
    using n(1-3,5) t by (simp add: sleep_pop_thread_def wake_one_def sleeper_of_def)
  moreover have "sleep_ok ?s as"
    using assms n(4,6) wake_one_refs [OF n(7)] by (auto simp: sleep_ok_def)
  ultimately show ?thesis using n(3,4) by simp
qed

lemma uint_minus:
  fixes delta :: u32
  assumes "0 \<le> x" and "x \<le> uint delta"
  shows "uint (delta - word_of_int x) = uint delta - x"
proof -
  have "delta - word_of_int x = word_of_int (uint delta - x)" by simp
  then have "uint (delta - word_of_int x) = (uint delta - x) mod 2 ^ 32" by (simp only: uint_word_of_int) simp
  also have "\<dots> = uint delta - x" using assms uint_lt2p [of delta] by (intro mod_pos_pos_trivial) auto
  finally show ?thesis .
qed

lemma tick_loop_spec:
  assumes "sleep_ok s as"
  shows "\<exists>bs cs s' delta'. as = bs @ cs \<and> tick_loop delta s = Some (delta', s') \<and> sleep_ok s' cs \<and>
    ents (sq_nodes s') cs = ents (sq_nodes s) cs \<and>
    sq_threads s' = fold wake_one (map fst (ents (sq_nodes s) bs)) (sq_threads s) \<and>
    total (ents (sq_nodes s) bs) + uint delta' = uint delta \<and>
    (cs \<noteq> [] \<longrightarrow> uint delta' < snd (hd (ents (sq_nodes s) cs)))"
  using assms
proof (induction as arbitrary: s delta)
  case Nil
  then have "sq s = NULL" by (simp add: sleep_ok_def)
  with Nil show ?case by (intro exI [of _ "[]"]) (simp add: tick_loop.simps)
next
  case (Cons a as)
  obtain n where n: "sq s = a" "a \<noteq> NULL" "sq_nodes s a = Some n" "0 \<le> time_delta_usec n"
    by (rule sleep_ok_Cons [OF Cons.prems])
  show ?case
  proof (cases "time_delta_usec n \<le> uint delta")
    case True
    obtain s1 where s1: "sleep_pop_thread s = Some s1" "sleep_ok s1 as" "ents (sq_nodes s1) as = ents (sq_nodes s) as"
        "sq_threads s1 = wake_one (sleeper_of n) (sq_threads s)"
      using sleep_pop [OF Cons.prems] n(3) by auto
    obtain bs cs s' delta' where ih: "as = bs @ cs"
        "tick_loop (delta - word_of_int (time_delta_usec n)) s1 = Some (delta', s')" "sleep_ok s' cs"
        "ents (sq_nodes s') cs = ents (sq_nodes s1) cs"
        "sq_threads s' = fold wake_one (map fst (ents (sq_nodes s1) bs)) (sq_threads s1)"
        "total (ents (sq_nodes s1) bs) + uint delta' = uint (delta - word_of_int (time_delta_usec n))"
        "cs \<noteq> [] \<longrightarrow> uint delta' < snd (hd (ents (sq_nodes s1) cs))"
      using Cons.IH [OF s1(2), of "delta - word_of_int (time_delta_usec n)"] by blast
    have e: "ents (sq_nodes s1) bs = ents (sq_nodes s) bs" "ents (sq_nodes s1) cs = ents (sq_nodes s) cs"
      using s1(3) ih(1) by simp_all
    have "tick_loop delta s = Some (delta', s')"
      using n(1-3) True s1(1) ih(2) by (simp add: tick_loop.simps [of delta])
    then show ?thesis
      using ih e s1(4) n(3,4) True uint_minus [OF n(4) True]
      by (intro exI [of _ "a # bs"] exI [of _ cs] exI [of _ s'] exI [of _ delta']) simp
  next
    case False
    then have "tick_loop delta s = Some (delta, s)"
      using n(1-3) by (simp add: tick_loop.simps [of delta])
    then show ?thesis
      using Cons.prems n(3) False
      by (intro exI [of _ "[]"] exI [of _ "a # as"] exI [of _ s] exI [of _ delta]) simp
  qed
qed

lemma sleep_ok_adjust:
  assumes "sleep_ok s (a # as)" and "sq_nodes s a = Some n" and "0 \<le> time_delta_usec n + d"
  shows "sleep_ok (s\<lparr>sq_nodes := (sq_nodes s)(a \<mapsto> add_delta d n)\<rparr>) (a # as)"
    and "ents ((sq_nodes s)(a \<mapsto> add_delta d n)) (a # as) = adjust d (ents (sq_nodes s) (a # as))"
  using assms by (auto simp: sleep_ok_def)

lemma tick_usec:
  fixes ticks :: u32
  assumes "976 * unat ticks < 2 ^ 32"
  shows "uint (976 * ticks) = 976 * uint ticks"
proof -
  have "unat (976 * ticks) = (unat (976 :: u32) * unat ticks) mod 2 ^ 32"
    by (simp only: unat_word_ariths len_of_numeral_defs) simp
  also have "\<dots> = 976 * unat ticks" using assms by simp
  finally have "int (unat (976 * ticks)) = 976 * int (unat ticks)" by simp
  then show ?thesis by simp
qed

lemma tick_spec:
  assumes "sleep_ok s as" and "976 * unat ticks < 2 ^ 32"
  shows "\<exists>s' as'. sleep_sched_tick ticks s = Some s' \<and> sleep_ok s' as' \<and>
    sq_threads s' = fold wake_one
      (map fst (takeWhile (\<lambda>x. snd x \<le> now + 976 * uint ticks) (due now (ents (sq_nodes s) as)))) (sq_threads s) \<and>
    due (now + 976 * uint ticks) (ents (sq_nodes s') as') =
      dropWhile (\<lambda>x. snd x \<le> now + 976 * uint ticks) (due now (ents (sq_nodes s) as))"
proof -
  define d where "d = 976 * uint ticks"
  have "uint (976 * ticks) = d"
    unfolding d_def by (rule tick_usec [OF assms(2)])
  then have d: "uint (of_nat RTC_TIME_RESOLUTION_USEC * ticks) = d"
    by (simp add: RTC_TIME_RESOLUTION_USEC_def RTC_TIMER_RESOLUTION_HZ_def)
  obtain bs cs s1 delta where l: "as = bs @ cs"
      "tick_loop (of_nat RTC_TIME_RESOLUTION_USEC * ticks) s = Some (delta, s1)" "sleep_ok s1 cs"
      "ents (sq_nodes s1) cs = ents (sq_nodes s) cs"
      "sq_threads s1 = fold wake_one (map fst (ents (sq_nodes s) bs)) (sq_threads s)"
      "total (ents (sq_nodes s) bs) + uint delta = d"
      "cs \<noteq> [] \<longrightarrow> uint delta < snd (hd (ents (sq_nodes s) cs))"
    using tick_loop_spec [OF assms(1), of "of_nat RTC_TIME_RESOLUTION_USEC * ticks"] unfolding d by blast
  have nonneg: "\<forall>e \<in> set (ents (sq_nodes s) bs @ ents (sq_nodes s) cs). 0 \<le> snd e"
    using assms(1) l(1) by (auto simp: sleep_ok_def)
  have hd: "ents (sq_nodes s) cs \<noteq> [] \<Longrightarrow> d < total (ents (sq_nodes s) bs) + snd (hd (ents (sq_nodes s) cs))"
    using l(6,7) by (cases cs) auto
  have tot: "total (ents (sq_nodes s) bs) \<le> d" using l(6) uint_ge_0 [of delta] by linarith
  have e: "ents (sq_nodes s) as = ents (sq_nodes s) bs @ ents (sq_nodes s) cs" using l(1) by simp
  have split: "takeWhile (\<lambda>x. snd x \<le> now + d) (due now (ents (sq_nodes s) as)) = due now (ents (sq_nodes s) bs)"
      "dropWhile (\<lambda>x. snd x \<le> now + d) (due now (ents (sq_nodes s) as)) =
        due (now + total (ents (sq_nodes s) bs)) (ents (sq_nodes s) cs)"
    unfolding e using due_split [OF nonneg tot] hd by blast+
  have fst_due: "map fst (due t es) = map fst es" for t es
    by (induction es arbitrary: t) auto
  show ?thesis
  proof (cases cs)
    case Nil
    then have "sq s1 = NULL" using l(3) by (simp add: sleep_ok_def)
    moreover have "sq s = NULL \<longrightarrow> s1 = s" using l(2) by (auto simp: tick_loop.simps)
    ultimately have "sleep_sched_tick ticks s = Some s1" using l(2) by (auto simp: sleep_sched_tick_def)
    then show ?thesis
      using l(3,5) Nil unfolding d_def [symmetric] split
      by (intro exI [of _ s1] exI [of _ "[]"]) (simp add: fst_due)
  next
    case (Cons c cs')
    obtain n where n: "sq s1 = c" "c \<noteq> NULL" "sq_nodes s1 c = Some n"
      by (rule sleep_ok_Cons [OF l(3) [unfolded Cons]])
    have e: "snd (hd (ents (sq_nodes s) cs)) = time_delta_usec n"
      unfolding l(4) [symmetric] using Cons n(3) by simp
    let ?s = "s1\<lparr>sq_nodes := (sq_nodes s1)(c \<mapsto> add_delta (- uint delta) n)\<rparr>"
    have "sq s \<noteq> NULL"
      using assms(1) l(1) Cons seg_first [of "sq_nodes s" "sq s" as] seg_dom [of "sq_nodes s" "sq s" as]
      by (cases bs) (auto simp: sleep_ok_def)
    then have "sleep_sched_tick ticks s = Some ?s" using l(2) n by (simp add: sleep_sched_tick_def)
    moreover have "sleep_ok ?s cs" "ents (sq_nodes ?s) cs = adjust (- uint delta) (ents (sq_nodes s) cs)"
      using sleep_ok_adjust [OF l(3) [unfolded Cons] n(3), of "- uint delta"] l(4,7) e Cons by simp_all
    moreover have "due (now + d) (adjust (- uint delta) (ents (sq_nodes s) cs)) = due (now + total (ents (sq_nodes s) bs)) (ents (sq_nodes s) cs)"
      using due_adjust [of "now + total (ents (sq_nodes s) bs)" "- uint delta" "ents (sq_nodes s) cs"] l(6) by (simp add: add.assoc)
    ultimately show ?thesis
      using l(5) unfolding d_def [symmetric] split
      by (intro exI [of _ ?s] exI [of _ cs]) (simp add: fst_due)
  qed
qed

subsection \<open>Falling asleep\<close>

text \<open>The heap after the distance of the first of the nodes \<open>cs\<close> was changed.\<close>

definition adj :: "int \<Rightarrow> ptr list \<Rightarrow> (ptr \<rightharpoonup> sleep_node) \<Rightarrow> (ptr \<rightharpoonup> sleep_node)" where
  "adj d cs ns = (case cs of [] \<Rightarrow> ns | c # _ \<Rightarrow> ns(c \<mapsto> add_delta d (the (ns c))))"

lemma adj_upd:
  "seg ns (first cs) cs NULL \<Longrightarrow>
    (if first cs \<noteq> NULL then upd ns (first cs) (add_delta d) else Some ns) = Some (adj d cs ns)"
  by (cases cs) (auto simp: adj_def)

lemma adj_seg:
  assumes "cs \<noteq> [] \<Longrightarrow> ns (first cs) \<noteq> None"
  shows "seg (adj d cs ns) p as q \<longleftrightarrow> seg ns p as q"
  using assms by (cases cs) (auto simp: adj_def)

lemma adj_ents:
  "first cs \<notin> set as \<Longrightarrow> ents (adj d cs ns) as = ents ns as"
  "distinct cs \<Longrightarrow> ents (adj d cs ns) cs = adjust d (ents ns cs)"
  by (cases cs; simp add: adj_def)+

lemma sleep_place_spec:
  assumes "seg ns nxt as NULL"
  shows "\<exists>bs cs. as = bs @ cs \<and>
    sleep_place ns requested acc cu nxt = Some (last (cu # bs), first cs, acc + total (ents ns bs)) \<and>
    (acc \<le> requested \<longrightarrow> acc + total (ents ns bs) \<le> requested) \<and>
    (cs \<noteq> [] \<longrightarrow> requested < acc + total (ents ns bs) + snd (hd (ents ns cs)))"
  using assms
proof (induction as arbitrary: acc cu nxt)
  case Nil
  then show ?case by (simp add: sleep_place.simps)
next
  case (Cons a as)
  then obtain n where n: "nxt = a" "a \<noteq> NULL" "ns a = Some n" "seg ns (sq_next n) as NULL" by auto
  show ?case
  proof (cases "acc + time_delta_usec n > requested")
    case True
    then show ?thesis
      using n by - (rule exI [of _ "[]"], rule exI [of _ "a # as"], simp add: sleep_place.simps)
  next
    case False
    obtain bs cs where "as = bs @ cs"
        "sleep_place ns requested (acc + time_delta_usec n) a (sq_next n) =
          Some (last (a # bs), first cs, acc + time_delta_usec n + total (ents ns bs))"
        "acc + time_delta_usec n + total (ents ns bs) \<le> requested"
        "cs \<noteq> [] \<longrightarrow> requested < acc + time_delta_usec n + total (ents ns bs) + snd (hd (ents ns cs))"
      using Cons.IH [OF n(4), of "acc + time_delta_usec n" a] False by auto
    moreover have "sleep_place ns requested acc cu nxt = sleep_place ns requested (acc + time_delta_usec n) a (sq_next n)"
      unfolding n(1) using n(2,3) False by (simp add: sleep_place.simps [of ns requested acc cu a])
    ultimately show ?thesis
      using n(3) by - (rule exI [of _ "a # bs"], rule exI [of _ cs], simp add: add.assoc)
  qed
qed

lemma sleep_insert_spec:
  assumes "seg (sq_nodes s) (sq s) as NULL" and "distinct as" and "0 \<le> requested"
    and "addr \<noteq> NULL" and "sq_nodes s addr = None"
  shows "\<exists>bs cs s' d. as = bs @ cs \<and> sleep_insert addr new requested s = Some s' \<and>
    seg (sq_nodes s') (sq s') (bs @ addr # cs) NULL \<and> addr \<notin> set as \<and>
    ents (sq_nodes s') (bs @ addr # cs) =
      ents (sq_nodes s) bs @ (sleeper_of new, d) # adjust (- d) (ents (sq_nodes s) cs) \<and>
    d = requested - total (ents (sq_nodes s) bs) \<and> 0 \<le> d \<and>
    (cs \<noteq> [] \<longrightarrow> d < snd (hd (ents (sq_nodes s) cs))) \<and> sq_threads s' = sq_threads s"
proof -
  have addr: "addr \<notin> set as" using seg_dom [OF assms(1)] assms(5) by blast
  then have "seg ((sq_nodes s)(addr \<mapsto> new)) (sq s) as NULL" using assms(1) by simp
  from sleep_place_spec [OF this, of requested 0 NULL] obtain bs cs where p: "as = bs @ cs"
      "sleep_place ((sq_nodes s)(addr \<mapsto> new)) requested 0 NULL (sq s) =
        Some (last (NULL # bs), first cs, total (ents (sq_nodes s) bs))"
      "total (ents (sq_nodes s) bs) \<le> requested"
      "cs \<noteq> [] \<longrightarrow> requested < total (ents (sq_nodes s) bs) + snd (hd (ents (sq_nodes s) cs))"
    using assms(3) addr by (elim exE conjE) (simp del: fun_upd_apply)
  define d where "d = requested - total (ents (sq_nodes s) bs)"
  have dlt: "0 \<le> d" "cs \<noteq> [] \<longrightarrow> d < snd (hd (ents (sq_nodes s) cs))" using p(3,4) by (auto simp: d_def)
  define new' where "new' = new\<lparr>time_delta_usec := d, sq_next := first cs\<rparr>"
  define ns where "ns = (sq_nodes s)(addr \<mapsto> new')"
  obtain r where r: "seg (sq_nodes s) (sq s) bs r" "seg (sq_nodes s) r cs NULL"
    using assms(1) p(1) by (auto simp: seg_append)
  then have cs: "seg (sq_nodes s) (first cs) cs NULL" "r = first cs" using seg_first by auto
  have dom: "cs \<noteq> [] \<Longrightarrow> sq_nodes s (first cs) \<noteq> None \<and> first cs \<noteq> NULL" using seg_dom [OF cs(1)] by (cases cs) auto
  have dis: "first cs \<notin> set bs" "first cs \<noteq> addr" "distinct cs"
    using assms(2,4) p(1) addr seg_dom [OF r(1)] by (cases cs; auto)+
  have new: "sleeper_of new' = sleeper_of new" "time_delta_usec new' = d" by (simp_all add: new'_def sleeper_of_def)
  have ins: "sleep_insert addr new requested s =
    (if last (NULL # bs) = NULL
     then do { ns \<leftarrow> (if sq s \<noteq> NULL then upd ns (sq s) (add_delta (- d)) else Some ns);
               Some (s\<lparr>sq := addr, sq_nodes := ns\<rparr>) }
     else do { ns \<leftarrow> upd ns (last (NULL # bs)) (\<lambda>c. c\<lparr>sq_next := addr\<rparr>);
               ns \<leftarrow> (if first cs \<noteq> NULL then upd ns (first cs) (add_delta (- d)) else Some ns);
               Some (s\<lparr>sq_nodes := ns\<rparr>) })"
    by (simp only: sleep_insert_def p(2) Option.bind.simps prod.case Let_def d_def new'_def ns_def fun_upd_upd)
  show ?thesis
  proof (cases bs rule: rev_cases)
    case Nil
    let ?s = "s\<lparr>sq := addr, sq_nodes := adj (- d) cs ns\<rparr>"
    have sq: "sq s = first cs" using r(1) cs(2) Nil by simp
    have ncs: "seg ns (first cs) cs NULL" using cs(1) addr p(1) by (simp add: ns_def)
    have "sleep_insert addr new requested s = Some ?s"
      unfolding ins sq adj_upd [OF ncs, of "- d"] using Nil by simp
    moreover have "seg (adj (- d) cs ns) addr (addr # cs) NULL"
      using ncs dom dis(2) assms(4) by (subst adj_seg) (auto simp: ns_def new'_def)
    moreover have "ents (adj (- d) cs ns) [addr] = [(sleeper_of new, d)]"
      using dis(2) new by (subst adj_ents(1)) (auto simp: ns_def)
    moreover have "ents (adj (- d) cs ns) cs = adjust (- d) (ents (sq_nodes s) cs)"
      using dis(3) addr p(1) by (simp add: adj_ents(2) ns_def)
    ultimately show ?thesis
      using p(1) addr Nil d_def dlt
      by - (rule exI [of _ bs], rule exI [of _ cs], rule exI [of _ ?s], rule exI [of _ d], simp)
  next
    case (snoc bs' b)
    obtain m where b: "sq_nodes s b = Some m" "b \<noteq> NULL" "b \<notin> set bs'" "b \<notin> set cs"
      using seg_dom [OF r(1), of b] snoc assms(2) p(1) by auto
    have "b \<noteq> addr" using b(1) assms(5) by auto
    note m = b this
    define ns2 where "ns2 = ns(b \<mapsto> m\<lparr>sq_next := addr\<rparr>)"
    have nb: "ns b = Some m" using m by (simp add: ns_def)
    have ncs: "seg ns2 (first cs) cs NULL" using cs(1) addr p(1) m(4) by (simp add: ns2_def ns_def)
    let ?s = "s\<lparr>sq_nodes := adj (- d) cs ns2\<rparr>"
    have "sleep_insert addr new requested s = Some ?s"
      using adj_upd [OF ncs, of "- d"] snoc nb m(2) unfolding ins by (simp add: ns2_def [symmetric] del: neq0_conv)
    moreover have "seg (adj (- d) cs ns2) (sq s) (bs @ addr # cs) NULL"
    proof -
      have "seg (sq_nodes s) (sq s) bs' b" using r(1) snoc by (auto simp: seg_append)
      then have "seg ns2 (sq s) bs' b" using m(3) addr p(1) snoc by (simp add: ns2_def ns_def)
      then have "seg ns2 (sq s) (bs @ addr # cs) NULL"
        using m ncs assms(4) snoc by (auto simp: seg_append ns2_def ns_def new'_def)
      moreover have "cs \<noteq> [] \<Longrightarrow> ns2 (first cs) \<noteq> None" using dom by (auto simp: ns2_def ns_def)
      ultimately show ?thesis by (simp add: adj_seg)
    qed
    moreover have "ents (adj (- d) cs ns2) (bs @ [addr]) = ents (sq_nodes s) bs @ [(sleeper_of new, d)]"
    proof -
      have "first cs \<notin> set (bs @ [addr])" using dis by simp
      moreover have "ents ns2 bs = ents (sq_nodes s) bs" using nb addr p(1) by (simp add: ns2_def ns_def)
      ultimately show ?thesis using new m(5) by (subst adj_ents(1)) (auto simp: ns2_def ns_def)
    qed
    moreover have "ents (adj (- d) cs ns2) cs = adjust (- d) (ents (sq_nodes s) cs)"
      using dis(3) addr p(1) m(4) by (simp add: adj_ents(2) ns2_def ns_def)
    ultimately show ?thesis
      using p(1) addr d_def dlt
      by - (rule exI [of _ bs], rule exI [of _ cs], rule exI [of _ ?s], rule exI [of _ d], simp)
  qed
qed

lemma refs_ok_insert:
  assumes "refs_ok ts (xs @ ys)" and "ts thr = Some t" and "unat (instances t) + 1 < 2 ^ 32"
    and "instances t' = instances t + 1"
  shows "refs_ok (ts(thr \<mapsto> t')) (xs @ (p, thr, m) # ys)"
proof -
  let ?T = "map (fst \<circ> snd) (xs @ ys)"
  have inst: "unat (instances t') = unat (instances t) + 1"
    using assms(3,4) by (simp add: unat_word_ariths)
  have old: "\<exists>u. ts a = Some u \<and> count_list ?T a \<le> unat (instances u)" if "a \<in> set ?T" for a
    using assms(1) that unfolding refs_ok_def by blast
  have thr: "count_list ?T thr \<le> unat (instances t)"
  proof (cases "thr \<in> set ?T")
    case True
    from old [OF this] assms(2) show ?thesis by simp
  qed (simp add: count_list_0_iff [THEN iffD2])
  show ?thesis
    unfolding refs_ok_def
  proof
    fix a assume "a \<in> set (map (fst \<circ> snd) (xs @ (p, thr, m) # ys))"
    then have a: "a = thr \<or> a \<in> set ?T" by auto
    have c: "count_list (map (fst \<circ> snd) (xs @ (p, thr, m) # ys)) a = count_list ?T a + (if a = thr then 1 else 0)"
      by simp
    show "\<exists>u. (ts(thr \<mapsto> t')) a = Some u \<and>
        count_list (map (fst \<circ> snd) (xs @ (p, thr, m) # ys)) a \<le> unat (instances u)"
      unfolding c using a old [of a] thr inst by (cases "a = thr") simp_all
  qed
qed

lemma enqueue_spec:
  assumes "sleep_ok s as" and "0 \<le> requested" and "addr \<noteq> NULL" and "sq_nodes s addr = None"
    and "sq_threads s thr = Some t" and "unat (instances t) < 0xFFFFFFFE" and "thr \<noteq> NULL"
  shows "\<exists>s' as'. sleep_enqueue process thr addr requested s = Some s' \<and> sleep_ok s' as' \<and>
    due now (ents (sq_nodes s') as') =
      insert_due ((process, thr, thread_magic t), now + requested) (due now (ents (sq_nodes s) as)) \<and>
    sq_threads s' = (sq_threads s)(thr \<mapsto> t\<lparr>instances := instances t + 1, status := SCHED_INTERR_SLEEP\<rparr>)"
proof -
  define new where "new = \<lparr>sq_process = process, sq_thread = thr, sq_magic = thread_magic t,
    time_delta_usec = 0, sq_next = NULL\<rparr>"
  have ok: "seg (sq_nodes s) (sq s) as NULL" "distinct as" "\<forall>e \<in> set (ents (sq_nodes s) as). 0 \<le> snd e \<and> fst (snd (fst e)) \<noteq> NULL"
      "refs_ok (sq_threads s) (map fst (ents (sq_nodes s) as))"
    using assms(1) by (auto simp: sleep_ok_def)
  obtain bs cs s1 d where i: "as = bs @ cs" "sleep_insert addr new requested s = Some s1"
      "seg (sq_nodes s1) (sq s1) (bs @ addr # cs) NULL" "addr \<notin> set as"
      "ents (sq_nodes s1) (bs @ addr # cs) =
        ents (sq_nodes s) bs @ (sleeper_of new, d) # adjust (- d) (ents (sq_nodes s) cs)"
      "d = requested - total (ents (sq_nodes s) bs)" "0 \<le> d"
      "cs \<noteq> [] \<longrightarrow> d < snd (hd (ents (sq_nodes s) cs))" "sq_threads s1 = sq_threads s"
    using sleep_insert_spec [OF ok(1,2) assms(2-4), of new] by blast
  have k: "sleeper_of new = (process, thr, thread_magic t)" by (simp add: sleeper_of_def new_def)
  let ?t = "t\<lparr>instances := instances t + 1, status := SCHED_INTERR_SLEEP\<rparr>"
  let ?s = "s1\<lparr>sq_threads := (sq_threads s)(thr \<mapsto> ?t)\<rparr>"
  have "unat (instances t + 1) = unat (instances t) + 1"
    using assms(6) by (simp add: unat_word_ariths)
  then have max: "instances t + 1 \<noteq> 0xFFFFFFFF" using assms(6) by (auto simp: word_unat_eq_iff)
  then have "sleep_enqueue process thr addr requested s = Some ?s"
    using assms(3,5) i(2,9) by (simp add: sleep_enqueue_def new_def)
  moreover have "sleep_ok ?s (bs @ addr # cs)"
  proof -
    have "refs_ok ((sq_threads s)(thr \<mapsto> ?t)) (map fst (ents (sq_nodes s) bs) @ sleeper_of new # map fst (ents (sq_nodes s) cs))"
      unfolding k by (rule refs_ok_insert [where t = t]) (use ok(4) assms(5,6) i(1) in simp_all)
    moreover have "\<forall>e \<in> set (adjust (- d) (ents (sq_nodes s) cs)). 0 \<le> snd e \<and> fst (snd (fst e)) \<noteq> NULL"
      using ok(3) i(1,8) by (cases cs) auto
    ultimately show ?thesis
      using i(1,3,4,5,7) ok(2,3) assms(7) unfolding sleep_ok_def
      by (auto simp del: ents_simps simp: ents_simps(3) [of "sq_nodes s" bs cs] sleeper_of_def new_def)
  qed
  moreover have "due now (ents (sq_nodes s1) (bs @ addr # cs)) =
      insert_due ((process, thr, thread_magic t), now + requested) (due now (ents (sq_nodes s) as))"
  proof -
    have le: "\<forall>y \<in> set (due now (ents (sq_nodes s) bs)). snd y \<le> now + requested"
      using due_le [of "ents (sq_nodes s) bs" _ now] ok(3) i(1,6,7) by fastforce
    have "insert_due (k, now + requested) (due (now + total (ents (sq_nodes s) bs)) (ents (sq_nodes s) cs)) =
        (k, now + requested) # due (now + requested) (adjust (- d) (ents (sq_nodes s) cs))" for k
      using i(6,8) by (cases cs) (auto simp: ac_simps)
    then show ?thesis
      unfolding i(5) using i(1,6) le by (simp add: due_append insert_due_append sleeper_of_def new_def)
  qed
  ultimately show ?thesis by (intro exI [of _ ?s] exI [of _ "bs @ addr # cs"]) simp
qed

subsection \<open>Removal\<close>

definition is_for :: "ptr \<Rightarrow> ptr \<Rightarrow> sleeper \<Rightarrow> bool" where
  "is_for process thr k \<longleftrightarrow> fst k = process \<and> fst (snd k) = thr"

text \<open>The specification: the first sleeper that is the given thread leaves.\<close>

fun without :: "ptr \<Rightarrow> ptr \<Rightarrow> (sleeper \<times> int) list \<Rightarrow> (sleeper \<times> int) list" where
  "without process thr [] = []"
| "without process thr (x # xs) = (if is_for process thr (fst x) then xs else x # without process thr xs)"

lemma is_for_node [simp]: "is_for process thr (sleeper_of n) \<longleftrightarrow> sq_thread n = thr \<and> sq_process n = process"
  by (auto simp: is_for_def sleeper_of_def)

lemma without_append:
  "\<forall>x \<in> set xs. \<not> is_for process thr (fst x) \<Longrightarrow> without process thr (xs @ ys) = xs @ without process thr ys"
  by (induction xs) auto

lemma without_none: "\<forall>x \<in> set xs. \<not> is_for process thr (fst x) \<Longrightarrow> without process thr xs = xs"
  using without_append [of xs process thr "[]"] by simp

lemma due_fst: "x \<in> set (due t es) \<Longrightarrow> fst x \<in> fst ` set es"
  by (induction t es rule: due.induct) auto

lemma due_without:
  assumes "\<forall>x \<in> set xs. \<not> is_for process thr (fst x)" and "is_for process thr k"
  shows "due t (xs @ adjust d ys) = without process thr (due t (xs @ (k, d) # ys))"
proof -
  have "\<forall>x \<in> set (due t xs). \<not> is_for process thr (fst x)" using assms(1) due_fst by fastforce
  with assms(2) show ?thesis
    using due_adjust [of "t + total xs + d" d ys] by (simp add: due_append without_append)
qed

lemma refs_ok_move: "refs_ok ts (xs @ k # ys) \<longleftrightarrow> refs_ok ts (k # xs @ ys)"
  by (simp add: refs_ok_def ac_simps Un_commute insert_commute)

lemma remove_loop_skip:
  "seg (sq_nodes s) p (xs @ ys) NULL \<Longrightarrow> \<forall>x \<in> set (ents (sq_nodes s) xs). \<not> is_for process thr (fst x) \<Longrightarrow>
    remove_loop process thr t prev p s = remove_loop process thr t (last (prev # xs)) (first ys) s"
proof (induction xs arbitrary: prev p)
  case Nil
  then show ?case using seg_first by simp
next
  case (Cons a xs)
  then obtain n where n: "p = a" "a \<noteq> NULL" "sq_nodes s a = Some n" "seg (sq_nodes s) (sq_next n) (xs @ ys) NULL"
    by auto
  have "\<not> (sq_thread n = thr \<and> sq_process n = process)" using Cons.prems(2) n(3) by simp
  then have "remove_loop process thr t prev p s = remove_loop process thr t a (sq_next n) s"
    unfolding n(1) using n(2,3) by (auto simp: remove_loop.simps [of process thr t prev a])
  also have "\<dots> = remove_loop process thr t (last (a # xs)) (first ys) s"
    using Cons.IH [OF n(4)] Cons.prems(2) by simp
  finally show ?case by simp
qed

lemma remove_loop_hit:
  assumes "sleep_ok s (xs @ b # cs)" and "xs \<noteq> []" and "sq_nodes s b = Some m"
    and "sq_thread m = thr" and "sq_process m = process" and "sq_threads s thr = Some t"
  shows "\<exists>s'. remove_loop process thr t (last xs) b s = Some s' \<and> sleep_ok s' (xs @ cs) \<and>
    ents (sq_nodes s') (xs @ cs) = ents (sq_nodes s) xs @ adjust (time_delta_usec m) (ents (sq_nodes s) cs) \<and>
    sq_threads s' = put_thread (sq_threads s) thr t"
proof -
  obtain ys p where xs: "xs = ys @ [p]" using assms(2) by (metis rev_exhaust)
  let ?ns = "sq_nodes s"
  have ok: "seg ?ns (sq s) (ys @ p # b # cs) NULL" "distinct (ys @ p # b # cs)"
      "\<forall>e \<in> set (ents ?ns (xs @ b # cs)). 0 \<le> snd e \<and> fst (snd (fst e)) \<noteq> NULL"
      "refs_ok (sq_threads s) (map fst (ents ?ns (xs @ b # cs)))"
    using assms(1) xs by (auto simp: sleep_ok_def)
  obtain n where n: "?ns p = Some n" "p \<noteq> NULL" "sq_next n = b" "b \<noteq> NULL" "seg ?ns (sq s) ys p"
      "seg ?ns (sq_next m) cs NULL"
    using ok(1) assms(3) by (auto simp: seg_append)
  have nx: "sq_next m = first cs" using seg_first [OF n(6)] .
  define n1 where "n1 = ?ns(p \<mapsto> n\<lparr>sq_next := sq_next m\<rparr>)"
  define n2 where "n2 = adj (time_delta_usec m) cs n1"
  define n3 where "n3 = n2(b := None)"
  have pd: "p \<notin> set cs" "b \<notin> set cs" "p \<noteq> b" "b \<notin> set ys" "p \<notin> set ys" "distinct cs" "first cs \<notin> set (ys @ [p])" "first cs \<noteq> b"
    using ok(2) n(2,4) seg_dom [OF n(5)] by (cases cs; auto)+
  have seg1: "seg n1 (first cs) cs NULL" using n(6) pd(1) by (simp add: n1_def nx)
  have dom: "cs \<noteq> [] \<Longrightarrow> n1 (first cs) \<noteq> None" using seg_dom [OF seg1] by (cases cs) auto
  have au: "(if sq_next m \<noteq> NULL then upd n1 (sq_next m) (add_delta (time_delta_usec m)) else Some n1) = Some n2"
    unfolding nx n2_def by (rule adj_upd [OF seg1])
  let ?s = "s\<lparr>sq_nodes := n3, sq_threads := put_thread (sq_threads s) thr t\<rparr>"
  have "remove_loop process thr t (last xs) b s = Some ?s"
    using assms(3-5) n(1,4) xs
    by (simp add: remove_loop.simps [of process thr t p b] n1_def [symmetric] n3_def [symmetric] au
      del: neq0_conv split del: if_split)
  moreover have "seg n3 (sq s) (xs @ cs) NULL"
  proof -
    have "seg n1 (sq s) (ys @ [p]) (first cs)" using n(1,2,5) pd(5) by (auto simp: seg_append n1_def nx)
    with seg1 have "seg n1 (sq s) (xs @ cs) NULL" by (auto simp: seg_append xs)
    then show ?thesis using pd(2-4) dom by (simp add: n3_def n2_def adj_seg xs)
  qed
  moreover have e: "ents n3 (xs @ cs) = ents ?ns xs @ adjust (time_delta_usec m) (ents ?ns cs)"
  proof -
    have "b \<notin> set xs" "first cs \<notin> set xs" using pd(3,4,7) xs by auto
    then have "ents n3 xs = ents n1 xs" by (simp add: n3_def n2_def adj_ents(1))
    moreover have "ents n1 xs = ents ?ns xs" using n(1) by (simp add: n1_def)
    moreover have "ents n3 cs = adjust (time_delta_usec m) (ents ?ns cs)"
      using pd(1,2,6) by (simp add: n3_def n2_def adj_ents(2) n1_def)
    ultimately show ?thesis by simp
  qed
  moreover have "refs_ok (put_thread (sq_threads s) thr t) (map fst (ents ?ns xs @ adjust (time_delta_usec m) (ents ?ns cs)))"
  proof -
    have "refs_ok (sq_threads s) (sleeper_of m # map fst (ents ?ns xs) @ map fst (ents ?ns cs))"
      using ok(4) assms(3) by (simp add: refs_ok_move)
    from refs_ok_put [OF this [unfolded sleeper_of_def assms(4)] assms(6) refl] show ?thesis by simp
  qed
  moreover have "\<forall>e \<in> set (adjust (time_delta_usec m) (ents ?ns cs)). 0 \<le> snd e \<and> fst (snd (fst e)) \<noteq> NULL"
    using ok(3) assms(3) by (cases cs) auto
  ultimately show ?thesis
    using ok(2,3) xs unfolding sleep_ok_def by (intro exI [of _ ?s]) auto
qed

lemma remove_spec:
  assumes "sleep_ok s as" and "sq_threads s thr = Some t" and "thr \<noteq> NULL" and "instances t \<noteq> 0"
    and "length as \<le> 1 \<or> \<not> is_for process thr (fst (hd (ents (sq_nodes s) as)))"
  shows "\<exists>s' as'. sleep_remove_thread process thr s = Some s' \<and> sleep_ok s' as' \<and>
    due now (ents (sq_nodes s') as') = without process thr (due now (ents (sq_nodes s) as)) \<and>
    sq_threads s' = (if \<exists>e \<in> set (ents (sq_nodes s) as). is_for process thr (fst e)
      then put_thread (sq_threads s) thr t else sq_threads s)"
proof (cases "\<exists>e \<in> set (ents (sq_nodes s) as). is_for process thr (fst e)")
  case False
  then have "\<forall>x \<in> set (due now (ents (sq_nodes s) as)). \<not> is_for process thr (fst x)" using due_fst by fastforce
  then have w: "without process thr (due now (ents (sq_nodes s) as)) = due now (ents (sq_nodes s) as)"
    by (rule without_none)
  have "sleep_remove_thread process thr s = Some s"
  proof (cases as)
    case Nil
    then show ?thesis using assms(1-4) by (simp add: sleep_remove_thread_def sleep_ok_def)
  next
    case (Cons a as')
    obtain n where n: "sq s = a" "a \<noteq> NULL" "sq_nodes s a = Some n" "seg (sq_nodes s) (sq_next n) as' NULL"
      by (rule sleep_ok_Cons [OF assms(1) [unfolded Cons]])
    have "remove_loop process thr t a (sq_next n) s = Some s"
      using remove_loop_skip [of s "sq_next n" as' "[]" process thr t a] n(4) False Cons
      by (simp add: remove_loop.simps [of process thr t _ NULL])
    moreover have "\<not> (sq_thread n = thr \<and> sq_process n = process)" using False Cons n(3) by simp
    ultimately show ?thesis using assms(2-4) n(1-3) by (auto simp: sleep_remove_thread_def)
  qed
  with False w assms(1) show ?thesis by (intro exI [of _ s] exI [of _ as]) simp
next
  case True
  have "\<exists>xs b cs. as = xs @ b # cs \<and> is_for process thr (sleeper_of (the (sq_nodes s b))) \<and>
      (\<forall>a \<in> set xs. \<not> is_for process thr (sleeper_of (the (sq_nodes s a))))"
    using split_list_first_prop [of as "\<lambda>a. is_for process thr (sleeper_of (the (sq_nodes s a)))"] True
    by (auto simp: ents_def)
  then obtain xs b cs where xs: "as = xs @ b # cs" "is_for process thr (sleeper_of (the (sq_nodes s b)))"
      "\<forall>x \<in> set (ents (sq_nodes s) xs). \<not> is_for process thr (fst x)"
    by (auto simp: ents_def)
  obtain m where m: "sq_nodes s b = Some m" "b \<noteq> NULL"
    using assms(1) xs(1) seg_dom [of "sq_nodes s" "sq s" as NULL b] by (auto simp: sleep_ok_def)
  have hit: "sq_thread m = thr" "sq_process m = process" using xs(2) m(1) by simp_all
  have d: "due now (ents (sq_nodes s) xs @ adjust (time_delta_usec m) (ents (sq_nodes s) cs)) =
      without process thr (due now (ents (sq_nodes s) as))"
    using due_without [OF xs(3), of "sleeper_of m" now "time_delta_usec m" "ents (sq_nodes s) cs"] hit m(1) xs(1) by simp
  show ?thesis
  proof (cases xs)
    case Nil
    then have cs: "cs = []" using assms(5) xs(1,2) by auto
    obtain n where n: "sq s = b" "seg (sq_nodes s) (sq_next m) [] NULL"
        "refs_ok (sq_threads s) (sleeper_of m # map fst (ents (sq_nodes s) []))"
      using sleep_ok_Cons [of s b "[]"] assms(1) xs(1) Nil cs m(1) by (metis append_Nil option.inject)
    let ?s = "s\<lparr>sq := NULL, sq_nodes := (sq_nodes s)(b := None), sq_threads := put_thread (sq_threads s) thr t\<rparr>"
    have "sleep_remove_thread process thr s = Some ?s"
      using assms(2-4) n(1,2) m hit by (simp add: sleep_remove_thread_def)
    moreover have "sleep_ok ?s []" by (simp add: sleep_ok_def refs_ok_def)
    ultimately show ?thesis
      using True d Nil cs by - (rule exI [of _ ?s], rule exI [of _ "[]"], simp)
  next
    case (Cons a xs')
    obtain n where n: "sq s = a" "a \<noteq> NULL" "sq_nodes s a = Some n" "seg (sq_nodes s) (sq_next n) (xs' @ b # cs) NULL"
      using sleep_ok_Cons [of s a "xs' @ b # cs"] assms(1) xs(1) Cons by auto
    have "\<not> (sq_thread n = thr \<and> sq_process n = process)" using xs(3) Cons n(3) by simp
    then have "sleep_remove_thread process thr s = remove_loop process thr t a (sq_next n) s"
      using assms(2-4) n(1-3) by (auto simp: sleep_remove_thread_def)
    also have "\<dots> = remove_loop process thr t (last xs) b s"
      using remove_loop_skip [of s "sq_next n" xs' "b # cs" process thr t a] n(4) xs(3) Cons by simp
    finally have r: "sleep_remove_thread process thr s = remove_loop process thr t (last xs) b s" .
    obtain s' where "remove_loop process thr t (last xs) b s = Some s'" "sleep_ok s' (xs @ cs)"
        "ents (sq_nodes s') (xs @ cs) = ents (sq_nodes s) xs @ adjust (time_delta_usec m) (ents (sq_nodes s) cs)"
        "sq_threads s' = put_thread (sq_threads s) thr t"
      using remove_loop_hit [OF assms(1) [unfolded xs(1)] _ m(1) hit assms(2)] Cons by blast
    with r True d show ?thesis
      by - (rule exI [of _ s'], rule exI [of _ "xs @ cs"], simp del: ents_simps)
  qed
qed

subsection \<open>Properties\<close>

text \<open>C9: the sleep queue refines a list of wake-up times. Putting a thread to sleep at time \<open>now\<close> for
  \<open>requested\<close> microseconds inserts it, behind all threads due no later, with the wake-up time \<open>now +
  requested\<close>, takes a reference to it and changes no other wake-up time. A tick takes off exactly the
  threads that are due within 976 microseconds for each click, in order, wakes each of them whose
  wait is still the one it slept on, and changes no wake-up time of the others. Both keep the queue
  well formed. The microseconds of the tick have to fit 32 bits, which excludes ticks of more than
  4400612 clicks, over an hour.\<close>

theorem sleep_queue_refines:
  assumes "sleep_ok s as" and "0 \<le> requested" and "addr \<noteq> NULL" and "sq_nodes s addr = None"
    and "sq_threads s thr = Some t" and "unat (instances t) < 0xFFFFFFFE" and "thr \<noteq> NULL"
    and "976 * unat ticks < 2 ^ 32"
  shows "(\<exists>s' as'. sleep_enqueue process thr addr requested s = Some s' \<and> sleep_ok s' as' \<and>
      due now (ents (sq_nodes s') as') =
        insert_due ((process, thr, thread_magic t), now + requested) (due now (ents (sq_nodes s) as)) \<and>
      sq_threads s' = (sq_threads s)(thr \<mapsto> t\<lparr>instances := instances t + 1, status := SCHED_INTERR_SLEEP\<rparr>)) \<and>
    (\<exists>s' as'. sleep_sched_tick ticks s = Some s' \<and> sleep_ok s' as' \<and>
      sq_threads s' = fold wake_one
        (map fst (takeWhile (\<lambda>x. snd x \<le> now + 976 * uint ticks) (due now (ents (sq_nodes s) as)))) (sq_threads s) \<and>
      due (now + 976 * uint ticks) (ents (sq_nodes s') as') =
        dropWhile (\<lambda>x. snd x \<le> now + 976 * uint ticks) (due now (ents (sq_nodes s) as)))"
  using enqueue_spec [OF assms(1-7)] tick_spec [OF assms(1,8)] by blast

text \<open>C32: when the thread at the head of a sleep queue with more than one sleeper is removed, its node is
  freed but stays the head of the queue: afterwards \<open>sq\<close> is the address of a node that was allocated
  before and is not any more. The next tick fails on reading it, and so does the next thread that
  falls asleep, unless its new node happens to get the freed address.\<close>

theorem sleep_remove_head_dangling:
  assumes "sleep_ok s (a # b # as)" and "sq_nodes s a = Some n" and "sq_thread n = thr" and "sq_process n = process"
    and "sq_threads s thr = Some t" and "instances t \<noteq> 0" and "addr \<noteq> a"
  shows "\<exists>s'. sleep_remove_thread process thr s = Some s' \<and> sq s' = a \<and> sq_nodes s' a = None \<and>
    sq_nodes s' b \<noteq> None \<and> sleep_sched_tick ticks s' = None \<and> sleep_enqueue process2 thr2 addr requested s' = None"
proof -
  obtain n' where n': "sq s = a" "a \<noteq> NULL" "sq_nodes s a = Some n'" "a \<notin> set (b # as)" "sq_thread n' \<noteq> NULL"
      "seg (sq_nodes s) (sq_next n') (b # as) NULL"
    by (rule sleep_ok_Cons [OF assms(1)])
  then have n: "sq_next n = b" "b \<noteq> NULL" "thr \<noteq> NULL" "a \<noteq> b" using assms(2,3) by auto
  obtain m where m: "sq_nodes s b = Some m" using n'(3,6) assms(2) by auto
  let ?ns = "(sq_nodes s)(b \<mapsto> add_delta (time_delta_usec n) m, a := None)"
  let ?s = "s\<lparr>sq_nodes := ?ns, sq_threads := put_thread (sq_threads s) thr t\<rparr>"
  have "sleep_remove_thread process thr s = Some ?s"
    using assms(2-6) n n'(1,2) m by (simp add: sleep_remove_thread_def)
  moreover have "sleep_sched_tick ticks ?s = None"
    using n'(1,2) by (simp add: sleep_sched_tick_def tick_loop.simps)
  moreover have "sleep_insert addr new requested ?s = None" for new
    using n'(1,2) assms(7) by (simp add: sleep_insert_def sleep_place.simps)
  ultimately show ?thesis
    using n'(1) n(4) by (intro exI [of _ ?s]) (simp add: sleep_enqueue_def bind_eq_None_conv)
qed

text \<open>C28: in every other case removal is correct: when the thread is not the first of several sleepers,
  exactly its entry leaves the queue, every other thread keeps its wake-up time, the reference to
  the thread is dropped, and nothing changes when the thread does not sleep.\<close>

theorem sleep_remove_correct:
  assumes "sleep_ok s as" and "sq_threads s thr = Some t" and "thr \<noteq> NULL" and "instances t \<noteq> 0"
    and "length as \<le> 1 \<or> \<not> is_for process thr (fst (hd (ents (sq_nodes s) as)))"
  shows "\<exists>s' as'. sleep_remove_thread process thr s = Some s' \<and> sleep_ok s' as' \<and>
    due now (ents (sq_nodes s') as') = without process thr (due now (ents (sq_nodes s) as)) \<and>
    sq_threads s' = (if \<exists>e \<in> set (ents (sq_nodes s) as). is_for process thr (fst e)
      then put_thread (sq_threads s) thr t else sq_threads s)"
  by (rule remove_spec [OF assms])

text \<open>\<open>sys_alarm\<close> returns the negative of the seconds left of a pending alarm, as an unsigned number.\<close>

lemma sys_alarm_negative:
  assumes "0 < left" and "0 \<le> clicks"
  shows "fst (sys_alarm seconds clicks (clicks + 1024 * left)) = - word_of_int (left - 1)"
proof -
  have "- (clicks - (clicks + 1024 * left) + 1024 - 1) = 1024 * (left - 1) + 1" by simp
  then have "- (clicks - (clicks + 1024 * left) + 1024 - 1) div 1024 = left - 1" by simp
  then show ?thesis
    using assms by (auto simp: sys_alarm_def RTC_TIMER_RESOLUTION_HZ_def Let_def)
qed

definition two_sleepers :: sleep_state where
  "two_sleepers =
     \<lparr>sq = 100,
      sq_nodes = [100 \<mapsto> \<lparr>sq_process = 50, sq_thread = 11, sq_magic = 7, time_delta_usec = 5, sq_next = 200\<rparr>,
                  200 \<mapsto> \<lparr>sq_process = 50, sq_thread = 12, sq_magic = 7, time_delta_usec = 3, sq_next = NULL\<rparr>],
      sq_threads = [11 \<mapsto> waiting, 12 \<mapsto> waiting, 13 \<mapsto> waiting], uptime_clicks = 0, system_time_sec = 0\<rparr>"

lemma two_sleepers_ok: "sleep_ok two_sleepers [100, 200]"
  by (simp add: sleep_ok_def two_sleepers_def sleeper_of_def refs_ok_def waiting_def)

theorem sleep_queue_refines_witness:
  "(\<exists>s' as'. sleep_enqueue 50 13 300 6 two_sleepers = Some s' \<and>
     due 0 (ents (sq_nodes s') as') = [((50, 11, 7), 5), ((50, 13, 7), 6), ((50, 12, 7), 8)]) \<and>
   (\<exists>s' as'. sleep_sched_tick 1 two_sleepers = Some s' \<and> due 976 (ents (sq_nodes s') as') = [])"
  using sleep_queue_refines [OF two_sleepers_ok, of 6 300 13 waiting 1 50 0]
  by (auto simp: two_sleepers_def waiting_def sleeper_of_def)

theorem sleep_remove_head_dangling_witness:
  "\<exists>s'. sleep_remove_thread 50 11 two_sleepers = Some s' \<and> sq_nodes s' (sq s') = None \<and> sleep_sched_tick 1 s' = None"
  using sleep_remove_head_dangling [OF two_sleepers_ok, of "the (sq_nodes two_sleepers 100)" 11 50 waiting 300 1 50 13 6]
  by (auto simp: two_sleepers_def waiting_def)

theorem sleep_remove_correct_witness:
  "\<exists>s' as'. sleep_remove_thread 50 12 two_sleepers = Some s' \<and> due 0 (ents (sq_nodes s') as') = [((50, 11, 7), 5)]"
  using sleep_remove_correct [OF two_sleepers_ok, of 12 waiting 50 0]
  by (auto simp: two_sleepers_def waiting_def sleeper_of_def is_for_def)

end
