(* ===== verification/Futex.thy ===== *)
theory Futex
  imports ThreadQueue
begin

text \<open>
  Futexes (\<open>src/futex.c\<close>) of one process. The threads of the process are a list in the order of the
  code's linked list; \<open>cur\<close> is the position of the calling thread. Each call holds the futex lock
  while it reads and changes this state, so it is one step, except that \<open>futex_wait\<close> gives up the
  processor: what the other threads do meanwhile is the argument \<open>others\<close>, which also says whether a
  signal is pending on return. \<open>vm_locked\<close> counts the
  read locks the call holds on the address space.
\<close>

record futex_state =
  proc_threads :: "thread_t list"
  cur :: nat
  word_at :: "ptr \<Rightarrow> u32"
  vm_locked :: int

definition set_cur :: "(thread_t \<Rightarrow> thread_t) \<Rightarrow> futex_state \<Rightarrow> futex_state" where
  "set_cur f s = s\<lparr>proc_threads := (proc_threads s)[cur s := f (proc_threads s ! cur s)]\<rparr>"

definition PROGRAM_PCB_VADDR :: ptr where
  "PROGRAM_PCB_VADDR = 0x80000000 - 2 ^ 15 * 256 - 2 ^ 15 - 4096 - 4096"

definition VM_LOCK :: "ptr \<Rightarrow> futex_state \<Rightarrow> futex_state" where
  "VM_LOCK a s = (if 0x08000000 \<le> a \<and> a < PROGRAM_PCB_VADDR then s\<lparr>vm_locked := vm_locked s + 1\<rparr> else s)"

definition VM_UNLOCK :: "ptr \<Rightarrow> futex_state \<Rightarrow> futex_state" where
  "VM_UNLOCK a s = (if 0x08000000 \<le> a \<and> a < PROGRAM_PCB_VADDR then s\<lparr>vm_locked := vm_locked s - 1\<rparr> else s)"

text \<open>
  \<open>timeout\<close> is \<open>None\<close> for a NULL pointer; otherwise whether the structure is readable, its seconds and
  its nanoseconds; \<open>clock_ok\<close> says whether the clock is one of the two the call accepts. \<open>nanosleep\<close> is
  the call of \<open>sys_clock_nanosleep\<close>: its result, the state when it returns and the signal flag.
\<close>

definition futex_wait ::
  "(futex_state \<Rightarrow> futex_state \<times> bool) \<Rightarrow> (futex_state \<Rightarrow> (errno + unit) \<times> futex_state \<times> bool) \<Rightarrow> ptr \<Rightarrow> u32 \<Rightarrow> int \<Rightarrow> (bool \<times> int \<times> int) option \<Rightarrow> bool \<Rightarrow>
    futex_state \<Rightarrow> unit sysret \<times> futex_state" where
  "futex_wait others nanosleep wait_addr expected owner timeout clock_ok s =
     (if owner < 0 then (Inl EINVAL, s)
      else if timeout \<noteq> None \<and> \<not> clock_ok then (Inl EINVAL, s)
      else if length (proc_threads s) = 1 then (Inl EDEADLK, s)
      else if owner > 0 \<and> (\<forall>t \<in> set (proc_threads s). tid t \<noteq> owner) then (Inl EOWNERDEAD, s)
      else if (case timeout of Some (mapped, _) \<Rightarrow> \<not> mapped | None \<Rightarrow> False) then (Inl EFAULT, s)
      else if (case timeout of Some (_, sec, nsec) \<Rightarrow> nsec = 0 \<and> sec = 0 | None \<Rightarrow> False) then (Inr (), s)
      else if word_at s wait_addr \<noteq> expected then (Inl EAGAIN, VM_UNLOCK wait_addr s)
      else let s = set_cur (\<lambda>t. t\<lparr>owner_dead := False, futex_owner := owner, futex_addr := wait_addr,
                                 is_waiting_on_futex := True\<rparr>) (VM_UNLOCK wait_addr s)
           in if timeout \<noteq> None
              then let (slept, s, eintr) = nanosleep s;
                       s = set_cur (\<lambda>t. t\<lparr>is_waiting_on_futex := False\<rparr>) s
                   in (case slept of
                         Inr () \<Rightarrow> (Inl ETIMEDOUT, s)
                       | Inl EINTR \<Rightarrow>
                           if eintr then (Inl EINTR, s)
                           else if owner_dead (proc_threads s ! cur s) \<and> owner \<noteq> 0 then (Inl EOWNERDEAD, s)
                           else (Inr (), s)
                       | Inl e \<Rightarrow> (Inl e, s))
              else let (s, eintr) = others (set_cur (\<lambda>t. t\<lparr>status := SCHED_INTERR_SLEEP\<rparr>) s);
                       s = set_cur (\<lambda>t. t\<lparr>is_waiting_on_futex := False\<rparr>) s
                   in if eintr then (Inl EINTR, s) else (Inr (), s))"

fun wake_loop :: "ptr \<Rightarrow> nat \<Rightarrow> nat \<Rightarrow> thread_t list \<Rightarrow> thread_t list \<times> nat" where
  "wake_loop wait_addr limit woken [] = ([], woken)"
| "wake_loop wait_addr limit woken (t # ts) =
     (if is_waiting_on_futex t \<and> futex_addr t = wait_addr
      then let t = t\<lparr>is_waiting_on_futex := False, status := SCHED_RUNNABLE\<rparr>
           in if woken + 1 \<ge> limit then (t # ts, woken + 1)
              else let (ts, n) = wake_loop wait_addr limit (woken + 1) ts in (t # ts, n)
      else let (ts, n) = wake_loop wait_addr limit woken ts in (t # ts, n))"

definition futex_wake :: "ptr \<Rightarrow> u32 \<Rightarrow> futex_state \<Rightarrow> nat \<times> futex_state" where
  "futex_wake wait_addr wakeup_count s =
     (if wakeup_count = 0 then (0, s)
      else let limit = (if wakeup_count > 0x7FFFFFFF then 0x7FFFFFFF else unat wakeup_count);
               (ts, n) = wake_loop wait_addr limit 0 (proc_threads s)
           in (n, s\<lparr>proc_threads := ts\<rparr>))"

datatype futex_op = FUTEX_WAIT | FUTEX_WAKE | FUTEX_OTHER

definition sys_futex ::
  "(futex_state \<Rightarrow> futex_state \<times> bool) \<Rightarrow> (futex_state \<Rightarrow> (errno + unit) \<times> futex_state \<times> bool) \<Rightarrow> (ptr \<Rightarrow> bool) \<Rightarrow> ptr \<Rightarrow> futex_op \<Rightarrow> u32 \<Rightarrow> int \<Rightarrow>
    (bool \<times> int \<times> int) option \<Rightarrow> bool \<Rightarrow> futex_state \<Rightarrow> nat sysret \<times> futex_state" where
  "sys_futex others nanosleep mapped wait_addr op val owner timeout clock_ok s =
     (if wait_addr mod 4 \<noteq> 0 then (Inl EINVAL, s)
      else let s = VM_LOCK wait_addr s in
           if \<not> mapped wait_addr then (Inl EFAULT, VM_UNLOCK wait_addr s)
           else case op of
                  FUTEX_WAIT \<Rightarrow>
                    (let (r, s) = futex_wait others nanosleep wait_addr val owner timeout clock_ok s
                     in (map_sum id (\<lambda>_. 0) r, s))
                | FUTEX_WAKE \<Rightarrow> (let (n, s) = futex_wake wait_addr val (VM_UNLOCK wait_addr s) in (Inr n, s))
                | FUTEX_OTHER \<Rightarrow> (Inl EINVAL, VM_UNLOCK wait_addr s))"

definition futex_wake_owner_dead :: "int \<Rightarrow> futex_state \<Rightarrow> futex_state" where
  "futex_wake_owner_dead dead s =
     s\<lparr>proc_threads := map (\<lambda>t. if is_waiting_on_futex t \<and> futex_owner t = dead
                              then t\<lparr>owner_dead := True, is_waiting_on_futex := False, status := SCHED_RUNNABLE\<rparr>
                              else t) (proc_threads s)\<rparr>"

subsection \<open>Waking\<close>

definition waits :: "ptr \<Rightarrow> thread_t \<Rightarrow> bool" where
  "waits a t \<longleftrightarrow> is_waiting_on_futex t \<and> futex_addr t = a"

definition woken :: "thread_t \<Rightarrow> thread_t" where
  "woken t = t\<lparr>is_waiting_on_futex := False, status := SCHED_RUNNABLE\<rparr>"

text \<open>The specification: the first \<open>n\<close> waiting threads of the list are woken.\<close>

fun wake_first :: "ptr \<Rightarrow> nat \<Rightarrow> thread_t list \<Rightarrow> thread_t list" where
  "wake_first a n [] = []"
| "wake_first a n (t # ts) =
     (if waits a t \<and> n > 0 then woken t # wake_first a (n - 1) ts else t # wake_first a n ts)"

lemma wake_first_0: "wake_first a 0 ts = ts"
  by (induction ts) auto

lemma wake_loop_Cons:
  "wake_loop a limit k (t # ts) =
     (if waits a t
      then if k + 1 \<ge> limit then (woken t # ts, k + 1)
           else (case wake_loop a limit (k + 1) ts of (ts', n) \<Rightarrow> (woken t # ts', n))
      else (case wake_loop a limit k ts of (ts', n) \<Rightarrow> (t # ts', n)))"
  by (simp add: waits_def woken_def Let_def)

lemma wake_loop_first:
  "k < limit \<Longrightarrow>
    wake_loop a limit k ts = (wake_first a (limit - k) ts, k + min (limit - k) (length (filter (waits a) ts)))"
proof (induction ts arbitrary: k)
  case (Cons t ts)
  consider "\<not> waits a t" | "waits a t" "k + 1 \<ge> limit" | "waits a t" "k + 1 < limit"
    by linarith
  then show ?case
  proof cases
    case 1
    with Cons show ?thesis by (simp add: wake_loop_Cons del: wake_loop.simps)
  next
    case 2
    then have "limit - k = 1" using Cons.prems by simp
    with 2 show ?thesis by (simp add: wake_loop_Cons wake_first_0 del: wake_loop.simps)
  next
    case 3
    then have "limit - k - 1 = limit - (k + 1)" "min (limit - k) (Suc n) = Suc (min (limit - (k + 1)) n)" for n
      by auto
    with 3 Cons.IH [of "k + 1"] show ?thesis by (simp add: wake_loop_Cons del: wake_loop.simps)
  qed
qed simp

lemma futex_wake_eq:
  "futex_wake a n s =
     (min (min (unat n) 0x7FFFFFFF) (length (filter (waits a) (proc_threads s))),
      s\<lparr>proc_threads := wake_first a (min (unat n) 0x7FFFFFFF) (proc_threads s)\<rparr>)"
proof (cases "n = 0")
  case True
  then show ?thesis by (simp add: futex_wake_def wake_first_0)
next
  case False
  then have pos: "0 < unat n" by (simp add: unat_gt_0)
  have limit: "(if n > 0x7FFFFFFF then 0x7FFFFFFF else unat n) = min (unat n) 0x7FFFFFFF"
    by (simp add: word_less_nat_alt min_def)
  from wake_loop_first [of 0 "min (unat n) 0x7FFFFFFF" a "proc_threads s"] pos False show ?thesis
    by (simp add: futex_wake_def limit)
qed

lemma wake_first_all: "length (filter (waits a) ts) \<le> n \<Longrightarrow> wake_first a n ts = map (\<lambda>t. if waits a t then woken t else t) ts"
  by (induction ts arbitrary: n) (auto simp: Suc_le_eq split: if_splits)

text \<open>C31: \<open>futex_wake\<close> makes runnable the first \<open>n\<close> threads of the process that wait on the address, or
  all of them if there are fewer, touches no other thread and returns how many it woke, where \<open>n\<close> is
  the count asked for, cut to \<open>LONG_MAX\<close>.\<close>

theorem futex_wake_spec:
  "futex_wake a n s =
     (min (min (unat n) 0x7FFFFFFF) (length (filter (waits a) (proc_threads s))),
      s\<lparr>proc_threads := wake_first a (min (unat n) 0x7FFFFFFF) (proc_threads s)\<rparr>)"
  by (rule futex_wake_eq)

subsection \<open>Waiting\<close>

lemma VM_LOCK_sel [simp]:
  "proc_threads (VM_LOCK a s) = proc_threads s" "cur (VM_LOCK a s) = cur s" "word_at (VM_LOCK a s) = word_at s"
  "VM_UNLOCK a (VM_LOCK a s) = s"
  by (simp_all add: VM_LOCK_def VM_UNLOCK_def)


lemma set_cur_sel [simp]:
  "cur (set_cur f s) = cur s" "word_at (set_cur f s) = word_at s" "vm_locked (set_cur f s) = vm_locked s"
  "length (proc_threads (set_cur f s)) = length (proc_threads s)"
  by (simp_all add: set_cur_def)

lemma set_cur_set_cur: "cur s < length (proc_threads s) \<Longrightarrow> set_cur f (set_cur g s) = set_cur (\<lambda>t. f (g t)) s"
  by (simp add: set_cur_def)

text \<open>The timeouts with which a wait goes to sleep: none, or a readable one that is not zero, on a clock
  the call accepts; and the owners with which it does: none, or a thread of the process.\<close>

definition sleeps_on :: "int \<Rightarrow> (bool \<times> int \<times> int) option \<Rightarrow> bool \<Rightarrow> futex_state \<Rightarrow> bool" where
  "sleeps_on owner timeout clock_ok s \<longleftrightarrow>
     (owner = 0 \<or> owner > 0 \<and> (\<exists>t \<in> set (proc_threads s). tid t = owner)) \<and>
     (case timeout of None \<Rightarrow> True | Some (readable, sec, nsec) \<Rightarrow> clock_ok \<and> readable \<and> (sec \<noteq> 0 \<or> nsec \<noteq> 0))"


lemma futex_wait_timed:
  assumes "sleeps_on owner (Some t) clock_ok s" and "length (proc_threads s) \<noteq> 1"
  shows "futex_wait others nanosleep a expected owner (Some t) clock_ok s =
    (if word_at s a \<noteq> expected then (Inl EAGAIN, VM_UNLOCK a s)
     else case nanosleep (set_cur (\<lambda>t. t\<lparr>owner_dead := False, futex_owner := owner, futex_addr := a,
                                       is_waiting_on_futex := True\<rparr>) (VM_UNLOCK a s)) of
            (slept, s, eintr) \<Rightarrow>
              (let s = set_cur (\<lambda>t. t\<lparr>is_waiting_on_futex := False\<rparr>) s
               in case slept of
                    Inr () \<Rightarrow> (Inl ETIMEDOUT, s)
                  | Inl EINTR \<Rightarrow>
                      if eintr then (Inl EINTR, s)
                      else if owner_dead (proc_threads s ! cur s) \<and> owner \<noteq> 0 then (Inl EOWNERDEAD, s)
                      else (Inr (), s)
                  | Inl e \<Rightarrow> (Inl e, s)))"
  using assms by (auto simp: futex_wait_def sleeps_on_def Let_def split: prod.splits)




lemma length_wake_first [simp]: "length (wake_first a n ts) = length ts"
  by (induction ts arbitrary: n) auto



definition two_threads :: futex_state where
  "two_threads = \<lparr>proc_threads = [waiting, waiting], cur = 1, word_at = \<lambda>_. 7, vm_locked = 0\<rparr>"


text \<open>A thread that waits on the lock of a dying owner is woken by \<open>futex_wake_owner_dead\<close>, but an untimed
  wait then reports success, not \<open>EOWNERDEAD\<close>: the flag is looked at only after a timed one.\<close>

lemma futex_untimed_owner_dead:
  assumes "length (proc_threads s) \<noteq> 1" and "cur s < length (proc_threads s)" and "owner > 0"
    and "\<exists>t \<in> set (proc_threads s). tid t = owner" and "word_at s a = expected"
  shows "\<exists>s'. futex_wait (\<lambda>s. (futex_wake_owner_dead owner s, False)) nanosleep a expected owner None clock_ok s = (Inr (), s') \<and>
    owner_dead (proc_threads s' ! cur s')"
  using assms
  by (auto simp: futex_wait_def Let_def set_cur_def VM_UNLOCK_def futex_wake_owner_dead_def)

lemma futex_wait_early:
  assumes "\<not> (length (proc_threads s) \<noteq> 1 \<and> sleeps_on owner timeout clock_ok s)"
  shows "futex_wait others nanosleep a expected owner timeout clock_ok s =
    (if owner < 0 \<or> timeout \<noteq> None \<and> \<not> clock_ok then Inl EINVAL
     else if length (proc_threads s) = 1 then Inl EDEADLK
     else if owner > 0 \<and> (\<forall>t \<in> set (proc_threads s). tid t \<noteq> owner) then Inl EOWNERDEAD
     else if \<not> fst (the timeout) then Inl EFAULT
     else Inr (), s)"
proof (cases "owner < 0 \<or> timeout \<noteq> None \<and> \<not> clock_ok")
  case True
  then show ?thesis unfolding futex_wait_def by (cases "owner < 0") simp_all
next
  case arg: False
  then have arg': "\<not> owner < 0" "\<not> (timeout \<noteq> None \<and> \<not> clock_ok)" by auto
  define dead where "dead \<longleftrightarrow> owner > 0 \<and> (\<forall>t \<in> set (proc_threads s). tid t \<noteq> owner)"
  show ?thesis
  proof (cases "length (proc_threads s) = 1 \<or> dead")
    case True
    with arg' show ?thesis
      unfolding futex_wait_def dead_def [symmetric] by (cases "length (proc_threads s) = 1") (simp_all only: if_False if_True simp_thms)
  next
    case False
    then obtain r sec nsec where t: "timeout = Some (r, sec, nsec)" "\<not> r \<or> sec = 0 \<and> nsec = 0"
      using assms arg by (cases timeout) (auto simp: sleeps_on_def not_less dead_def)
    with arg' False show ?thesis
      unfolding futex_wait_def dead_def [symmetric]
      by (cases r) (simp_all only: if_False if_True option.case prod.case option.sel fst_conv simp_thms de_Morgan_disj)
  qed
qed

lemma timed_result:
  "snd (case slept of
          Inr () \<Rightarrow> (Inl ETIMEDOUT, s)
        | Inl EINTR \<Rightarrow> if eintr then (Inl EINTR, s) else if dead then (Inl EOWNERDEAD, s) else (Inr (), s)
        | Inl e \<Rightarrow> (Inl e, s)) = s"
proof (cases slept)
  case (Inl e)
  then show ?thesis by (cases e) simp_all
next
  case (Inr u)
  then show ?thesis by (cases u) (simp only: sum.case unit.case snd_conv)
qed

text \<open>C33: the read lock that \<open>sys_futex\<close> takes on a user address is released by a wait that sleeps, or that
  finds the word changed, and by no other: every early return of \<open>futex_wait\<close> (\<open>EINVAL\<close> for a negative
  owner or an unknown clock, \<open>EDEADLK\<close> for the only thread of the process, \<open>EOWNERDEAD\<close> for an owner
  that is gone, \<open>EFAULT\<close> for an unreadable timeout, and success for a zero one) leaves it held, and
  changes nothing else. The threads that run during the sleep leave the count of locks as it was.\<close>

theorem futex_wait_leaks_lock:
  assumes "a mod 4 = 0" and "mapped a" and "0x08000000 \<le> a" and "a < PROGRAM_PCB_VADDR"
    and "\<And>s. vm_locked (fst (others s)) = vm_locked s" and "\<And>s. vm_locked (fst (snd (nanosleep s))) = vm_locked s"
  shows "if length (proc_threads s) \<noteq> 1 \<and> sleeps_on owner timeout clock_ok s
    then vm_locked (snd (sys_futex others nanosleep mapped a FUTEX_WAIT expected owner timeout clock_ok s)) = vm_locked s
    else sys_futex others nanosleep mapped a FUTEX_WAIT expected owner timeout clock_ok s =
      (if owner < 0 \<or> timeout \<noteq> None \<and> \<not> clock_ok then Inl EINVAL
       else if length (proc_threads s) = 1 then Inl EDEADLK
       else if owner > 0 \<and> (\<forall>t \<in> set (proc_threads s). tid t \<noteq> owner) then Inl EOWNERDEAD
       else if \<not> fst (the timeout) then Inl EFAULT
       else Inr 0, s\<lparr>vm_locked := vm_locked s + 1\<rparr>)"
proof (cases "length (proc_threads s) \<noteq> 1 \<and> sleeps_on owner timeout clock_ok s")
  case True
  have on: "sleeps_on owner timeout clock_ok (VM_LOCK a s)" "length (proc_threads (VM_LOCK a s)) \<noteq> 1"
    using True by (simp_all add: sleeps_on_def)
  have "vm_locked (snd (futex_wait others nanosleep a expected owner timeout clock_ok (VM_LOCK a s))) = vm_locked s"
  proof (cases timeout)
    case None
    let ?s1 = "set_cur (\<lambda>t. t\<lparr>status := SCHED_INTERR_SLEEP\<rparr>)
      (set_cur (\<lambda>t. t\<lparr>owner_dead := False, futex_owner := owner, futex_addr := a, is_waiting_on_futex := True\<rparr>) s)"
    have "futex_wait others nanosleep a expected owner timeout clock_ok (VM_LOCK a s) =
      (if word_at s a \<noteq> expected then (Inl EAGAIN, s)
       else (if snd (others ?s1) then Inl EINTR else Inr (),
             set_cur (\<lambda>t. t\<lparr>is_waiting_on_futex := False\<rparr>) (fst (others ?s1))))"
      using on None by (auto simp: futex_wait_def sleeps_on_def Let_def split: prod.splits)
    then show ?thesis using assms(5) [of ?s1] by simp
  next
    case (Some t)
    let ?s1 = "set_cur (\<lambda>t. t\<lparr>owner_dead := False, futex_owner := owner, futex_addr := a, is_waiting_on_futex := True\<rparr>) s"
    obtain slept s2 eintr where n: "nanosleep ?s1 = (slept, s2, eintr)" by (metis surj_pair)
    then have "vm_locked s2 = vm_locked s" using assms(6) [of ?s1] by simp
    then show ?thesis
      unfolding Some futex_wait_timed [OF on(1) [unfolded Some] on(2), of others nanosleep a expected]
      by (simp add: n Let_def timed_result)
  qed
  then show ?thesis
    using True assms(1,2) by (auto simp: sys_futex_def split: prod.splits)
next
  case False
  then have "\<not> (length (proc_threads (VM_LOCK a s)) \<noteq> 1 \<and> sleeps_on owner timeout clock_ok (VM_LOCK a s))"
    by (simp add: sleeps_on_def)
  from futex_wait_early [OF this, of others nanosleep a expected] False assms(1-4) show ?thesis
    by (simp add: sys_futex_def VM_LOCK_def)
qed

theorem futex_wait_leaks_lock_witness:
  "sys_futex (\<lambda>s. (s, False)) (\<lambda>s. (Inr (), s, False)) (\<lambda>_. True) 0x08049000 FUTEX_WAIT 7 5 None True two_threads =
    (Inl EOWNERDEAD, two_threads\<lparr>vm_locked := 1\<rparr>)"
  using futex_wait_leaks_lock [where a = "0x08049000" and mapped = "\<lambda>_. True" and owner = 5 and s = two_threads
      and others = "\<lambda>s. (s, False)" and nanosleep = "\<lambda>s. (Inr (), s, False)" and timeout = None]
  by (simp add: PROGRAM_PCB_VADDR_def sleeps_on_def two_threads_def waiting_def)

end
