(* ===== verification/Ring.thy ===== *)
theory Ring
  imports Prelude
begin

text \<open>
  Ring buffers: the index arithmetic of the \<open>EMPTY\<close>, \<open>FULL\<close>, \<open>REMAIN\<close>, \<open>INC\<close>, \<open>DEC\<close> and \<open>DEC_LAST\<close> macros
  that the pipes (\<open>src/fs/pipe.c\<close>) and the terminal queues (\<open>src/include/kernel_tty_io.h\<close>) share up
  to the size of the buffer. The locale \<open>ring\<close> proves once, for any size, that they implement a
  first-in first-out list; pipes and terminals interpret it with their sizes.
\<close>

definition ring_empty :: "nat \<Rightarrow> nat \<Rightarrow> bool" where
  "ring_empty head tail \<longleftrightarrow> head = tail"

text \<open>\<open>head - 1\<close> is computed in \<open>size_t\<close>: for \<open>head = 0\<close> it is larger than any index.\<close>

definition ring_full :: "nat \<Rightarrow> nat \<Rightarrow> nat \<Rightarrow> bool" where
  "ring_full sz head tail \<longleftrightarrow> head = 0 \<and> tail = sz - 1 \<or> head > 0 \<and> tail = head - 1"

definition ring_remain :: "nat \<Rightarrow> nat \<Rightarrow> nat \<Rightarrow> nat" where
  "ring_remain sz head tail = (if head \<le> tail then tail - head else sz - head + tail)"

definition ring_inc :: "nat \<Rightarrow> nat \<Rightarrow> nat" where
  "ring_inc sz i = (i + 1) mod sz"

definition ring_dec_last :: "nat \<Rightarrow> nat \<Rightarrow> nat" where
  "ring_dec_last sz tail = (sz + tail - 1) mod sz"

definition ring_list :: "nat \<Rightarrow> 'a list \<Rightarrow> nat \<Rightarrow> nat \<Rightarrow> 'a list" where
  "ring_list sz buf head tail =
     map (\<lambda>i. buf ! ((head + i) mod sz)) [0..<ring_remain sz head tail]"

definition ring_ok :: "nat \<Rightarrow> 'a list \<Rightarrow> nat \<Rightarrow> nat \<Rightarrow> bool" where
  "ring_ok sz buf head tail \<longleftrightarrow> length buf = sz \<and> head < sz \<and> tail < sz"

locale ring =
  fixes sz :: nat
  assumes sz: "1 < sz"
begin

lemma inc_less: "i < sz \<Longrightarrow> ring_inc sz i < sz"
  using sz by (simp add: ring_inc_def)

lemma inc_cases: "i < sz \<Longrightarrow> ring_inc sz i = (if Suc i = sz then 0 else Suc i)"
  by (simp add: ring_inc_def)

lemma remain_less: "h < sz \<Longrightarrow> t < sz \<Longrightarrow> ring_remain sz h t < sz"
  by (auto simp: ring_remain_def)

lemma remain_0: "h < sz \<Longrightarrow> t < sz \<Longrightarrow> ring_remain sz h t = 0 \<longleftrightarrow> ring_empty h t"
  by (auto simp: ring_remain_def ring_empty_def)

lemma remain_full: "h < sz \<Longrightarrow> t < sz \<Longrightarrow> ring_remain sz h t = sz - 1 \<longleftrightarrow> ring_full sz h t"
  by (auto simp: ring_remain_def ring_full_def)

lemma remain_inc_tail:
  "h < sz \<Longrightarrow> t < sz \<Longrightarrow> \<not> ring_full sz h t \<Longrightarrow>
    ring_remain sz h (ring_inc sz t) = Suc (ring_remain sz h t)"
  using sz by (auto simp: ring_remain_def ring_full_def inc_cases)

lemma remain_inc_head:
  "h < sz \<Longrightarrow> t < sz \<Longrightarrow> \<not> ring_empty h t \<Longrightarrow>
    Suc (ring_remain sz (ring_inc sz h) t) = ring_remain sz h t"
  using sz by (auto simp: ring_remain_def ring_empty_def inc_cases)

lemma wrap: "h < sz \<Longrightarrow> i < sz \<Longrightarrow> (h + i) mod sz = (if h + i < sz then h + i else h + i - sz)"
  by (simp add: le_mod_geq)

lemma index_tail: "h < sz \<Longrightarrow> t < sz \<Longrightarrow> (h + ring_remain sz h t) mod sz = t"
  using remain_less [of h t] by (subst wrap) (auto simp: ring_remain_def)

lemma index_not_tail:
  assumes "h < sz" "t < sz" "i < ring_remain sz h t"
  shows "(h + i) mod sz \<noteq> t"
proof -
  have "i < sz" using assms remain_less [of h t] by linarith
  with assms show ?thesis
    by (subst wrap) (auto simp: ring_remain_def split: if_splits)
qed

lemma length_list: "length (ring_list sz buf h t) = ring_remain sz h t"
  by (simp add: ring_list_def)

lemma list_Nil: "ring_ok sz buf h t \<Longrightarrow> ring_list sz buf h t = [] \<longleftrightarrow> ring_empty h t"
  by (simp add: ring_list_def ring_ok_def remain_0)

lemma list_put:
  assumes "ring_ok sz buf h t" and "\<not> ring_full sz h t"
  shows "ring_ok sz (buf[t := c]) h (ring_inc sz t)"
    and "ring_list sz (buf[t := c]) h (ring_inc sz t) = ring_list sz buf h t @ [c]"
proof -
  have ht: "h < sz" "t < sz" "length buf = sz"
    using assms(1) by (auto simp: ring_ok_def)
  show "ring_ok sz (buf[t := c]) h (ring_inc sz t)"
    using ht inc_less by (simp add: ring_ok_def)
  have "map (\<lambda>i. buf[t := c] ! ((h + i) mod sz)) [0..<ring_remain sz h t] =
      map (\<lambda>i. buf ! ((h + i) mod sz)) [0..<ring_remain sz h t]"
    by (intro map_cong refl nth_list_update_neq not_sym [OF index_not_tail]) (use ht in auto)
  then show "ring_list sz (buf[t := c]) h (ring_inc sz t) = ring_list sz buf h t @ [c]"
    using ht index_tail [OF ht(1,2)] by (simp add: ring_list_def remain_inc_tail [OF ht(1,2) assms(2)])
qed

lemma list_get:
  assumes "ring_ok sz buf h t" and "\<not> ring_empty h t"
  shows "ring_ok sz buf (ring_inc sz h) t"
    and "ring_list sz buf h t = buf ! h # ring_list sz buf (ring_inc sz h) t"
proof -
  have ht: "h < sz" "t < sz"
    using assms(1) by (auto simp: ring_ok_def)
  show "ring_ok sz buf (ring_inc sz h) t"
    using assms(1) ht inc_less by (simp add: ring_ok_def)
  have shift: "(ring_inc sz h + i) mod sz = (h + Suc i) mod sz" for i
    by (simp add: ring_inc_def mod_add_left_eq)
  have "[0..<ring_remain sz h t] = 0 # map Suc [0..<ring_remain sz (ring_inc sz h) t]"
    using remain_inc_head [OF ht assms(2)] by (metis map_Suc_upt upt_conv_Cons zero_less_Suc)
  then show "ring_list sz buf h t = buf ! h # ring_list sz buf (ring_inc sz h) t"
    using ht shift by (simp add: ring_list_def comp_def)
qed

lemma list_drop_last:
  assumes "ring_ok sz buf h t" and "\<not> ring_empty h t"
  shows "ring_ok sz buf h (ring_dec_last sz t)"
    and "ring_list sz buf h (ring_dec_last sz t) = butlast (ring_list sz buf h t)"
proof -
  have ht: "h < sz" "t < sz"
    using assms(1) by (auto simp: ring_ok_def)
  have dec: "ring_dec_last sz t = (if t = 0 then sz - 1 else t - 1)"
    using ht by (simp add: ring_dec_last_def le_mod_geq)
  show "ring_ok sz buf h (ring_dec_last sz t)"
    using assms(1) ht by (auto simp: dec ring_ok_def)
  have "ring_remain sz h (ring_dec_last sz t) = ring_remain sz h t - 1"
    using ht assms(2) by (auto simp: dec ring_remain_def ring_empty_def)
  then show "ring_list sz buf h (ring_dec_last sz t) = butlast (ring_list sz buf h t)"
    by (simp add: ring_list_def butlast_conv_take take_map)
qed

lemma list_clear:
  assumes "ring_ok sz buf h t"
  shows "ring_list sz buf h h = []" and "ring_list sz buf t t = []"
  by (simp_all add: ring_list_def ring_remain_def)

end

end
