(* ===== verification/Pipe.thy ===== *)
theory Pipe
  imports Ring
begin

text \<open>
  Pipes (\<open>src/fs/pipe.c\<close>). An operation that has to wait releases the pipe lock and sleeps; what the
  other threads did to the pipe meanwhile, as a function on the pipe, and whether a signal is
  pending on return, is the next element of the list of resumptions it is given. When that list is exhausted the operation is
  still \<open>Blocked\<close>. The wake-ups of the threads on the other end do not change the pipe. The operations
  work on every extension of the record \<open>pipe\<close>: the properties extend it by logs of the characters
  that others took out and put in, which the operations themselves do not touch.
\<close>

definition PIPE_BUF :: nat where
  "PIPE_BUF = 2048"

record pipe =
  pipe_fifo :: "u8 list"
  head :: nat
  tail :: nat
  readers :: u32
  writers :: u32
  named_wait :: bool

definition EMPTY :: "'g pipe_scheme \<Rightarrow> bool" where
  "EMPTY pq \<longleftrightarrow> ring_empty (head pq) (tail pq)"

definition FULL :: "'g pipe_scheme \<Rightarrow> bool" where
  "FULL pq \<longleftrightarrow> ring_full PIPE_BUF (head pq) (tail pq)"

definition REMAIN :: "'g pipe_scheme \<Rightarrow> nat" where
  "REMAIN pq = ring_remain PIPE_BUF (head pq) (tail pq)"

definition INC :: "'g pipe_scheme \<Rightarrow> 'g pipe_scheme" where
  "INC pq = pq\<lparr>tail := ring_inc PIPE_BUF (tail pq)\<rparr>"

definition DEC :: "'g pipe_scheme \<Rightarrow> 'g pipe_scheme" where
  "DEC pq = pq\<lparr>head := ring_inc PIPE_BUF (head pq)\<rparr>"

text \<open>A pipe after \<open>memset\<close>, and \<open>sys_pipe\<close>'s with one reader and one writer.\<close>

definition zero_pipe :: pipe where
  "zero_pipe = \<lparr>pipe_fifo = replicate PIPE_BUF 0, head = 0, tail = 0, readers = 0, writers = 0, named_wait = False\<rparr>"

definition sys_pipe :: pipe where
  "sys_pipe = zero_pipe\<lparr>readers := 1, writers := 1\<rparr>"

text \<open>\<open>open_pipe\<close> on the pipe of an inode, if it has one; \<open>mem\<close> says whether \<open>kalloc\<close> succeeds.\<close>

definition open_pipe :: "bool \<Rightarrow> pipe option \<Rightarrow> bool \<Rightarrow> bool \<Rightarrow> unit sysret \<times> pipe option" where
  "open_pipe mem pipe rd wr =
     (if \<not> rd \<and> \<not> wr then (Inr (), pipe)
      else if pipe = None \<and> \<not> mem then (Inl ENOMEM, pipe)
      else let pq = (case pipe of None \<Rightarrow> zero_pipe\<lparr>named_wait := True\<rparr> | Some pq \<Rightarrow> pq)
           in if rd \<and> readers pq = 0xFFFFFFFF \<or> wr \<and> writers pq = 0xFFFFFFFF then (Inl EBUSY, Some pq)
              else let pq = (if rd then pq\<lparr>readers := readers pq + 1\<rparr> else pq);
                       pq = (if wr then pq\<lparr>writers := writers pq + 1\<rparr> else pq);
                       pq = (if readers pq > 0 \<and> writers pq > 0 then pq\<lparr>named_wait := False\<rparr> else pq)
                   in (Inr (), Some pq))"

subsection \<open>One character\<close>

type_synonym 'p resumption = "('p \<Rightarrow> 'p) \<times> bool"

datatype ('p, 'a) outcome = Blocked 'p | Done 'a 'p bool "'p resumption list"

type_synonym ('g, 'a) pipe_outcome = "('g pipe_scheme, 'a) outcome"

type_synonym 'g others = "'g pipe_scheme resumption list"

datatype put_result = PutOk | PutEintr | PutEpipe

fun named_loop :: "'g pipe_scheme \<Rightarrow> bool \<Rightarrow> 'g others \<Rightarrow> ('g, bool) pipe_outcome" where
  "named_loop pq sig env =
     (if named_wait pq
      then if sig then Done False pq sig env
           else case env of [] \<Rightarrow> Blocked pq | (others, sig') # env' \<Rightarrow> named_loop (others pq) sig' env'
      else Done True pq sig env)"

fun full_loop :: "'g pipe_scheme \<Rightarrow> bool \<Rightarrow> 'g others \<Rightarrow> ('g, put_result) pipe_outcome" where
  "full_loop pq sig env =
     (if FULL pq
      then case env of
             [] \<Rightarrow> Blocked pq
           | (others, sig') # env' \<Rightarrow>
               if readers (others pq) = 0 then Done PutEpipe (others pq) sig' env'
               else if sig' then Done PutEintr (others pq) sig' env'
               else full_loop (others pq) sig' env'
      else Done PutOk pq sig env)"

definition pipe_put_ch :: "u8 \<Rightarrow> 'g pipe_scheme \<Rightarrow> bool \<Rightarrow> 'g others \<Rightarrow> ('g, put_result) pipe_outcome" where
  "pipe_put_ch c pq sig env =
     (case named_loop pq sig env of
        Blocked pq \<Rightarrow> Blocked pq
      | Done False pq sig env \<Rightarrow> Done PutEintr pq sig env
      | Done True pq sig env \<Rightarrow>
          if readers pq = 0 then Done PutEpipe pq sig env
          else case full_loop pq sig env of
                 Done PutOk pq sig env \<Rightarrow> Done PutOk (INC (pq\<lparr>pipe_fifo := (pipe_fifo pq)[tail pq := c]\<rparr>)) sig env
               | r \<Rightarrow> r)"

datatype get_result = GetCh u8 | GetEintr | GetEmpty | GetEof

definition pipe_get_ch :: "'g pipe_scheme \<Rightarrow> bool \<Rightarrow> 'g others \<Rightarrow> ('g, get_result) pipe_outcome" where
  "pipe_get_ch pq sig env =
     (case named_loop pq sig env of
        Blocked pq \<Rightarrow> Blocked pq
      | Done False pq sig env \<Rightarrow> Done GetEintr pq sig env
      | Done True pq sig env \<Rightarrow>
          if EMPTY pq
          then if writers pq = 0 then Done GetEof pq sig env else Done GetEmpty pq sig env
          else Done (GetCh (pipe_fifo pq ! head pq)) (DEC pq) sig env)"

subsection \<open>Reading and writing\<close>

text \<open>\<open>i\<close> characters have been transferred; the result is the value the call returns.\<close>

fun write_loop :: "u8 list \<Rightarrow> nat \<Rightarrow> 'g pipe_scheme \<Rightarrow> bool \<Rightarrow> 'g others \<Rightarrow> ('g, nat sysret) pipe_outcome" where
  "write_loop [] i pq sig env = Done (Inr i) pq sig env"
| "write_loop (c # cs) i pq sig env =
     (case pipe_put_ch c pq sig env of
        Blocked pq \<Rightarrow> Blocked pq
      | Done PutEintr pq sig env \<Rightarrow> Done (if i = 0 then Inl EINTR else Inr i) pq sig env
      | Done PutEpipe pq sig env \<Rightarrow> Done (Inl EPIPE) pq sig env
      | Done PutOk pq sig env \<Rightarrow> write_loop cs (i + 1) pq sig env)"

definition pipe_write :: "u8 list \<Rightarrow> 'g pipe_scheme \<Rightarrow> bool \<Rightarrow> 'g others \<Rightarrow> ('g, nat sysret) pipe_outcome" where
  "pipe_write s pq sig env = (if s = [] then Done (Inr 0) pq sig env else write_loop s 0 pq sig env)"

text \<open>
  \<open>got\<close> are the characters read so far. An empty pipe makes the reader wait only before the first
  character; the resumption list shrinks then, and otherwise the count of characters to read.
\<close>

function read_loop :: "nat \<Rightarrow> u8 list \<Rightarrow> 'g pipe_scheme \<Rightarrow> bool \<Rightarrow> 'g others \<Rightarrow> ('g, errno + u8 list) pipe_outcome" where
  "read_loop n got pq sig env =
     (if length got < n
      then case pipe_get_ch pq sig env of
             Blocked pq \<Rightarrow> Blocked pq
           | Done GetEintr pq sig env \<Rightarrow> Done (if got = [] then Inl EINTR else Inr got) pq sig env
           | Done GetEmpty pq sig env \<Rightarrow>
               if got = []
               then case env of [] \<Rightarrow> Blocked pq
                    | (others, sig') # env' \<Rightarrow> read_loop n got (others pq) sig' env'
               else Done (Inr got) pq sig env
           | Done GetEof pq sig env \<Rightarrow> Done (Inr got) pq sig env
           | Done (GetCh c) pq sig env \<Rightarrow> read_loop n (got @ [c]) pq sig env
      else Done (Inr got) pq sig env)"
  by pat_completeness auto

declare named_loop.simps [simp del] full_loop.simps [simp del]

lemma named_loop_env: "named_loop pq sig env = Done b pq' sig' env' \<Longrightarrow> length env' \<le> length env"
proof (induction env arbitrary: pq sig)
  case Nil
  then show ?case by (subst (asm) named_loop.simps) (auto split: if_splits)
next
  case (Cons r env)
  from Cons.prems show ?case
    by (subst (asm) named_loop.simps) (auto split: if_splits prod.splits dest: Cons.IH)
qed

lemma pipe_get_ch_env: "pipe_get_ch pq sig env = Done r pq' sig' env' \<Longrightarrow> length env' \<le> length env"
  by (auto simp: pipe_get_ch_def split: outcome.splits bool.splits if_splits dest: named_loop_env)

termination read_loop
  by (relation "measures [\<lambda>(n, got, pq, sig, env). length env, \<lambda>(n, got, pq, sig, env). n - length got]")
    (auto dest!: pipe_get_ch_env simp: le_eq_less_or_eq)

definition SSIZE_MAX :: nat where
  "SSIZE_MAX = 2 ^ 31 - 1"

definition pipe_read :: "nat \<Rightarrow> 'g pipe_scheme \<Rightarrow> bool \<Rightarrow> 'g others \<Rightarrow> ('g, errno + u8 list) pipe_outcome" where
  "pipe_read n pq sig env =
     (if n = 0 then Done (Inr []) pq sig env
      else read_loop (if n > SSIZE_MAX then SSIZE_MAX else n) [] pq sig env)"

declare read_loop.simps [simp del]

subsection \<open>The pipe as a list of characters\<close>

interpretation pr: ring PIPE_BUF
  by unfold_locales (simp add: PIPE_BUF_def)

definition contents :: "'g pipe_scheme \<Rightarrow> u8 list" where
  "contents pq = ring_list PIPE_BUF (pipe_fifo pq) (head pq) (tail pq)"

definition pipe_ok :: "'g pipe_scheme \<Rightarrow> bool" where
  "pipe_ok pq \<longleftrightarrow> ring_ok PIPE_BUF (pipe_fifo pq) (head pq) (tail pq)"

lemma length_contents: "length (contents pq) = REMAIN pq"
  by (simp add: contents_def REMAIN_def pr.length_list)

lemma EMPTY_contents: "pipe_ok pq \<Longrightarrow> EMPTY pq \<longleftrightarrow> contents pq = []"
  by (simp add: pipe_ok_def EMPTY_def contents_def pr.list_Nil)

lemma FULL_contents: "pipe_ok pq \<Longrightarrow> FULL pq \<longleftrightarrow> length (contents pq) = PIPE_BUF - 1"
  using pr.remain_full [of "head pq" "tail pq"]
  by (simp add: pipe_ok_def ring_ok_def FULL_def contents_def pr.length_list)

lemma contents_bound: "pipe_ok pq \<Longrightarrow> length (contents pq) < PIPE_BUF"
  by (simp add: pipe_ok_def ring_ok_def contents_def pr.length_list pr.remain_less)

lemma put_contents:
  assumes "pipe_ok pq" and "\<not> FULL pq"
  shows "pipe_ok (INC (pq\<lparr>pipe_fifo := (pipe_fifo pq)[tail pq := c]\<rparr>))"
    and "contents (INC (pq\<lparr>pipe_fifo := (pipe_fifo pq)[tail pq := c]\<rparr>)) = contents pq @ [c]"
  using assms pr.list_put [of "pipe_fifo pq" "head pq" "tail pq"]
  by (simp_all add: pipe_ok_def contents_def FULL_def INC_def)

lemma get_contents:
  assumes "pipe_ok pq" and "\<not> EMPTY pq"
  shows "pipe_ok (DEC pq)" and "contents pq = pipe_fifo pq ! head pq # contents (DEC pq)"
  using assms pr.list_get [of "pipe_fifo pq" "head pq" "tail pq"]
  by (simp_all add: pipe_ok_def contents_def EMPTY_def DEC_def)

text \<open>
  What others may do to the pipe while a writer and while a reader sleeps. A pipe is extended by the
  log of the characters readers took out and the log of those writers put in: readers take
  characters off the front and log them, writers append characters and log them.
\<close>

record pipe_log = pipe +
  taken :: "u8 list"
  given :: "u8 list"

definition drains :: "pipe_log resumption list \<Rightarrow> bool" where
  "drains env \<longleftrightarrow> (\<forall>(f, sig) \<in> set env. \<forall>pq. pipe_ok pq \<longrightarrow>
     pipe_ok (f pq) \<and>
     (\<exists>k. contents (f pq) = drop k (contents pq) \<and> taken (f pq) = taken pq @ take k (contents pq)))"

definition fills :: "pipe_log resumption list \<Rightarrow> bool" where
  "fills env \<longleftrightarrow> (\<forall>(f, sig) \<in> set env. \<forall>pq. pipe_ok pq \<longrightarrow>
     pipe_ok (f pq) \<and> (\<exists>x. contents (f pq) = contents pq @ x \<and> given (f pq) = given pq @ x))"

text \<open>\<open>drained pq s pq'\<close>: between \<open>pq\<close> and \<open>pq'\<close> the characters \<open>s\<close> were put in, and all that left the
  pipe is in the log of the readers.\<close>

definition drained :: "pipe_log \<Rightarrow> u8 list \<Rightarrow> pipe_log \<Rightarrow> bool" where
  "drained pq s pq' \<longleftrightarrow> pipe_ok pq' \<and> taken pq @ contents pq @ s = taken pq' @ contents pq'"

lemma drained_refl: "pipe_ok pq \<Longrightarrow> drained pq [] pq"
  by (simp add: drained_def)

lemma drained_trans: "drained pq s pq' \<Longrightarrow> drained pq' s' pq'' \<Longrightarrow> drained pq (s @ s') pq''"
  unfolding drained_def by (metis append.assoc)

lemma drained_ok: "drained pq s pq' \<Longrightarrow> pipe_ok pq'"
  by (simp add: drained_def)

lemma drains_step:
  assumes "drains ((f, sig) # env)" and "pipe_ok pq"
  shows "drained pq [] (f pq)" and "drains env"
proof -
  obtain k where "pipe_ok (f pq)" "contents (f pq) = drop k (contents pq)"
      "taken (f pq) = taken pq @ take k (contents pq)"
    using assms by (auto simp: drains_def)
  then show "drained pq [] (f pq)" by (simp add: drained_def)
  show "drains env" using assms(1) by (simp add: drains_def)
qed

lemma named_loop_drained:
  assumes "drains env" and "pipe_ok pq"
  shows "case named_loop pq sig env of
      Blocked pq' \<Rightarrow> drained pq [] pq' \<and> named_wait pq'
    | Done b pq' sig' env' \<Rightarrow> drained pq [] pq' \<and> drains env' \<and> (\<not> b \<longrightarrow> sig')"
  using assms
proof (induction env arbitrary: pq sig)
  case Nil
  then show ?case by (simp add: named_loop.simps drained_refl)
next
  case (Cons r env)
  obtain f sg where r: "r = (f, sg)" by force
  note step = drains_step [OF Cons.prems(1) [unfolded r] Cons.prems(2)]
  show ?case
    using Cons.IH [OF step(2) drained_ok [OF step(1)], of sg] drained_trans [OF step(1), of "[]"] Cons.prems r
    by (auto simp: named_loop.simps [of pq] drained_refl split: outcome.splits)
qed

lemma full_loop_drained:
  assumes "drains env" and "pipe_ok pq"
  shows "case full_loop pq sig env of
      Blocked pq' \<Rightarrow> drained pq [] pq' \<and> FULL pq'
    | Done b pq' sig' env' \<Rightarrow> drained pq [] pq' \<and> drains env' \<and> (b = PutOk \<longrightarrow> \<not> FULL pq') \<and>
        (b = PutEpipe \<longrightarrow> readers pq' = 0) \<and> (b = PutEintr \<longrightarrow> sig')"
  using assms
proof (induction env arbitrary: pq sig)
  case Nil
  then show ?case by (simp add: full_loop.simps drained_refl)
next
  case (Cons r env)
  obtain f sg where r: "r = (f, sg)" by force
  note step = drains_step [OF Cons.prems(1) [unfolded r] Cons.prems(2)]
  show ?case
    using Cons.IH [OF step(2) drained_ok [OF step(1)], of sg] drained_trans [OF step(1), of "[]"] step Cons.prems r
    by (auto simp: full_loop.simps [of pq] drained_refl split: outcome.splits)
qed

lemma put_ch_drained:
  assumes "drains env" and "pipe_ok pq"
  shows "case pipe_put_ch c pq sig env of
      Blocked pq' \<Rightarrow> drained pq [] pq' \<and> (FULL pq' \<or> named_wait pq')
    | Done b pq' sig' env' \<Rightarrow> drained pq (if b = PutOk then [c] else []) pq' \<and> drains env' \<and>
        (b = PutEpipe \<longrightarrow> readers pq' = 0) \<and> (b = PutEintr \<longrightarrow> sig')"
proof (cases "named_loop pq sig env")
  case (Blocked pq1)
  then show ?thesis
    using named_loop_drained [OF assms, of sig] by (simp add: pipe_put_ch_def)
next
  case n: (Done ok pq1 sig1 env1)
  have d1: "drained pq [] pq1" "drains env1" "\<not> ok \<longrightarrow> sig1"
    using named_loop_drained [OF assms, of sig] n by simp_all
  note ok1 = drained_ok [OF d1(1)]
  have f: "case full_loop pq1 sig1 env1 of
      Blocked pq' \<Rightarrow> drained pq [] pq' \<and> FULL pq'
    | Done b pq' sig' env' \<Rightarrow> drained pq [] pq' \<and> drains env' \<and> (b = PutOk \<longrightarrow> \<not> FULL pq') \<and>
        (b = PutEpipe \<longrightarrow> readers pq' = 0) \<and> (b = PutEintr \<longrightarrow> sig')"
    using full_loop_drained [OF d1(2) ok1, of sig1] drained_trans [OF d1(1), of "[]"]
    by (auto split: outcome.splits)
  have put: "drained pq [c] (INC (pq2\<lparr>pipe_fifo := (pipe_fifo pq2)[tail pq2 := c]\<rparr>))"
    if "drained pq [] pq2" "\<not> FULL pq2" for pq2
  proof -
    have "drained pq2 [c] (INC (pq2\<lparr>pipe_fifo := (pipe_fifo pq2)[tail pq2 := c]\<rparr>))"
      using put_contents [OF drained_ok [OF that(1)] that(2)] by (simp add: drained_def INC_def)
    from drained_trans [OF that(1) this] show ?thesis by simp
  qed
  show ?thesis
    using n d1 f put by (auto simp: pipe_put_ch_def split: outcome.splits put_result.splits bool.splits)
qed

lemma write_loop_drained:
  assumes "drains env" and "pipe_ok pq"
  shows "case write_loop s i pq sig env of
      Blocked pq' \<Rightarrow> \<exists>k < length s. drained pq (take k s) pq' \<and> (FULL pq' \<or> named_wait pq')
    | Done r pq' sig' env' \<Rightarrow> \<exists>k \<le> length s. drained pq (take k s) pq' \<and>
        (r = Inr (i + k) \<and> (k = length s \<or> sig') \<or> r = Inl EINTR \<and> i = 0 \<and> k = 0 \<and> sig' \<or>
         r = Inl EPIPE \<and> readers pq' = 0)"
  using assms
proof (induction s arbitrary: i pq sig env)
  case Nil
  then show ?case by (simp add: drained_refl)
next
  case (Cons c s)
  note p = put_ch_drained [OF Cons.prems, of c sig]
  show ?case
  proof (cases "pipe_put_ch c pq sig env")
    case (Blocked pq1)
    with p show ?thesis by (intro iffD2 [OF outcome.split]) (auto intro!: exI [of _ 0])
  next
    case put: (Done b pq1 sig1 env1)
    show ?thesis
    proof (cases "b = PutOk")
      case True
      then have d: "drained pq [c] pq1" "drains env1" using p put by simp_all
      note ih = Cons.IH [OF d(2) drained_ok [OF d(1)], of "i + 1" sig1]
      show ?thesis
      proof (cases "write_loop s (i + 1) pq1 sig1 env1")
        case (Blocked pq2)
        then obtain k where "k < length s" "drained pq1 (take k s) pq2" "FULL pq2 \<or> named_wait pq2"
          using ih by auto
        with Blocked put True drained_trans [OF d(1), of "take k s"] show ?thesis
          by (simp) (intro exI [of _ "Suc k"], simp)
      next
        case w: (Done r pq2 sig2 env2)
        then obtain k where "k \<le> length s" "drained pq1 (take k s) pq2"
            "r = Inr (i + 1 + k) \<and> (k = length s \<or> sig2) \<or> r = Inl EPIPE \<and> readers pq2 = 0"
          using ih by auto
        with w put True drained_trans [OF d(1), of "take k s"] show ?thesis
          by (simp) (intro exI [of _ "Suc k"], auto)
      qed
    next
      case False
      with p put have "drained pq [] pq1" "b = PutEpipe \<longrightarrow> readers pq1 = 0" "b = PutEintr \<longrightarrow> sig1" by simp_all
      with put False show ?thesis
        by (cases b) (auto intro!: exI [of _ 0])
    qed
  qed
qed

text \<open>C2: a write to a pipe transfers a prefix of its data in order and without loss or duplication,
  whatever the readers do while it sleeps: the characters that readers have logged, followed by what
  is in the pipe, are afterwards what they were before followed by the prefix written. The count
  returned is the length of that prefix, and it is short only if a signal is pending; \<open>EINTR\<close> is
  returned only if nothing was written, and \<open>EPIPE\<close> only if there is no reader. A write that is still
  blocked has a full pipe or one that is waiting to be opened at the other end.\<close>

theorem pipe_write_fifo:
  fixes pq :: pipe_log
  assumes "pipe_ok pq" and "drains env"
  shows "case pipe_write s pq sig env of
      Blocked pq' \<Rightarrow> \<exists>k < length s. pipe_ok pq' \<and> taken pq' @ contents pq' = taken pq @ contents pq @ take k s \<and>
        (length (contents pq') = PIPE_BUF - 1 \<or> named_wait pq')
    | Done r pq' sig' env' \<Rightarrow> \<exists>k \<le> length s. pipe_ok pq' \<and> taken pq' @ contents pq' = taken pq @ contents pq @ take k s \<and>
        (r = Inr k \<and> (k = length s \<or> sig') \<or> r = Inl EINTR \<and> k = 0 \<and> sig' \<or> r = Inl EPIPE \<and> readers pq' = 0)"
proof (cases "s = []")
  case True
  with assms show ?thesis by (simp add: pipe_write_def)
next
  case False
  have "drained pq x pq' \<longleftrightarrow> pipe_ok pq' \<and> taken pq' @ contents pq' = taken pq @ contents pq @ x" for x pq'
    by (auto simp: drained_def)
  with False write_loop_drained [OF assms(2,1), of s 0 sig] show ?thesis
    by (auto simp: pipe_write_def FULL_contents split: outcome.splits)
qed

subsection \<open>Reading\<close>

text \<open>\<open>filled pq got pq'\<close>: between \<open>pq\<close> and \<open>pq'\<close> the characters \<open>got\<close> were taken out, and all that was
  put in is in the log of the writers.\<close>

definition filled :: "pipe_log \<Rightarrow> u8 list \<Rightarrow> pipe_log \<Rightarrow> bool" where
  "filled pq got pq' \<longleftrightarrow>
     pipe_ok pq' \<and> (\<exists>w. given pq' = given pq @ w \<and> contents pq @ w = got @ contents pq')"

lemma filled_refl: "pipe_ok pq \<Longrightarrow> filled pq [] pq"
  by (simp add: filled_def)

lemma filled_trans:
  assumes "filled pq s pq'" and "filled pq' s' pq''"
  shows "filled pq (s @ s') pq''"
proof -
  obtain w w' where "given pq' = given pq @ w" "contents pq @ w = s @ contents pq'"
      "given pq'' = given pq' @ w'" "contents pq' @ w' = s' @ contents pq''" "pipe_ok pq''"
    using assms by (auto simp: filled_def)
  then have "given pq'' = given pq @ (w @ w')" "contents pq @ (w @ w') = (s @ s') @ contents pq''"
    by simp_all (metis append.assoc)
  with \<open>pipe_ok pq''\<close> show ?thesis unfolding filled_def by blast
qed

lemma filled_ok: "filled pq s pq' \<Longrightarrow> pipe_ok pq'"
  by (simp add: filled_def)

lemma fills_step:
  assumes "fills ((f, sig) # env)" and "pipe_ok pq"
  shows "filled pq [] (f pq)" and "fills env"
  using assms by (fastforce simp: fills_def filled_def)+

lemma named_loop_filled:
  assumes "fills env" and "pipe_ok pq"
  shows "case named_loop pq sig env of
      Blocked pq' \<Rightarrow> filled pq [] pq' \<and> named_wait pq'
    | Done b pq' sig' env' \<Rightarrow> filled pq [] pq' \<and> fills env' \<and> (if b then \<not> named_wait pq' else named_wait pq' \<and> sig')"
  using assms
proof (induction env arbitrary: pq sig)
  case Nil
  then show ?case by (simp add: named_loop.simps filled_refl)
next
  case (Cons r env)
  obtain f sg where r: "r = (f, sg)" by force
  note step = fills_step [OF Cons.prems(1) [unfolded r] Cons.prems(2)]
  show ?case
    using Cons.IH [OF step(2) filled_ok [OF step(1)], of sg] filled_trans [OF step(1), of "[]"] Cons.prems r
    by (auto simp: named_loop.simps [of pq] filled_refl split: outcome.splits)
qed

lemma get_ch_filled:
  assumes "fills env" and "pipe_ok pq"
  shows "case pipe_get_ch pq sig env of
      Blocked pq' \<Rightarrow> filled pq [] pq' \<and> named_wait pq'
    | Done b pq' sig' env' \<Rightarrow> fills env' \<and> filled pq (case b of GetCh c \<Rightarrow> [c] | _ \<Rightarrow> []) pq' \<and>
        (if b = GetEintr then named_wait pq' \<and> sig' else \<not> named_wait pq') \<and>
        (b = GetEmpty \<or> b = GetEof \<longrightarrow> contents pq' = [] \<and> (b = GetEof \<longleftrightarrow> writers pq' = 0))"
proof (cases "named_loop pq sig env")
  case (Blocked pq1)
  then show ?thesis
    using named_loop_filled [OF assms, of sig] by (simp add: pipe_get_ch_def)
next
  case n: (Done ok pq1 sig1 env1)
  have d: "filled pq [] pq1" "fills env1" "if ok then \<not> named_wait pq1 else named_wait pq1 \<and> sig1"
    using named_loop_filled [OF assms, of sig] n by simp_all
  note ok1 = filled_ok [OF d(1)]
  have get: "filled pq [pipe_fifo pq1 ! head pq1] (DEC pq1)" if "\<not> EMPTY pq1"
  proof -
    have "filled pq1 [pipe_fifo pq1 ! head pq1] (DEC pq1)"
      using get_contents [OF ok1 that] by (simp add: filled_def DEC_def)
    from filled_trans [OF d(1) this] show ?thesis by simp
  qed
  show ?thesis
    using n d get EMPTY_contents [OF ok1] by (auto simp: pipe_get_ch_def DEC_def split: bool.splits)
qed

lemma get_ch_open:
  "\<not> named_wait pq \<Longrightarrow> \<exists>b pq'. pipe_get_ch pq sig env = Done b pq' sig env \<and> b \<noteq> GetEintr"
  by (simp add: pipe_get_ch_def named_loop.simps)

lemma read_loop_filled:
  assumes "fills env" and "pipe_ok pq" and "length got \<le> n" and "got \<noteq> [] \<longrightarrow> \<not> named_wait pq"
  shows "case read_loop n got pq sig env of
      Blocked pq' \<Rightarrow> got = [] \<and> filled pq [] pq' \<and> (contents pq' = [] \<or> named_wait pq')
    | Done r pq' sig' env' \<Rightarrow> \<exists>more. filled pq more pq' \<and> length (got @ more) \<le> n \<and>
        (r = Inr (got @ more) \<and> (length (got @ more) = n \<or> contents pq' = [] \<and> (got @ more \<noteq> [] \<or> writers pq' = 0)) \<or>
         r = Inl EINTR \<and> got = [] \<and> more = [] \<and> sig')"
  using assms
proof (induction n got pq sig env rule: read_loop.induct)
  case (1 n got pq sig env)
  note body = read_loop.simps [of n got pq sig env]
  show ?case
  proof (cases "length got < n")
    case False
    with "1.prems" show ?thesis
      by (auto simp: body filled_refl intro!: exI [of _ "[]"])
  next
    case True
    note g = get_ch_filled [OF "1.prems"(1,2), of sig]
    have gopen: "got \<noteq> [] \<longrightarrow> (\<exists>b pq'. pipe_get_ch pq sig env = Done b pq' sig env \<and> b \<noteq> GetEintr)"
      using get_ch_open "1.prems"(4) by blast
    show ?thesis
    proof (cases "pipe_get_ch pq sig env")
      case (Blocked pq1)
      then have "read_loop n got pq sig env = Blocked pq1" using True by (simp add: body)
      with Blocked g gopen show ?thesis by auto
    next
      case get: (Done b pq1 sig1 env1)
      have d: "fills env1" "filled pq (case b of GetCh c \<Rightarrow> [c] | _ \<Rightarrow> []) pq1"
          "if b = GetEintr then named_wait pq1 \<and> sig1 else \<not> named_wait pq1"
          "b = GetEmpty \<or> b = GetEof \<longrightarrow> contents pq1 = [] \<and> (b = GetEof \<longleftrightarrow> writers pq1 = 0)"
        using g get by simp_all
      note ok1 = filled_ok [OF d(2)]
      show ?thesis
      proof (cases b)
        case (GetCh c)
        note ih = "1.IH"(1) [OF True get GetCh d(1) ok1]
        have dc: "filled pq [c] pq1" using d(2) GetCh by simp
        show ?thesis
        proof (cases "read_loop n (got @ [c]) pq1 sig1 env1")
          case (Blocked pq2)
          then show ?thesis using ih d(3) GetCh True by auto
        next
          case r: (Done r pq2 sig2 env2)
          then obtain more where "filled pq1 more pq2" "length (got @ c # more) \<le> n" "r = Inr (got @ c # more)"
              "length (got @ c # more) = n \<or> contents pq2 = []"
            using ih d(3) GetCh True by auto
          with filled_trans [OF dc, of more] r get GetCh True show ?thesis
            by (auto simp: body intro!: exI [of _ "c # more"])
        qed
      next
        case GetEintr
        then have "got = []" using get gopen by auto
        moreover have "read_loop n got pq sig env = Done (if got = [] then Inl EINTR else Inr got) pq1 sig1 env1"
          using get GetEintr True by (simp add: body)
        ultimately show ?thesis using d GetEintr by simp
      next
        case GetEof
        then have "read_loop n got pq sig env = Done (Inr got) pq1 sig1 env1"
          using get True by (simp add: body)
        with d True GetEof show ?thesis by (auto intro!: exI [of _ "[]"])
      next
        case GetEmpty
        show ?thesis
        proof (cases "got = [] \<and> env1 \<noteq> []")
          case False
          then have "read_loop n got pq sig env = (if got = [] then Blocked pq1 else Done (Inr got) pq1 sig1 env1)"
            using get GetEmpty True by (auto simp: body)
          with d True GetEmpty show ?thesis by (auto intro!: exI [of _ "[]"])
        next
          case first: True
          then obtain f sg env2 where e: "env1 = (f, sg) # env2" by (metis neq_Nil_conv surj_pair)
          note step = fills_step [OF d(1) [unfolded e] ok1]
          have f: "filled pq [] (f pq1)"
            using filled_trans [OF _ step(1), of pq "[]"] d(2) GetEmpty by simp
          have ih: "case read_loop n got (f pq1) sg env2 of
              Blocked pq' \<Rightarrow> got = [] \<and> filled (f pq1) [] pq' \<and> (contents pq' = [] \<or> named_wait pq')
            | Done r pq' sig' env' \<Rightarrow> \<exists>more. filled (f pq1) more pq' \<and> length (got @ more) \<le> n \<and>
                (r = Inr (got @ more) \<and> (length (got @ more) = n \<or> contents pq' = [] \<and> (got @ more \<noteq> [] \<or> writers pq' = 0)) \<or>
                 r = Inl EINTR \<and> got = [] \<and> more = [] \<and> sig')"
            by (rule "1.IH"(2) [OF True get GetEmpty _ e refl step(2) filled_ok [OF f]]) (use first True in auto)
          have eq: "read_loop n got pq sig env = read_loop n got (f pq1) sg env2"
            unfolding body using get GetEmpty first e True by simp
          show ?thesis
            using ih filled_trans [OF f] unfolding eq by (auto split: outcome.splits)
        qed
      qed
    qed
  qed
qed

text \<open>C8: a read returns the oldest characters in order and without loss or duplication, whatever the
  writers do while it sleeps: what it returns, followed by what is left in the pipe, is what was in
  the pipe at the start followed by exactly what the writers logged meanwhile. It returns at most \<open>n\<close>
  characters, fewer than asked for only when it has emptied the pipe, none only when no writer is
  left, and \<open>EINTR\<close> only if it took none and a signal is pending. A read that is still blocked has
  taken nothing.\<close>

theorem pipe_read_fifo:
  fixes pq :: pipe_log
  assumes "pipe_ok pq" and "fills env"
  shows "case pipe_read n pq sig env of
      Blocked pq' \<Rightarrow> pipe_ok pq' \<and> (\<exists>w. given pq' = given pq @ w \<and> contents pq @ w = contents pq') \<and>
        (contents pq' = [] \<or> named_wait pq')
    | Done r pq' sig' env' \<Rightarrow> \<exists>got w. given pq' = given pq @ w \<and> contents pq @ w = got @ contents pq' \<and>
        pipe_ok pq' \<and> length got \<le> n \<and>
        (r = Inr got \<and> (length got = min n SSIZE_MAX \<or> contents pq' = [] \<and> (got \<noteq> [] \<or> writers pq' = 0)) \<or>
         r = Inl EINTR \<and> got = [] \<and> sig')"
proof (cases "n = 0")
  case True
  with assms show ?thesis by (simp add: pipe_read_def)
next
  case False
  have "(if n > SSIZE_MAX then SSIZE_MAX else n) = min n SSIZE_MAX" by simp
  with False have eq: "pipe_read n pq sig env = read_loop (min n SSIZE_MAX) [] pq sig env"
    by (simp add: pipe_read_def)
  have r: "case read_loop (min n SSIZE_MAX) [] pq sig env of
      Blocked pq' \<Rightarrow> filled pq [] pq' \<and> (contents pq' = [] \<or> named_wait pq')
    | Done r pq' sig' env' \<Rightarrow> \<exists>got. filled pq got pq' \<and> length got \<le> min n SSIZE_MAX \<and>
        (r = Inr got \<and> (length got = min n SSIZE_MAX \<or> contents pq' = [] \<and> (got \<noteq> [] \<or> writers pq' = 0)) \<or>
         r = Inl EINTR \<and> got = [] \<and> sig')"
    using read_loop_filled [OF assms(2,1), of "[]" "min n SSIZE_MAX" sig] by (simp cong: outcome.case_cong)
  show ?thesis
  proof (cases "read_loop (min n SSIZE_MAX) [] pq sig env")
    case (Blocked pq')
    with r show ?thesis by (simp add: eq filled_def)
  next
    case (Done a pq' sig' env')
    then obtain got where "filled pq got pq'" "length got \<le> n"
        "a = Inr got \<and> (length got = min n SSIZE_MAX \<or> contents pq' = [] \<and> (got \<noteq> [] \<or> writers pq' = 0)) \<or>
         a = Inl EINTR \<and> got = [] \<and> sig'"
      using r by auto
    then show ?thesis unfolding eq Done outcome.case filled_def by blast
  qed
qed

subsection \<open>Without waiting\<close>

lemma write_loop_room:
  assumes "pipe_ok pq" and "\<not> named_wait pq" and "readers pq \<noteq> 0"
    and "length (contents pq) + length s < PIPE_BUF"
  shows "\<exists>pq'. write_loop s i pq sig env = Done (Inr (i + length s)) pq' sig env \<and>
    pipe_ok pq' \<and> contents pq' = contents pq @ s \<and> \<not> named_wait pq' \<and> writers pq' = writers pq"
  using assms
proof (induction s arbitrary: i pq)
  case (Cons c s)
  let ?pq = "INC (pq\<lparr>pipe_fifo := (pipe_fifo pq)[tail pq := c]\<rparr>)"
  have nf: "\<not> FULL pq"
    using FULL_contents [OF Cons.prems(1)] Cons.prems(4) by simp
  have put: "pipe_put_ch c pq sig env = Done PutOk ?pq sig env"
    using Cons.prems(2,3) nf by (simp add: pipe_put_ch_def named_loop.simps full_loop.simps)
  have "\<exists>pq'. write_loop s (Suc i) ?pq sig env = Done (Inr (Suc i + length s)) pq' sig env \<and>
      pipe_ok pq' \<and> contents pq' = contents ?pq @ s \<and> \<not> named_wait pq' \<and> writers pq' = writers ?pq"
    by (rule Cons.IH) (use Cons.prems put_contents [OF Cons.prems(1) nf] in \<open>auto simp: INC_def\<close>)
  with put put_contents(2) [OF Cons.prems(1) nf, of c] show ?case
    by (auto simp: INC_def)
qed auto

lemma read_loop_available:
  assumes "pipe_ok pq" and "\<not> named_wait pq" and "length got + length (contents pq) \<ge> n" and "length got \<le> n"
  shows "\<exists>pq'. read_loop n got pq sig env = Done (Inr (got @ take (n - length got) (contents pq))) pq' sig env"
  using assms
proof (induction "n - length got" arbitrary: got pq)
  case 0
  then show ?case by (simp add: read_loop.simps)
next
  case (Suc k)
  then have more: "length got < n" by simp
  then have "contents pq \<noteq> []" using Suc.prems(3) by auto
  then have ne: "\<not> EMPTY pq" using EMPTY_contents [OF Suc.prems(1)] by simp
  note g = get_contents [OF Suc.prems(1) ne]
  have get: "pipe_get_ch pq sig env = Done (GetCh (pipe_fifo pq ! head pq)) (DEC pq) sig env"
    using Suc.prems(2) ne by (simp add: pipe_get_ch_def named_loop.simps)
  have "\<exists>pq'. read_loop n (got @ [pipe_fifo pq ! head pq]) (DEC pq) sig env =
      Done (Inr ((got @ [pipe_fifo pq ! head pq]) @
        take (n - length (got @ [pipe_fifo pq ! head pq])) (contents (DEC pq)))) pq' sig env"
    by (rule Suc.hyps(1)) (use Suc.hyps(2) Suc.prems g more in \<open>auto simp: DEC_def\<close>)
  then show ?case
    using get more g(2) Suc.hyps(2) by (auto simp: read_loop.simps [of n got pq] take_Cons' Suc_diff_le)
qed

lemma sys_pipe_ok:
  "pipe_ok sys_pipe" "contents sys_pipe = []" "\<not> named_wait sys_pipe" "readers sys_pipe \<noteq> 0"
  "writers sys_pipe \<noteq> 0" "EMPTY sys_pipe"
  by (simp_all add: sys_pipe_def zero_pipe_def pipe_ok_def ring_ok_def PIPE_BUF_def contents_def
    ring_list_def ring_remain_def EMPTY_def ring_empty_def)

text \<open>The logs describe other users of the pipe: \<open>reader n\<close> and \<open>writer s\<close> are complete calls of
  \<open>pipe_read\<close> and \<open>pipe_write\<close> by another thread, with what they transferred added to the log.\<close>

definition reader :: "nat \<Rightarrow> pipe_log \<Rightarrow> pipe_log" where
  "reader n pq =
     (case pipe_read n pq False [] of
        Done (Inr got) pq' _ _ \<Rightarrow> pq'\<lparr>taken := taken pq' @ got\<rparr>
      | _ \<Rightarrow> pq)"

definition writer :: "u8 list \<Rightarrow> pipe_log \<Rightarrow> pipe_log" where
  "writer s pq =
     (case pipe_write s pq False [] of
        Done (Inr k) pq' _ _ \<Rightarrow> pq'\<lparr>given := given pq' @ take k s\<rparr>
      | _ \<Rightarrow> pq)"

lemma log_sel [simp]:
  "contents (pq\<lparr>taken := x\<rparr>) = contents pq" "contents (pq\<lparr>given := x\<rparr>) = contents pq"
  "pipe_ok (pq\<lparr>taken := x\<rparr>) = pipe_ok pq" "pipe_ok (pq\<lparr>given := x\<rparr>) = pipe_ok pq"
  by (simp_all add: contents_def pipe_ok_def)

lemma more_log: "pipe.more pq' = pipe.more pq \<Longrightarrow> taken pq' = taken pq \<and> given pq' = given pq"
  by (cases pq; cases pq') simp

lemma get_ch_alone: "pipe_get_ch pq sig [] = Done b pq' sig' env' \<Longrightarrow> pipe.more pq' = pipe.more pq \<and> env' = []"
  by (auto simp: pipe_get_ch_def named_loop.simps DEC_def split: if_splits)

lemma put_ch_alone: "pipe_put_ch c pq sig [] = Done b pq' sig' env' \<Longrightarrow> pipe.more pq' = pipe.more pq \<and> env' = []"
  by (auto simp: pipe_put_ch_def named_loop.simps full_loop.simps INC_def split: if_splits)

lemma read_loop_alone: "read_loop n got pq sig [] = Done r pq' sig' env' \<Longrightarrow> pipe.more pq' = pipe.more pq"
proof (induction "n - length got" arbitrary: got pq sig)
  case 0
  then show ?case by (simp add: read_loop.simps)
next
  case (Suc k)
  then have n: "length got < n" by simp
  note body = Suc.prems [unfolded read_loop.simps [of n got pq sig "[]"]]
  obtain b pq1 sig1 env1 where g: "pipe_get_ch pq sig [] = Done b pq1 sig1 env1"
  proof (cases "pipe_get_ch pq sig []")
    case (Blocked x)
    with body n show ?thesis by simp
  qed
  from get_ch_alone [OF this] have m: "pipe.more pq1 = pipe.more pq" "env1 = []" by simp_all
  show ?case
  proof (cases b)
    case (GetCh c)
    then have "read_loop n (got @ [c]) pq1 sig1 [] = Done r pq' sig' env'"
      using body n g m(2) by simp
    from Suc.hyps(1) [OF _ this] Suc.hyps(2) m(1) show ?thesis by simp
  qed (use body n g m in \<open>auto split: if_splits\<close>)
qed

lemma write_loop_alone: "write_loop s i pq sig [] = Done r pq' sig' env' \<Longrightarrow> pipe.more pq' = pipe.more pq"
proof (induction s arbitrary: i pq sig)
  case (Cons c s)
  obtain b pq1 sig1 env1 where p: "pipe_put_ch c pq sig [] = Done b pq1 sig1 env1"
  proof (cases "pipe_put_ch c pq sig []")
    case (Blocked x)
    with Cons.prems show ?thesis by simp
  qed
  from put_ch_alone [OF this] have m: "pipe.more pq1 = pipe.more pq" "env1 = []" by simp_all
  show ?case
  proof (cases b)
    case PutOk
    then have "write_loop s (i + 1) pq1 sig1 [] = Done r pq' sig' env'"
      using Cons.prems p m(2) by simp
    from Cons.IH [OF this] m(1) show ?thesis by simp
  qed (use Cons.prems p m in simp_all)
qed simp

lemma reader_drains: "drains [(reader n, sig)]"
proof -
  have "pipe_ok (reader n pq) \<and>
      (\<exists>k. contents (reader n pq) = drop k (contents pq) \<and> taken (reader n pq) = taken pq @ take k (contents pq))"
    if ok: "pipe_ok pq" for pq
  proof (cases "n = 0")
    case True
    with ok show ?thesis by (simp add: reader_def pipe_read_def exI [of _ 0])
  next
    case False
    define m where "m = (if n > SSIZE_MAX then SSIZE_MAX else n)"
    have r: "reader n pq = (case read_loop m [] pq False [] of
        Done (Inr got) pq' _ _ \<Rightarrow> pq'\<lparr>taken := taken pq' @ got\<rparr> | _ \<Rightarrow> pq)"
      using False by (simp add: reader_def pipe_read_def m_def)
    have "fills []" by (simp add: fills_def)
    note f = read_loop_filled [OF this ok, of "[]" m False]
    show ?thesis
    proof (cases "\<exists>got pq' sg env'. read_loop m [] pq False [] = Done (Inr got) pq' sg env'")
      case True
      then obtain got pq' sg env' where e: "read_loop m [] pq False [] = Done (Inr got) pq' sg env'" by blast
      have "filled pq got pq'" using f unfolding e by simp
      with more_log [OF read_loop_alone [OF e]] have "contents pq = got @ contents pq'" "pipe_ok pq'" "taken pq' = taken pq"
        by (auto simp: filled_def)
      then show ?thesis unfolding r e by (simp add: exI [of _ "length got"])
    next
      case False
      then have "reader n pq = pq" unfolding r by (auto split: outcome.splits sum.splits)
      with ok show ?thesis by (simp add: exI [of _ 0])
    qed
  qed
  then show ?thesis by (simp add: drains_def)
qed

lemma writer_fills: "fills [(writer s, sig)]"
proof -
  have "pipe_ok (writer s pq) \<and> (\<exists>x. contents (writer s pq) = contents pq @ x \<and> given (writer s pq) = given pq @ x)"
    if ok: "pipe_ok pq" for pq
  proof (cases "\<exists>k pq' sg env'. s \<noteq> [] \<and> write_loop s 0 pq False [] = Done (Inr k) pq' sg env'")
    case True
    then obtain k pq' sg env' where e: "s \<noteq> []" "write_loop s 0 pq False [] = Done (Inr k) pq' sg env'" by blast
    have "drains []" by (simp add: drains_def)
    from write_loop_drained [OF this ok, of s 0 False] have "drained pq (take k s) pq'" unfolding e(2) by auto
    with more_log [OF write_loop_alone [OF e(2)]] have "contents pq' = contents pq @ take k s" "pipe_ok pq'" "given pq' = given pq"
      by (auto simp: drained_def)
    then show ?thesis using e by (simp add: writer_def pipe_write_def)
  next
    case False
    then have "writer s pq = pq" by (auto simp: writer_def pipe_write_def split: outcome.splits sum.splits)
    with ok show ?thesis by simp
  qed
  then show ?thesis by (simp add: fills_def)
qed

definition sys_log :: pipe_log where
  "sys_log = pipe.extend sys_pipe (pipe_log.fields [] [])"

lemma sys_log_ok:
  "pipe_ok sys_log" "contents sys_log = []" "\<not> named_wait sys_log" "readers sys_log \<noteq> 0"
  "writers sys_log \<noteq> 0" "EMPTY sys_log" "taken sys_log = []" "given sys_log = []"
  using sys_pipe_ok
  by (simp_all add: sys_log_def pipe.defs pipe_log.defs contents_def pipe_ok_def EMPTY_def)

lemma sys_log_write:
  assumes "s \<noteq> []" and "length s < PIPE_BUF"
  shows "\<exists>pq'. pipe_write s sys_log False env = Done (Inr (length s)) pq' False env \<and> contents pq' = s \<and>
    pipe_ok pq' \<and> \<not> named_wait pq' \<and> writers pq' \<noteq> 0"
  using write_loop_room [OF sys_log_ok(1,3,4), of s 0 False env] sys_log_ok(2,5) assms
  by (auto simp: pipe_write_def)

theorem pipe_write_fifo_witness:
  "\<exists>pq'. pipe_write [1, 2] sys_log False [(reader 1, False)] = Done (Inr 2) pq' False [(reader 1, False)] \<and>
    taken pq' @ contents pq' = [1, 2]"
proof -
  obtain pq' where "pipe_write [1, 2] sys_log False [(reader 1, False)] = Done (Inr 2) pq' False [(reader 1, False)]"
    using sys_log_write [of "[1, 2]" "[(reader 1, False)]"] by (auto simp: PIPE_BUF_def numeral_2_eq_2)
  then show ?thesis
    using pipe_write_fifo [OF sys_log_ok(1) reader_drains [of 1 False], of "[1, 2]" False] sys_log_ok(2,7)
    by auto
qed

theorem pipe_read_fifo_witness:
  "\<exists>r pq' sig'. pipe_read 1 sys_log False [(writer [7], False)] = Done r pq' sig' [] \<and>
    (\<exists>got. given pq' = got @ contents pq' \<and> r = Inr got)"
proof -
  obtain pq1 where w: "pipe_write [7] sys_log False [] = Done (Inr 1) pq1 False []"
      "contents pq1 = [7]" "pipe_ok pq1" "\<not> named_wait pq1"
    using sys_log_write [of "[7]" "[]"] by (auto simp: PIPE_BUF_def)
  then have "writer [7] sys_log = pq1\<lparr>given := given pq1 @ [7]\<rparr>" by (simp add: writer_def)
  then have w1: "contents (writer [7] sys_log) = [7]" "pipe_ok (writer [7] sys_log)" "\<not> named_wait (writer [7] sys_log)"
    using w by simp_all
  have "pipe_read 1 sys_log False [(writer [7], False)] = read_loop 1 [] (writer [7] sys_log) False []"
    using sys_log_ok(3,5,6)
    by (simp add: pipe_read_def SSIZE_MAX_def read_loop.simps [of _ _ sys_log] pipe_get_ch_def named_loop.simps)
  then obtain pq' where r: "pipe_read 1 sys_log False [(writer [7], False)] = Done (Inr [7]) pq' False []"
    using read_loop_available [OF w1(2,3), of 1 "[]" False "[]"] w1(1) by auto
  show ?thesis
    using pipe_read_fifo [OF sys_log_ok(1) writer_fills [of "[7]" False], of 1 False] sys_log_ok(2,8) r by auto
qed

text \<open>C34: what is written to a pipe with room for it is read back: the write returns at once with the
  full count, and a following read of that many characters from the otherwise empty pipe returns
  exactly the data written.\<close>

theorem pipe_roundtrip:
  assumes "pipe_ok pq" and "contents pq = []" and "\<not> named_wait pq" and "readers pq \<noteq> 0"
    and "s \<noteq> []" and "length s < PIPE_BUF"
  shows "\<exists>pq' pq''. pipe_write s pq sig env = Done (Inr (length s)) pq' sig env \<and>
    pipe_read (length s) pq' sig env = Done (Inr s) pq'' sig env"
proof -
  from write_loop_room [OF assms(1,3,4), of s 0 sig env] assms
  obtain pq' where w: "write_loop s 0 pq sig env = Done (Inr (length s)) pq' sig env" "pipe_ok pq'"
      "contents pq' = s" "\<not> named_wait pq'"
    by auto
  have "length s \<le> SSIZE_MAX"
    using assms(6) by (simp add: PIPE_BUF_def SSIZE_MAX_def)
  with read_loop_available [OF w(2,4), of "length s" "[]" sig env] w(1,3) assms(5) show ?thesis
    by (auto simp: pipe_write_def pipe_read_def)
qed

text \<open>a reader that waits on an empty pipe with a writer cannot be interrupted: as long as the pipe
  is empty at every resumption it goes back to sleep, whether or not a signal is pending.\<close>

theorem pipe_read_uninterruptible:
  assumes "n > 0" and "\<not> named_wait pq" and "EMPTY pq" and "writers pq \<noteq> 0"
    and "\<forall>(f, sig) \<in> set env. f = id"
  shows "pipe_read n pq sig env = Blocked pq"
proof -
  have "read_loop m [] pq sig env = Blocked pq" if "m > 0" for m
    using assms(5)
  proof (induction env arbitrary: sig)
    case Nil
    show ?case
      using that assms by (simp add: read_loop.simps pipe_get_ch_def named_loop.simps)
  next
    case (Cons r env)
    then show ?case
      using that assms by (cases r) (simp add: read_loop.simps [of m] pipe_get_ch_def named_loop.simps)
  qed
  with assms(1) show ?thesis
    by (simp add: pipe_read_def SSIZE_MAX_def)
qed

theorem pipe_read_uninterruptible_witness:
  "pipe_read 5 sys_pipe True [(id, True), (id, True)] = Blocked sys_pipe"
  using pipe_read_uninterruptible [of 5 sys_pipe "[(id, True), (id, True)]" True] sys_pipe_ok(3,5,6)
  by simp

theorem pipe_roundtrip_witness:
  "\<exists>pq' pq''. pipe_write [104, 105] sys_pipe False [] = Done (Inr 2) pq' False [] \<and>
    pipe_read 2 pq' False [] = Done (Inr [104, 105]) pq'' False []"
  using pipe_roundtrip [OF sys_pipe_ok(1-4), of "[104, 105]" False "[]"]
  by (simp add: PIPE_BUF_def numeral_2_eq_2)

end
