(* ===== verification/Qsort.thy ===== *)
theory Qsort
  imports CMem "HOL-Library.Multiset"
begin

text \<open>
  Sorting (\<open>src/libc/src/qsort.c\<close>) on byte memory. An object is the list of its \<open>w\<close> bytes; the comparison
  function gets the contents of the two objects and the extra argument of \<open>qsort_r\<close>. The pointers \<open>i\<close>
  and \<open>j\<close> of the partition are integers, since \<open>i\<close> starts one object before the array. The pivot is
  not copied: it is the object at \<open>a\<close>, which the first swap replaces.
\<close>

type_synonym 'r compar = "u8 list \<Rightarrow> u8 list \<Rightarrow> 'r \<Rightarrow> int"

definition obj :: "mem \<Rightarrow> ptr \<Rightarrow> nat \<Rightarrow> u8 list option" where
  "obj m p w = those (map (\<lambda>i. m (p + i)) [0..<w])"

fun qsort_swap :: "nat \<Rightarrow> mem \<Rightarrow> ptr \<Rightarrow> ptr \<Rightarrow> mem option" where
  "qsort_swap 0 m a b = Some m"
| "qsort_swap (Suc w) m a b = do {
     t \<leftarrow> m a;
     x \<leftarrow> m b;
     m \<leftarrow> store m a x;
     m \<leftarrow> store m b t;
     qsort_swap w m (a + 1) (b + 1) }"

partial_function (option) scan_up :: "nat \<Rightarrow> mem \<Rightarrow> int \<Rightarrow> ptr \<Rightarrow> 'r compar \<Rightarrow> 'r \<Rightarrow> int option" where
  "scan_up w m i a compar arg = do {
     x \<leftarrow> obj m (nat (i + int w)) w;
     p \<leftarrow> obj m a w;
     if compar x p arg < 0 then scan_up w m (i + int w) a compar arg else Some (i + int w) }"

partial_function (option) scan_down :: "nat \<Rightarrow> mem \<Rightarrow> int \<Rightarrow> ptr \<Rightarrow> 'r compar \<Rightarrow> 'r \<Rightarrow> int option" where
  "scan_down w m j a compar arg = do {
     x \<leftarrow> obj m (nat (j - int w)) w;
     p \<leftarrow> obj m a w;
     if compar x p arg > 0 then scan_down w m (j - int w) a compar arg else Some (j - int w) }"

partial_function (option) part_loop ::
  "nat \<Rightarrow> mem \<Rightarrow> ptr \<Rightarrow> int \<Rightarrow> int \<Rightarrow> 'r compar \<Rightarrow> 'r \<Rightarrow> (mem \<times> ptr) option" where
  "part_loop w m a i j compar arg = do {
     i \<leftarrow> scan_up w m i a compar arg;
     j \<leftarrow> scan_down w m j a compar arg;
     if i \<ge> j then Some (m, nat j)
     else do {
       m \<leftarrow> qsort_swap w m (nat i) (nat j);
       part_loop w m a i j compar arg } }"

definition qsort_part :: "nat \<Rightarrow> mem \<Rightarrow> ptr \<Rightarrow> ptr \<Rightarrow> 'r compar \<Rightarrow> 'r \<Rightarrow> (mem \<times> ptr) option" where
  "qsort_part w m a b compar arg = part_loop w m a (int a - int w) (int b + int w) compar arg"

partial_function (option) qsort_sort :: "nat \<Rightarrow> mem \<Rightarrow> ptr \<Rightarrow> ptr \<Rightarrow> 'r compar \<Rightarrow> 'r \<Rightarrow> mem option" where
  "qsort_sort w m a b compar arg =
     (if a \<ge> b then Some m
      else do {
        (m, p) \<leftarrow> qsort_part w m a b compar arg;
        m \<leftarrow> qsort_sort w m a p compar arg;
        qsort_sort w m (p + w) b compar arg })"

definition qsort_r :: "mem \<Rightarrow> ptr \<Rightarrow> nat \<Rightarrow> nat \<Rightarrow> 'r compar \<Rightarrow> 'r \<Rightarrow> mem option" where
  "qsort_r m base nel width compar arg =
     (if nel = 0 \<or> nel = 1 then Some m
      else qsort_sort width m base (base + (nel - 1) * width) compar arg)"

definition qsort :: "mem \<Rightarrow> ptr \<Rightarrow> nat \<Rightarrow> nat \<Rightarrow> (u8 list \<Rightarrow> u8 list \<Rightarrow> int) \<Rightarrow> mem option" where
  "qsort m base nel width compar = qsort_r m base nel width (\<lambda>x y _. compar x y) ()"

subsection \<open>Arrays of objects\<close>

definition arr :: "mem \<Rightarrow> ptr \<Rightarrow> nat \<Rightarrow> u8 list list \<Rightarrow> bool" where
  "arr m base w xs \<longleftrightarrow> (\<forall>k < length xs. length (xs ! k) = w \<and> bytes m (base + k * w) (xs ! k))"

lemma obj_bytes: "bytes m p x \<Longrightarrow> obj m p (length x) = Some x"
proof (induction x arbitrary: p)
  case (Cons b x)
  have "map (\<lambda>i. m (p + i)) [0..<length (b # x)] = m p # map (\<lambda>i. m (Suc p + i)) [0..<length x]"
    by (simp add: map_upt_Suc del: upt_Suc)
  with Cons.IH [of "Suc p"] Cons.prems show ?case by (simp add: obj_def)
qed (simp add: obj_def)

lemma obj_arr: "arr m base w xs \<Longrightarrow> k < length xs \<Longrightarrow> obj m (base + k * w) w = Some (xs ! k)"
  using obj_bytes by (auto simp: arr_def)

lemma qsort_swap_bytes:
  assumes "bytes m a x" and "bytes m b y" and "length x = w" and "length y = w" and "a + w \<le> b \<or> b + w \<le> a"
  shows "\<exists>m'. qsort_swap w m a b = Some m' \<and> bytes m' a y \<and> bytes m' b x \<and>
    (\<forall>p. (p < a \<or> a + w \<le> p) \<and> (p < b \<or> b + w \<le> p) \<longrightarrow> m' p = m p)"
  using assms
proof (induction w arbitrary: m a b x y)
  case (Suc w)
  then obtain s x' t y' where xy: "x = s # x'" "y = t # y'"
    by (metis length_Suc_conv)
  let ?m = "m(a \<mapsto> t, b \<mapsto> s)"
  have neq: "a \<noteq> b" using Suc.prems(5) by auto
  have "bytes ?m (a + 1) x'" "bytes ?m (b + 1) y'"
    using Suc.prems xy by auto
  moreover have "length x' = w" "length y' = w" "a + 1 + w \<le> b + 1 \<or> b + 1 + w \<le> a + 1"
    using Suc.prems(3-5) xy by auto
  ultimately have IH: "\<exists>m'. qsort_swap w ?m (a + 1) (b + 1) = Some m' \<and> bytes m' (a + 1) y' \<and> bytes m' (b + 1) x' \<and>
      (\<forall>p. (p < a + 1 \<or> a + 1 + w \<le> p) \<and> (p < b + 1 \<or> b + 1 + w \<le> p) \<longrightarrow> m' p = ?m p)"
    by (rule Suc.IH)
  then obtain m' where m': "qsort_swap w ?m (a + 1) (b + 1) = Some m'" "bytes m' (a + 1) y'" "bytes m' (b + 1) x'"
      "\<forall>p. (p < a + 1 \<or> a + 1 + w \<le> p) \<and> (p < b + 1 \<or> b + 1 + w \<le> p) \<longrightarrow> m' p = ?m p"
    by blast
  have "qsort_swap (Suc w) m a b = Some m'"
    using Suc.prems xy m'(1) neq by (simp add: store_def)
  moreover have "m' a = Some t" "m' b = Some s"
    using m'(4) Suc.prems(5) neq by auto
  ultimately show ?case
    using m' xy Suc.prems(5) by auto
qed auto

lemma apart: "k \<noteq> l \<Longrightarrow> base + k * w + w \<le> base + l * w \<or> base + l * w + w \<le> base + (k::nat) * w"
  using mult_le_mono1 [of "Suc k" l w] mult_le_mono1 [of "Suc l" k w]
  by (cases k l rule: linorder_cases) auto

lemma qsort_swap_arr:
  assumes "arr m base w xs" and "i < length xs" and "j < length xs" and "i \<noteq> j"
  shows "\<exists>m'. qsort_swap w m (base + i * w) (base + j * w) = Some m' \<and> arr m' base w (xs[i := xs ! j, j := xs ! i]) \<and>
    (\<forall>p. p < base \<or> base + length xs * w \<le> p \<longrightarrow> m' p = m p)"
proof -
  have xs: "bytes m (base + k * w) (xs ! k)" "length (xs ! k) = w" if "k < length xs" for k
    using assms(1) that by (auto simp: arr_def)
  obtain m' where m': "qsort_swap w m (base + i * w) (base + j * w) = Some m'"
      "bytes m' (base + i * w) (xs ! j)" "bytes m' (base + j * w) (xs ! i)"
      "\<And>p. p < base + i * w \<or> base + i * w + w \<le> p \<Longrightarrow> p < base + j * w \<or> base + j * w + w \<le> p \<Longrightarrow> m' p = m p"
    using qsort_swap_bytes [OF xs(1) [OF assms(2)] xs(1) [OF assms(3)] xs(2) xs(2) apart] assms(2-4) by blast
  have other: "bytes m' (base + k * w) (xs ! k)" if "k < length xs" "k \<noteq> i" "k \<noteq> j" for k
  proof -
    have "m' (base + k * w + l) = m (base + k * w + l)" if "l < w" for l
      using apart [of k i base w] apart [of k j base w] \<open>k \<noteq> i\<close> \<open>k \<noteq> j\<close> that by (intro m'(4)) auto
    then show ?thesis
      using xs [OF that(1)] bytes_cong [of "xs ! k" m' "base + k * w" m] by simp
  qed
  have "arr m' base w (xs[i := xs ! j, j := xs ! i])"
    using m'(2,3) other xs assms(2-4) by (auto simp: arr_def nth_list_update)
  moreover have "m' p = m p" if "p < base \<or> base + length xs * w \<le> p" for p
  proof -
    have "base + k * w + w \<le> base + length xs * w" if "k < length xs" for k
      using that mult_le_mono1 [of "Suc k" "length xs" w] by auto
    from this [of i] this [of j] show ?thesis
      using that assms(2,3) by (intro m'(4)) auto
  qed
  ultimately show ?thesis using m'(1) by blast
qed

definition perm_on :: "nat \<Rightarrow> nat \<Rightarrow> 'a list \<Rightarrow> 'a list \<Rightarrow> bool" where
  "perm_on lo hi xs ys \<longleftrightarrow> length ys = length xs \<and> mset ys = mset xs \<and>
     (\<forall>k < length xs. k < lo \<or> hi < k \<longrightarrow> ys ! k = xs ! k)"

lemma perm_on_refl [simp]: "perm_on lo hi xs xs"
  by (simp add: perm_on_def)

lemma perm_on_trans: "perm_on lo hi xs ys \<Longrightarrow> perm_on lo hi ys zs \<Longrightarrow> perm_on lo hi xs zs"
  by (simp add: perm_on_def)

lemma perm_on_mono: "perm_on l h xs ys \<Longrightarrow> lo \<le> l \<Longrightarrow> h \<le> hi \<Longrightarrow> perm_on lo hi xs ys"
  by (auto simp: perm_on_def)

lemma perm_on_swap:
  assumes "i < length xs" and "j < length xs" and "lo \<le> i" "i \<le> hi" "lo \<le> j" "j \<le> hi"
  shows "perm_on lo hi xs (xs[i := xs ! j, j := xs ! i])"
  using assms mset_swap [of j xs i] by (auto simp: perm_on_def nth_list_update)

lemma perm_on_value:
  assumes "perm_on lo hi xs ys" and "lo \<le> k" and "k \<le> hi" and "hi < length xs"
  shows "\<exists>l. lo \<le> l \<and> l \<le> hi \<and> ys ! k = xs ! l"
proof -
  let ?seg = "\<lambda>zs. take (Suc hi - lo) (drop lo zs)"
  have split: "zs = take lo zs @ ?seg zs @ drop (Suc hi) zs" for zs :: "'a list"
  proof -
    have "drop (Suc hi) zs = drop (Suc hi - lo) (drop lo zs)"
      using assms(2,3) by simp
    then show ?thesis by (simp only: append_take_drop_id)
  qed
  have ends: "take lo ys = take lo xs" "drop (Suc hi) ys = drop (Suc hi) xs"
    using assms(1,4) by (auto simp: perm_on_def intro!: nth_equalityI)
  have "mset (?seg ys) = mset (?seg xs)"
  proof -
    have "mset zs = mset (take lo zs) + mset (?seg zs) + mset (drop (Suc hi) zs)" for zs :: "'a list"
      by (subst split) simp
    from this [of xs] this [of ys] assms(1) ends show ?thesis
      by (simp add: perm_on_def)
  qed
  moreover have "ys ! k \<in> set (?seg ys)"
    using assms by (auto simp: in_set_conv_nth perm_on_def intro!: exI [of _ "k - lo"])
  ultimately have "ys ! k \<in> set (?seg xs)"
    by (metis set_mset_mset)
  then obtain d where "d < Suc hi - lo" "ys ! k = xs ! (lo + d)"
    using assms(4) by (auto simp: in_set_conv_nth)
  then show ?thesis by (intro exI [of _ "lo + d"]) auto
qed

subsection \<open>Scanning and partition\<close>

definition compar_ok :: "'r compar \<Rightarrow> 'r \<Rightarrow> bool" where
  "compar_ok compar arg \<longleftrightarrow>
     (\<forall>x y. compar x y arg < 0 \<longleftrightarrow> compar y x arg > 0) \<and>
     (\<forall>x y z. compar x y arg \<le> 0 \<longrightarrow> compar y z arg \<le> 0 \<longrightarrow> compar x z arg \<le> 0)"

lemma compar_refl: "compar_ok compar arg \<Longrightarrow> compar x x arg = 0"
  unfolding compar_ok_def by (metis linorder_neqE_linordered_idom not_less_iff_gr_or_eq)

lemma compar_trans: "compar_ok compar arg \<Longrightarrow> compar x y arg \<le> 0 \<Longrightarrow> compar y z arg \<le> 0 \<Longrightarrow> compar x z arg \<le> 0"
  unfolding compar_ok_def by blast

lemma compar_sym: "compar_ok compar arg \<Longrightarrow> compar x y arg \<ge> 0 \<longleftrightarrow> compar y x arg \<le> 0"
  unfolding compar_ok_def by (metis not_less)

lemma scan_up_step:
  assumes "arr m base w xs" and "lo < length xs" and "i < length xs"
  shows "scan_up w m (int (base + i * w) - int w) (base + lo * w) compar arg =
    (if compar (xs ! i) (xs ! lo) arg < 0 then scan_up w m (int (base + Suc i * w) - int w) (base + lo * w) compar arg
     else Some (int (base + i * w)))"
proof -
  have "int (base + i * w) - int w + int w = int (base + i * w)" "int (base + Suc i * w) - int w = int (base + i * w)"
    by simp_all
  with assms show ?thesis
    by (subst scan_up.simps) (simp only: obj_arr nat_int bind.bind_lunit)
qed

lemma scan_down_step:
  assumes "arr m base w xs" and "lo < length xs" and "j < length xs"
  shows "scan_down w m (int (base + j * w) + int w) (base + lo * w) compar arg =
    (if compar (xs ! j) (xs ! lo) arg > 0 then scan_down w m (int (base + j * w)) (base + lo * w) compar arg
     else Some (int (base + j * w)))"
proof -
  have "int (base + j * w) + int w - int w = int (base + j * w)"
    by simp
  with assms show ?thesis
    by (subst scan_down.simps) (simp only: obj_arr nat_int bind.bind_lunit)
qed

lemma scan_up_arr:
  assumes "arr m base w xs" and "lo < length xs" and "i \<le> k" and "k < length xs"
    and "\<not> compar (xs ! k) (xs ! lo) arg < 0" and "\<And>l. i \<le> l \<Longrightarrow> l < k \<Longrightarrow> compar (xs ! l) (xs ! lo) arg < 0"
  shows "scan_up w m (int (base + i * w) - int w) (base + lo * w) compar arg = Some (int (base + k * w))"
  using assms(3,6)
proof (induction "k - i" arbitrary: i)
  case 0
  then have [simp]: "i = k" by simp
  show ?case
    using assms(5) unfolding \<open>i = k\<close> scan_up_step [OF assms(1,2,4)] by simp
next
  case (Suc d)
  then have "compar (xs ! i) (xs ! lo) arg < 0" "i < length xs"
    using assms(4) by auto
  moreover have "scan_up w m (int (base + Suc i * w) - int w) (base + lo * w) compar arg = Some (int (base + k * w))"
    using Suc by (intro Suc.hyps(1)) auto
  ultimately show ?case
    unfolding scan_up_step [OF assms(1,2) \<open>i < length xs\<close>] by simp
qed

lemma scan_down_arr:
  assumes "arr m base w xs" and "lo < length xs" and "k \<le> j" and "j < length xs"
    and "\<not> compar (xs ! k) (xs ! lo) arg > 0" and "\<And>l. k < l \<Longrightarrow> l \<le> j \<Longrightarrow> compar (xs ! l) (xs ! lo) arg > 0"
  shows "scan_down w m (int (base + j * w) + int w) (base + lo * w) compar arg = Some (int (base + k * w))"
  using assms(3,4,6)
proof (induction "j - k" arbitrary: j)
  case 0
  then have "j = k" by simp
  with 0 show ?case
    using assms(5) by (simp only: scan_down_step [OF assms(1,2)] if_False)
next
  case (Suc d)
  then obtain j' where j: "j = Suc j'" by (cases j) auto
  have shift: "int (base + j' * w) + int w = int (base + j * w)"
    by (simp add: j)
  have "scan_down w m (int (base + j' * w) + int w) (base + lo * w) compar arg = Some (int (base + k * w))"
    using Suc j by (intro Suc.hyps(1)) auto
  moreover have "compar (xs ! j) (xs ! lo) arg > 0"
    using Suc by auto
  ultimately show ?case
    unfolding shift scan_down_step [OF assms(1,2) Suc.prems(2)] by simp
qed

text \<open>The scans stop, because they meet an object that is not before or not behind the pivot.\<close>

lemma scan_up_stops:
  assumes "arr m base w xs" and "lo < length xs" and "i \<le> s" and "s < length xs" and "compar (xs ! s) (xs ! lo) arg \<ge> 0"
  obtains k where "i \<le> k" and "k \<le> s" and "compar (xs ! k) (xs ! lo) arg \<ge> 0"
    and "\<forall>l. i \<le> l \<and> l < k \<longrightarrow> compar (xs ! l) (xs ! lo) arg < 0"
    and "scan_up w m (int (base + i * w) - int w) (base + lo * w) compar arg = Some (int (base + k * w))"
proof -
  let ?P = "\<lambda>k. i \<le> k \<and> compar (xs ! k) (xs ! lo) arg \<ge> 0"
  have "?P s" using assms by simp
  then have L: "?P (LEAST k. ?P k)" "(LEAST k. ?P k) \<le> s" by (rule LeastI, rule Least_le)
  have "compar (xs ! l) (xs ! lo) arg < 0" if "i \<le> l" "l < (LEAST k. ?P k)" for l
    using not_less_Least [OF that(2)] that(1) by auto
  with L assms show ?thesis
    by (intro that [of "LEAST k. ?P k"] scan_up_arr) auto
qed

lemma scan_down_stops:
  assumes "arr m base w xs" and "lo < length xs" and "s \<le> j" and "j < length xs" and "compar (xs ! s) (xs ! lo) arg \<le> 0"
  obtains k where "s \<le> k" and "k \<le> j" and "compar (xs ! k) (xs ! lo) arg \<le> 0"
    and "\<forall>l. k < l \<and> l \<le> j \<longrightarrow> compar (xs ! l) (xs ! lo) arg > 0"
    and "scan_down w m (int (base + j * w) + int w) (base + lo * w) compar arg = Some (int (base + k * w))"
proof -
  let ?P = "\<lambda>k. k \<le> j \<and> compar (xs ! k) (xs ! lo) arg \<le> 0"
  have s: "?P s" using assms by simp
  have G: "?P (GREATEST k. ?P k)"
    by (rule GreatestI_nat [where P = ?P and b = j, OF s]) simp
  have "s \<le> (GREATEST k. ?P k)"
    by (rule Greatest_le_nat [where P = ?P and b = j, OF s]) simp
  have "compar (xs ! l) (xs ! lo) arg > 0" if "(GREATEST k. ?P k) < l" "l \<le> j" for l
  proof (rule ccontr)
    assume "\<not> ?thesis"
    with that have "?P l" by simp
    then have "l \<le> (GREATEST k. ?P k)" by (rule Greatest_le_nat [where P = ?P and b = j]) simp
    with that show False by simp
  qed
  with G \<open>s \<le> (GREATEST k. ?P k)\<close> assms show ?thesis
    by (intro that [of "GREATEST k. ?P k"] scan_down_arr) auto
qed

definition same_outside :: "ptr \<Rightarrow> nat \<Rightarrow> mem \<Rightarrow> mem \<Rightarrow> bool" where
  "same_outside base len m m' \<longleftrightarrow> (\<forall>p. p < base \<or> base + len \<le> p \<longrightarrow> m' p = m p)"

definition partitioned ::
  "ptr \<Rightarrow> nat \<Rightarrow> nat \<Rightarrow> nat \<Rightarrow> 'r compar \<Rightarrow> 'r \<Rightarrow> mem \<Rightarrow> u8 list list \<Rightarrow> (mem \<times> ptr) option \<Rightarrow> bool" where
  "partitioned base w lo hi compar arg m xs r \<longleftrightarrow>
     (\<exists>m' ys q. r = Some (m', base + q * w) \<and> arr m' base w ys \<and> perm_on lo hi xs ys \<and>
        same_outside base (length xs * w) m m' \<and> lo \<le> q \<and> q < hi \<and>
        (\<forall>l. lo \<le> l \<and> l \<le> q \<longrightarrow> compar (ys ! l) (ys ! lo) arg \<le> 0) \<and>
        (\<forall>l. q < l \<and> l \<le> hi \<longrightarrow> compar (ys ! l) (ys ! lo) arg \<ge> 0))"

lemma partitioned_swap:
  assumes "partitioned base w lo hi compar arg m' (xs[i := xs ! j, j := xs ! i]) r"
    and "same_outside base (length xs * w) m m'"
    and "i < length xs" "j < length xs" "lo \<le> i" "i \<le> hi" "lo \<le> j" "j \<le> hi"
  shows "partitioned base w lo hi compar arg m xs r"
  using assms(1,2) perm_on_trans [OF perm_on_swap [OF assms(3-8)]]
  unfolding partitioned_def same_outside_def by simp blast

lemma part_loop_arr:
  assumes ok: "compar_ok compar arg" and w: "0 < w"
  shows "arr m base w xs \<Longrightarrow> lo < i \<Longrightarrow> i \<le> Suc j \<Longrightarrow> j < hi \<Longrightarrow> hi < length xs \<Longrightarrow>
    \<forall>l. lo \<le> l \<and> l < i \<longrightarrow> compar (xs ! l) (xs ! lo) arg \<le> 0 \<Longrightarrow>
    \<forall>l. j < l \<and> l \<le> hi \<longrightarrow> compar (xs ! l) (xs ! lo) arg \<ge> 0 \<Longrightarrow>
    partitioned base w lo hi compar arg m xs
      (part_loop w m (base + lo * w) (int (base + i * w) - int w) (int (base + j * w) + int w) compar arg)"
proof (induction "Suc j - i" arbitrary: i j m xs rule: less_induct)
  case less
  have lo: "lo < length xs" and "Suc j < length xs" "compar (xs ! Suc j) (xs ! lo) arg \<ge> 0"
    using less.prems by auto
  from this(2,3) obtain i' where i': "i \<le> i'" "i' \<le> Suc j" "compar (xs ! i') (xs ! lo) arg \<ge> 0"
      "\<forall>l. i \<le> l \<and> l < i' \<longrightarrow> compar (xs ! l) (xs ! lo) arg < 0"
      "scan_up w m (int (base + i * w) - int w) (base + lo * w) compar arg = Some (int (base + i' * w))"
    by (rule scan_up_stops [OF less.prems(1) lo less.prems(3)])
  have "i - 1 \<le> j" "j < length xs" "compar (xs ! (i - 1)) (xs ! lo) arg \<le> 0"
    using less.prems by auto
  then obtain j' where j': "i - 1 \<le> j'" "j' \<le> j" "compar (xs ! j') (xs ! lo) arg \<le> 0"
      "\<forall>l. j' < l \<and> l \<le> j \<longrightarrow> compar (xs ! l) (xs ! lo) arg > 0"
      "scan_down w m (int (base + j * w) + int w) (base + lo * w) compar arg = Some (int (base + j' * w))"
    by (rule scan_down_stops [OF less.prems(1) lo])
  have below: "compar (xs ! l) (xs ! lo) arg \<le> 0" if "lo \<le> l" "l < i'" for l
    using less.prems(6) i'(4) that by (metis less_imp_le not_le)
  have above: "compar (xs ! l) (xs ! lo) arg \<ge> 0" if "j' < l" "l \<le> hi" for l
    using less.prems(7) j'(4) that by (metis less_imp_le not_le)
  show ?case
  proof (cases "i' \<ge> j'")
    case True
    have "compar (xs ! l) (xs ! lo) arg \<le> 0" if "lo \<le> l" "l \<le> j'" for l
      using below [of l] j'(3) that True by (cases "l = j'") auto
    moreover have "part_loop w m (base + lo * w) (int (base + i * w) - int w) (int (base + j * w) + int w) compar arg =
        Some (m, base + j' * w)"
      using i'(5) j'(5) True by (subst part_loop.simps) (simp del: of_nat_add of_nat_mult)
    ultimately show ?thesis
      using less.prems(1-5) above j'(1,2)
      unfolding partitioned_def by (intro exI [of _ m] exI [of _ xs] exI [of _ j']) (auto simp: same_outside_def)
  next
    case False
    then have ij: "i' < length xs" "j' < length xs" "i' \<noteq> j'" "lo < i'" "lo < j'"
      using less.prems(2,4,5) i'(1) j'(2) by auto
    obtain m' where m': "qsort_swap w m (base + i' * w) (base + j' * w) = Some m'"
        "arr m' base w (xs[i' := xs ! j', j' := xs ! i'])" "same_outside base (length xs * w) m m'"
      using qsort_swap_arr [OF less.prems(1) ij(1-3)] unfolding same_outside_def by blast
    let ?ys = "xs[i' := xs ! j', j' := xs ! i']"
    have shift: "int (base + i' * w) = int (base + Suc i' * w) - int w" "int (base + j' * w) = int (base + (j' - 1) * w) + int w"
      using ij(5) by (simp, cases j') simp_all
    have pivot: "?ys ! lo = xs ! lo" using ij by simp
    have "partitioned base w lo hi compar arg m' ?ys
        (part_loop w m' (base + lo * w) (int (base + Suc i' * w) - int w) (int (base + (j' - 1) * w) + int w) compar arg)"
    proof (rule less.hyps)
      show "\<forall>l. lo \<le> l \<and> l < Suc i' \<longrightarrow> compar (?ys ! l) (?ys ! lo) arg \<le> 0"
        using below j'(3) ij False by (auto simp: pivot nth_list_update less_Suc_eq)
      show "\<forall>l. j' - 1 < l \<and> l \<le> hi \<longrightarrow> compar (?ys ! l) (?ys ! lo) arg \<ge> 0"
        using above i'(3) ij False less.prems(5) by (auto simp: pivot nth_list_update Suc_le_eq dest!: Suc_leI)
    qed (use m' less.prems i' j' ij False in auto)
    moreover have "part_loop w m (base + lo * w) (int (base + i * w) - int w) (int (base + j * w) + int w) compar arg =
        part_loop w m' (base + lo * w) (int (base + i' * w)) (int (base + j' * w)) compar arg"
      using i'(5) j'(5) m'(1) False w by (subst part_loop.simps) (simp del: of_nat_add of_nat_mult)
    ultimately have "partitioned base w lo hi compar arg m' ?ys
        (part_loop w m (base + lo * w) (int (base + i * w) - int w) (int (base + j * w) + int w) compar arg)"
      unfolding shift by simp
    then show ?thesis
      by (rule partitioned_swap [OF _ m'(3) ij(1,2)]) (use less.prems(2-5) i'(2) j'(2) ij in simp_all)
  qed
qed

lemma qsort_part_arr:
  assumes ok: "compar_ok compar arg" and w: "0 < w" and arr: "arr m base w xs" and "lo < hi" and "hi < length xs"
  shows "partitioned base w lo hi compar arg m xs (qsort_part w m (base + lo * w) (base + hi * w) compar arg)"
proof -
  have lo: "lo < length xs" using assms by simp
  have up: "scan_up w m (int (base + lo * w) - int w) (base + lo * w) compar arg = Some (int (base + lo * w))"
    using compar_refl [OF ok] by (simp only: scan_up_step [OF arr lo lo] less_irrefl if_False)
  obtain j where j: "lo \<le> j" "j \<le> hi" "compar (xs ! j) (xs ! lo) arg \<le> 0"
      "\<forall>l. j < l \<and> l \<le> hi \<longrightarrow> compar (xs ! l) (xs ! lo) arg > 0"
      "scan_down w m (int (base + hi * w) + int w) (base + lo * w) compar arg = Some (int (base + j * w))"
    by (rule scan_down_stops [OF arr lo less_imp_le [OF assms(4)] assms(5), of compar arg])
      (simp add: compar_refl [OF ok])
  show ?thesis
  proof (cases "j = lo")
    case True
    have "qsort_part w m (base + lo * w) (base + hi * w) compar arg = Some (m, base + lo * w)"
      using up j(5) True unfolding qsort_part_def by (subst part_loop.simps) (simp del: of_nat_add of_nat_mult)
    then show ?thesis
      using assms(3,4) j(3,4) True unfolding partitioned_def
      by (intro exI [of _ m] exI [of _ xs] exI [of _ lo]) (auto simp: same_outside_def intro: less_imp_le)
  next
    case False
    then have ij: "lo \<noteq> j" "lo < j" "j < length xs" using j assms(5) by auto
    let ?ys = "xs[lo := xs ! j, j := xs ! lo]"
    obtain m' where m': "qsort_swap w m (base + lo * w) (base + j * w) = Some m'" "arr m' base w ?ys"
        "same_outside base (length xs * w) m m'"
      using qsort_swap_arr [OF arr lo ij(3,1)] unfolding same_outside_def by blast
    have shift: "int (base + lo * w) = int (base + Suc lo * w) - int w" "int (base + j * w) = int (base + (j - 1) * w) + int w"
      using ij(2) by (simp, cases j) simp_all
    have pivot: "?ys ! lo = xs ! j" using ij lo by simp
    have above: "compar (?ys ! l) (?ys ! lo) arg \<ge> 0" if "j - 1 < l" "l \<le> hi" for l
    proof (cases "l = j")
      case True
      then show ?thesis using j(3) ij lo compar_sym [OF ok] by (simp add: pivot)
    next
      case False
      with that have "j < l" by simp
      then have "compar (xs ! l) (xs ! lo) arg \<ge> 0" using j(4) that by (simp add: less_imp_le)
      then have "compar (xs ! j) (xs ! l) arg \<le> 0"
        using compar_trans [OF ok j(3)] compar_sym [OF ok] by blast
      with \<open>j < l\<close> ij show ?thesis using compar_sym [OF ok] by (simp add: pivot)
    qed
    have "partitioned base w lo hi compar arg m' ?ys
        (part_loop w m' (base + lo * w) (int (base + Suc lo * w) - int w) (int (base + (j - 1) * w) + int w) compar arg)"
    proof (rule part_loop_arr [OF ok w m'(2)])
      show "\<forall>l. lo \<le> l \<and> l < Suc lo \<longrightarrow> compar (?ys ! l) (?ys ! lo) arg \<le> 0"
        using compar_refl [OF ok] by (auto simp: less_Suc_eq)
    qed (use above ij j(2) assms(5) in auto)
    moreover have "qsort_part w m (base + lo * w) (base + hi * w) compar arg =
        part_loop w m' (base + lo * w) (int (base + lo * w)) (int (base + j * w)) compar arg"
      using up j(5) m'(1) ij(2) w unfolding qsort_part_def
      by (subst part_loop.simps) (simp del: of_nat_add of_nat_mult)
    ultimately have "partitioned base w lo hi compar arg m' ?ys (qsort_part w m (base + lo * w) (base + hi * w) compar arg)"
      unfolding shift by simp
    then show ?thesis
      by (rule partitioned_swap [OF _ m'(3) lo ij(3)]) (use assms(4) j ij in simp_all)
  qed
qed

subsection \<open>Sorting\<close>

definition sorted_on :: "nat \<Rightarrow> nat \<Rightarrow> 'r compar \<Rightarrow> 'r \<Rightarrow> u8 list list \<Rightarrow> bool" where
  "sorted_on lo hi compar arg xs \<longleftrightarrow> (\<forall>k l. lo \<le> k \<and> k \<le> l \<and> l \<le> hi \<longrightarrow> compar (xs ! k) (xs ! l) arg \<le> 0)"

definition sorts :: "ptr \<Rightarrow> nat \<Rightarrow> nat \<Rightarrow> nat \<Rightarrow> 'r compar \<Rightarrow> 'r \<Rightarrow> mem \<Rightarrow> u8 list list \<Rightarrow> mem option \<Rightarrow> bool" where
  "sorts base w lo hi compar arg m xs r \<longleftrightarrow>
     (\<exists>m' ys. r = Some m' \<and> arr m' base w ys \<and> perm_on lo hi xs ys \<and> sorted_on lo hi compar arg ys \<and>
        same_outside base (length xs * w) m m')"

lemma sorted_on_join:
  assumes ok: "compar_ok compar arg"
    and "sorted_on lo q compar arg ys" and "perm_on (Suc q) hi ys zs" and "sorted_on (Suc q) hi compar arg zs"
    and le: "\<And>k l. lo \<le> k \<Longrightarrow> k \<le> q \<Longrightarrow> q < l \<Longrightarrow> l \<le> hi \<Longrightarrow> compar (ys ! k) (ys ! l) arg \<le> 0"
    and "hi < length ys"
  shows "sorted_on lo hi compar arg zs"
  unfolding sorted_on_def
proof (intro allI impI)
  fix k l assume kl: "lo \<le> k \<and> k \<le> l \<and> l \<le> hi"
  have low: "zs ! i = ys ! i" if "i \<le> q" "i \<le> hi" for i
    using assms(3,6) that by (auto simp: perm_on_def)
  consider "l \<le> q" | "k \<le> q" "q < l" | "q < k" by linarith
  then show "compar (zs ! k) (zs ! l) arg \<le> 0"
  proof cases
    case 1
    then show ?thesis using kl assms(2) low by (simp add: sorted_on_def)
  next
    case 2
    then obtain l' where "q < l'" "l' \<le> hi" "zs ! l = ys ! l'"
      using perm_on_value [OF assms(3), of l] kl assms(6) by (auto simp: Suc_le_eq)
    then show ?thesis using le [of k l'] kl 2 low by simp
  next
    case 3
    then show ?thesis using kl assms(4) by (simp add: sorted_on_def)
  qed
qed

lemma qsort_sort_arr:
  assumes ok: "compar_ok compar arg" and w: "0 < w"
  shows "arr m base w xs \<Longrightarrow> lo \<le> hi \<Longrightarrow> hi < length xs \<Longrightarrow>
    sorts base w lo hi compar arg m xs (qsort_sort w m (base + lo * w) (base + hi * w) compar arg)"
proof (induction "hi - lo" arbitrary: lo hi m xs rule: less_induct)
  case less
  show ?case
  proof (cases "lo = hi")
    case True
    then have "sorted_on lo hi compar arg xs"
    proof -
      have "k = l" if "lo \<le> k \<and> k \<le> l \<and> l \<le> hi" for k l
        using that True by linarith
      then show ?thesis
        using compar_refl [OF ok] unfolding sorted_on_def by fastforce
    qed
    with True less.prems(1) show ?thesis
      by (subst qsort_sort.simps) (auto simp: sorts_def same_outside_def intro!: exI [of _ xs])
  next
    case False
    then have lt: "lo < hi" using less.prems(2) by simp
    obtain m1 ys q where part: "qsort_part w m (base + lo * w) (base + hi * w) compar arg = Some (m1, base + q * w)"
        "arr m1 base w ys" "perm_on lo hi xs ys" "same_outside base (length xs * w) m m1" "lo \<le> q" "q < hi"
        "\<forall>l. lo \<le> l \<and> l \<le> q \<longrightarrow> compar (ys ! l) (ys ! lo) arg \<le> 0"
        "\<forall>l. q < l \<and> l \<le> hi \<longrightarrow> compar (ys ! l) (ys ! lo) arg \<ge> 0"
      using qsort_part_arr [OF ok w less.prems(1) lt less.prems(3)] unfolding partitioned_def by blast
    have len: "length ys = length xs" using part(3) by (simp add: perm_on_def)
    have "sorts base w lo q compar arg m1 ys (qsort_sort w m1 (base + lo * w) (base + q * w) compar arg)"
      using part(2,5,6) less.prems(3) lt by (intro less.hyps) (auto simp: len)
    then obtain m2 zs where left: "qsort_sort w m1 (base + lo * w) (base + q * w) compar arg = Some m2"
        "arr m2 base w zs" "perm_on lo q ys zs" "sorted_on lo q compar arg zs" "same_outside base (length ys * w) m1 m2"
      unfolding sorts_def by blast
    have len': "length zs = length xs" using left(3) len by (simp add: perm_on_def)
    have "sorts base w (Suc q) hi compar arg m2 zs (qsort_sort w m2 (base + Suc q * w) (base + hi * w) compar arg)"
      using left(2) part(5,6) less.prems(3) by (intro less.hyps) (auto simp: len')
    then obtain m3 us where right: "qsort_sort w m2 (base + Suc q * w) (base + hi * w) compar arg = Some m3"
        "arr m3 base w us" "perm_on (Suc q) hi zs us" "sorted_on (Suc q) hi compar arg us"
        "same_outside base (length zs * w) m2 m3"
      unfolding sorts_def by blast
    have le: "compar (zs ! k) (zs ! l) arg \<le> 0" if "lo \<le> k" "k \<le> q" "q < l" "l \<le> hi" for k l
    proof -
      from perm_on_value [OF left(3) that(1,2)] part(6) less.prems(3) len
      obtain k' where "lo \<le> k'" "k' \<le> q" "zs ! k = ys ! k'" by auto
      moreover have "zs ! l = ys ! l" using left(3) that len less.prems(3) by (auto simp: perm_on_def)
      ultimately show ?thesis
        using part(7,8) that compar_trans [OF ok] compar_sym [OF ok] by metis
    qed
    have "sorted_on lo hi compar arg us"
      using sorted_on_join [OF ok left(4) right(3,4) le] less.prems(3) len' by simp
    moreover have "perm_on lo hi xs us"
      by (rule perm_on_trans [OF part(3) perm_on_trans [OF perm_on_mono [OF left(3)] perm_on_mono [OF right(3)]]])
        (use part(5,6) in simp_all)
    moreover have "same_outside base (length xs * w) m m3"
      using part(4) left(5) right(5) len len' by (simp add: same_outside_def)
    moreover have "qsort_sort w m (base + lo * w) (base + hi * w) compar arg = Some m3"
    proof -
      have "\<not> base + hi * w \<le> base + lo * w" using lt w by simp
      moreover have "qsort_sort w m2 (base + q * w + w) (base + hi * w) compar arg = Some m3"
        using right(1) by (simp add: ac_simps)
      ultimately show ?thesis
        using part(1) left(1) by (subst qsort_sort.simps) simp
    qed
    ultimately show ?thesis using right(2) unfolding sorts_def by blast
  qed
qed

text \<open>C11: \<open>qsort\<close> returns for every comparison function that is a total preorder, every array of \<open>nel\<close>
  objects and every non-zero width, and leaves in the array a permutation of the objects in ascending
  order; memory outside the array is not touched.\<close>

theorem qsort_correct:
  assumes "compar_ok (\<lambda>x y _. compar x y) ()" and "0 < width" and "arr m base width xs"
  shows "\<exists>m' ys. qsort m base (length xs) width compar = Some m' \<and> arr m' base width ys \<and> mset ys = mset xs \<and>
    sorted_wrt (\<lambda>x y. compar x y \<le> 0) ys \<and> (\<forall>p. p < base \<or> base + length xs * width \<le> p \<longrightarrow> m' p = m p)"
proof (cases "length xs \<le> 1")
  case True
  then have "sorted_wrt (\<lambda>x y. compar x y \<le> 0) xs" by (cases xs) auto
  moreover have "length xs = 0 \<or> length xs = 1" using True by linarith
  ultimately show ?thesis
    using assms(3) by (intro exI [of _ m] exI [of _ xs]) (simp add: qsort_def qsort_r_def)
next
  case False
  then have "sorts base width 0 (length xs - 1) (\<lambda>x y _. compar x y) () m xs
      (qsort_sort width m (base + 0 * width) (base + (length xs - 1) * width) (\<lambda>x y _. compar x y) ())"
    by (intro qsort_sort_arr [OF assms]) auto
  then obtain m' ys where r: "qsort_sort width m base (base + (length xs - 1) * width) (\<lambda>x y _. compar x y) () = Some m'"
      "arr m' base width ys" "perm_on 0 (length xs - 1) xs ys" "sorted_on 0 (length xs - 1) (\<lambda>x y _. compar x y) () ys"
      "same_outside base (length xs * width) m m'"
    unfolding sorts_def by auto
  then have "sorted_wrt (\<lambda>x y. compar x y \<le> 0) ys"
    by (auto simp: sorted_wrt_iff_nth_less sorted_on_def perm_on_def)
  with r False show ?thesis
    by (intro exI [of _ m'] exI [of _ ys]) (auto simp: qsort_def qsort_r_def perm_on_def same_outside_def)
qed

definition by_first_byte :: "u8 list \<Rightarrow> u8 list \<Rightarrow> int" where
  "by_first_byte x y = uint (hd x) - uint (hd y)"

theorem qsort_correct_witness:
  "\<exists>m' ys. qsort [100 \<mapsto> 3, 101 \<mapsto> 7, 102 \<mapsto> 1, 103 \<mapsto> 8, 104 \<mapsto> 2, 105 \<mapsto> 9] 100 3 2 by_first_byte = Some m' \<and>
    arr m' 100 2 ys \<and> mset ys = mset [[3, 7], [1, 8], [2, 9]] \<and> sorted_wrt (\<lambda>x y. by_first_byte x y \<le> 0) ys"
proof -
  have "compar_ok (\<lambda>x y _. by_first_byte x y) ()"
    by (auto simp: compar_ok_def by_first_byte_def)
  moreover have "arr [100 \<mapsto> 3, 101 \<mapsto> 7, 102 \<mapsto> 1, 103 \<mapsto> 8, 104 \<mapsto> 2, 105 \<mapsto> 9] 100 2 [[3, 7], [1, 8], [2, 9]]"
    by (simp add: arr_def less_Suc_eq all_conj_distrib numeral_3_eq_3 [symmetric]) (auto simp: numeral_3_eq_3 less_Suc_eq)
  ultimately show ?thesis
    using qsort_correct [of by_first_byte 2 "[100 \<mapsto> 3, 101 \<mapsto> 7, 102 \<mapsto> 1, 103 \<mapsto> 8, 104 \<mapsto> 2, 105 \<mapsto> 9]" 100
        "[[3, 7], [1, 8], [2, 9]]"] by (auto simp: eval_nat_numeral)
qed

end
