(* ===== verification/CTime.thy ===== *)
theory CTime
  imports Prelude "HOL-Library.Signed_Division"
begin

text \<open>
  Calendar time of the C library (\<open>src/libc/src/time.c\<close>): \<open>gmtime_r\<close> breaks a time down into a date,
  \<open>mktime\<close> goes back. Times are 64-bit and the intermediate values stay far inside that range, so they
  are integers; C division and remainder are \<open>sdiv\<close> and \<open>smod\<close>, which round towards zero, and a field
  of the structure is an \<open>int\<close>, to which a value is cut when it is stored.
\<close>

record tm =
  tm_sec :: int
  tm_min :: int
  tm_hour :: int
  tm_mday :: int
  tm_mon :: int
  tm_year :: int
  tm_wday :: int
  tm_yday :: int
  tm_isdst :: int

definition to_int :: "int \<Rightarrow> int" where
  "to_int x = signed_take_bit 31 x"

definition gmtime_r :: "int \<Rightarrow> tm" where
  "gmtime_r timer =
     (let d = timer sdiv 86400;
          sod = timer smod 86400;
          (sod, d) = (if sod < 0 then (sod + 86400, d - 1) else (sod, d));
          wday = (d + 4) smod 7;
          z = d + 719468;
          era = (if z \<ge> 0 then z else z - 146096) sdiv 146097;
          doe = z - era * 146097;
          yoe = (doe - doe sdiv 1460 + doe sdiv 36524 - doe sdiv 146096) sdiv 365;
          y = yoe + era * 400;
          doy = doe - (365 * yoe + yoe sdiv 4 - yoe sdiv 100);
          mp = (5 * doy + 2) sdiv 153;
          is_jan_feb = (mp \<ge> 10);
          y = (if is_jan_feb then y + 1 else y);
          leap_adj = (if (y smod 4 = 0 \<and> y smod 100 \<noteq> 0) \<or> y smod 400 = 0 then 1 else 0)
      in \<lparr>tm_sec = sod smod 60,
          tm_min = (sod sdiv 60) smod 60,
          tm_hour = sod sdiv 3600,
          tm_mday = to_int (doy - (153 * mp + 2) sdiv 5 + 1),
          tm_mon = to_int (if is_jan_feb then mp - 10 else mp + 2),
          tm_year = to_int (y - 1900),
          tm_wday = (if wday < 0 then wday + 7 else wday),
          tm_yday = to_int (if is_jan_feb then doy - 306 else doy + 59 + leap_adj),
          tm_isdst = -1\<rparr>)"

definition year_to_time :: "int \<Rightarrow> int \<times> bool" where
  "year_to_time year =
     (let year = year - 70;
          leaps = (year + (if year < 0 then -2 else 2)) sdiv 4;
          leaps = leaps - (if year < 0 then (year - 30) sdiv 100 else (year + 70) sdiv 100);
          leaps = leaps + (if year < 0 then (year - 30) sdiv 400 else (year + 370) sdiv 400);
          is_leap = ((year - 2) smod 4 = 0 \<and> ((year - 30) smod 100 \<noteq> 0 \<or> (year - 30) smod 400 = 0));
          leaps = (if is_leap \<and> year \<ge> 0 then leaps - 1 else leaps)
      in ((year * 365 + leaps) * 24 * 60 * 60, is_leap))"

definition days_in_month :: "int list" where
  "days_in_month = [31, 28, 31, 30, 31, 30, 31, 31, 30, 31, 30, 31]"

definition date_to_time :: "int \<Rightarrow> int \<Rightarrow> bool \<Rightarrow> int" where
  "date_to_time mon day is_leap =
     (if mon > 11 then 0
      else let day = day + sum_list (take (nat mon) days_in_month);
               day = (if is_leap \<and> mon \<ge> 2 then day + 1 else day)
           in (day - 1) * 24 * 60 * 60)"

definition mktime :: "tm \<Rightarrow> int" where
  "mktime timeptr =
     (let (ret, is_leap) = year_to_time (tm_year timeptr);
          ret = (if tm_yday timeptr \<noteq> 0 then ret + tm_yday timeptr * 24 * 60 * 60
                 else ret + date_to_time (tm_mon timeptr) (tm_mday timeptr) is_leap)
      in ret + tm_hour timeptr * 60 * 60 + tm_min timeptr * 60 + tm_sec timeptr)"

subsection \<open>The Gregorian calendar\<close>

definition leap :: "int \<Rightarrow> bool" where
  "leap y \<longleftrightarrow> 4 dvd y \<and> (\<not> 100 dvd y \<or> 400 dvd y)"

definition days_of :: "int \<Rightarrow> int \<Rightarrow> int" where
  "days_of y mon = (if mon = 1 \<and> leap y then 29 else days_in_month ! nat mon)"

definition leaps_to :: "int \<Rightarrow> int" where
  "leaps_to y = y div 4 - y div 100 + y div 400"

definition year_start :: "int \<Rightarrow> int" where
  "year_start y = 365 * (y - 1970) + leaps_to (y - 1) - leaps_to 1969"

definition month_start :: "int \<Rightarrow> int \<Rightarrow> int" where
  "month_start y mon = (\<Sum>k \<leftarrow> [0..<nat mon]. days_of y (int k))"

lemma year_start_1970: "year_start 1970 = 0"
  by (simp add: year_start_def)

lemma div_pred:
  fixes y k :: int
  assumes "0 < k"
  shows "(y - 1) div k = y div k - (if k dvd y then 1 else 0)"
proof (cases "k dvd y")
  case True
  then have "y - 1 = k * (y div k - 1) + (k - 1)" by (auto simp: algebra_simps)
  then have "(y - 1) div k = y div k - 1" by (rule int_div_pos_eq) (use assms in auto)
  with True show ?thesis by simp
next
  case False
  have eq: "y - 1 = k * (y div k) + (y mod k - 1)" by simp
  have "0 < y mod k" "y mod k < k"
    using assms False pos_mod_bound [of k y] pos_mod_sign [of k y] by (auto simp: dvd_eq_mod_eq_0 order.strict_iff_order)
  then have "(y - 1) div k = y div k" by (intro int_div_pos_eq [OF eq]) auto
  with False show ?thesis by simp
qed

lemma leap_count: "leaps_to (y - 1) = leaps_to y - (if leap y then 1 else 0)"
proof -
  have "400 dvd y \<Longrightarrow> 100 dvd y" "100 dvd y \<Longrightarrow> 4 dvd y"
    using dvd_trans [of 100 400 y] dvd_trans [of 4 100 y] by simp_all
  note dvds = this
  define A B C where "A = y div 4" and "B = y div 100" and "C = y div 400"
  show ?thesis
    unfolding leap_def leaps_to_def div_pred [OF zero_less_numeral] A_def [symmetric] B_def [symmetric] C_def [symmetric]
    using dvds by (cases "400 dvd y"; cases "100 dvd y"; cases "4 dvd y") simp_all
qed

lemma year_start_Suc: "year_start (y + 1) = year_start y + (if leap y then 366 else 365)"
  using leap_count [of y] by (auto simp: year_start_def)

lemma sdiv_nonneg: "0 \<le> x \<Longrightarrow> 0 < k \<Longrightarrow> x sdiv k = x div (k :: int)"
  by (simp add: signed_divide_int_def sgn_if)

lemma sdiv_neg: "x < 0 \<Longrightarrow> 0 < k \<Longrightarrow> x sdiv k = - (- x div (k :: int))"
  by (simp add: signed_divide_int_def)

lemma smod_nonneg: "0 \<le> x \<Longrightarrow> 0 < k \<Longrightarrow> x smod k = x mod (k :: int)"
  by (simp add: signed_modulo_int_def sgn_if)

lemma smod_neg: "x < 0 \<Longrightarrow> 0 < k \<Longrightarrow> x smod k = - (- x mod (k :: int))"
  by (simp add: signed_modulo_int_def)

lemma smod_0_iff: "0 < k \<Longrightarrow> x smod k = 0 \<longleftrightarrow> (k :: int) dvd x"
  by (cases "0 \<le> x") (simp_all add: smod_nonneg smod_neg mod_eq_0_iff_dvd)

text \<open>The two corrections for negative times turn division that rounds towards zero into floors.\<close>

lemma floor_adjust:
  "0 < k \<Longrightarrow> (let d = x sdiv k; r = x smod k in if r < 0 then (r + k, d - 1) else (r, d)) = (x mod k, x div (k :: int))"
  by (cases "0 \<le> x")
    (auto simp: Let_def sdiv_nonneg smod_nonneg sdiv_neg smod_neg zmod_zminus1_eq_if zdiv_zminus1_eq_if not_less
      dest: pos_mod_bound [of k x])

lemma floor_era: "0 < k \<Longrightarrow> (if z \<ge> 0 then z else z - (k - 1)) sdiv k = z div (k :: int)"
proof -
  assume k: "0 < k"
  show ?thesis
  proof (cases "z \<ge> 0")
    case True
    with k show ?thesis by (simp add: sdiv_nonneg)
  next
    case False
    have "(- z + (k - 1)) div k = - (z div k)"
    proof (rule int_div_pos_eq)
      show "- z + (k - 1) = k * - (z div k) + (k - 1 - z mod k)"
        by (simp add: minus_mod_eq_mult_div [symmetric])
    qed (use k pos_mod_bound [of k z] pos_mod_sign [of k z] in linarith)+
    with False k show ?thesis by (simp add: sdiv_neg algebra_simps)
  qed
qed

subsection \<open>From days to dates\<close>

lemma era_digits:
  fixes doe :: int
  assumes "0 \<le> doe" and "doe \<le> 146096"
  obtains c q s t where "doe = 36524 * c + 1461 * q + 365 * s + t"
    and "0 \<le> c" "c \<le> 3" "0 \<le> q" "q \<le> 24" "0 \<le> s" "s \<le> 3" "0 \<le> t" "t \<le> 365"
    and "t = 365 \<longrightarrow> s = 3 \<and> (q = 24 \<longrightarrow> c = 3)"
proof -
  define c where "c = min 3 (doe div 36524)"
  define r where "r = doe - 36524 * c"
  define q where "q = r div 1461"
  define u where "u = r - 1461 * q"
  define s where "s = min 3 (u div 365)"
  have cb: "0 \<le> doe div 36524" "36524 * (doe div 36524) \<le> doe" "doe < 36524 * (doe div 36524) + 36524"
    using assms by (simp_all add: pos_imp_zdiv_nonneg_iff)
  have c: "0 \<le> c" "c \<le> 3" "0 \<le> r" "r \<le> 36524" "r = 36524 \<longrightarrow> c = 3"
    using cb assms unfolding c_def r_def min_def by (auto split: if_splits)
  have qb: "0 \<le> q" "1461 * q \<le> r" "r < 1461 * q + 1461"
    using c(3) by (simp_all add: q_def pos_imp_zdiv_nonneg_iff)
  have u: "0 \<le> u" "u \<le> 1460" using qb by (simp_all add: u_def)
  have sb: "0 \<le> u div 365" "365 * (u div 365) \<le> u" "u < 365 * (u div 365) + 365"
    using u by (simp_all add: pos_imp_zdiv_nonneg_iff)
  have s: "0 \<le> s" "s \<le> 3" "365 * s \<le> u" "u - 365 * s \<le> 365" "u - 365 * s = 365 \<longrightarrow> s = 3"
    using sb u unfolding s_def min_def by (auto split: if_splits)
  show ?thesis
  proof (rule that [of c q s "u - 365 * s"])
    show "doe = 36524 * c + 1461 * q + 365 * s + (u - 365 * s)"
      by (simp add: u_def r_def)
    show "q \<le> 24" using qb c by linarith
    show "u - 365 * s = 365 \<longrightarrow> s = 3 \<and> (q = 24 \<longrightarrow> c = 3)"
      using s(5) c(4,5) unfolding u_def by auto
  qed (use c qb s in auto)
qed

lemma year_of_era:
  fixes c q s t :: int
  assumes doe: "doe = 36524 * c + 1461 * q + 365 * s + t"
    and b: "0 \<le> c" "c \<le> 3" "0 \<le> q" "q \<le> 24" "0 \<le> s" "s \<le> 3" "0 \<le> t" "t \<le> 365"
    and t: "t = 365 \<longrightarrow> s = 3 \<and> (q = 24 \<longrightarrow> c = 3)"
  shows "(doe - doe div 1460 + doe div 36524 - doe div 146096) div 365 = 100 * c + 4 * q + s"
proof -
  define e where "e = 24 * c + q + 365 * s + t"
  have century: "doe div 36524 - doe div 146096 = c"
  proof (cases "doe = 146096")
    case True
    have "c = 3" using True doe b t by (cases "t = 365") auto
    with True show ?thesis by simp
  next
    case False
    have "c = 3 \<Longrightarrow> 1461 * q + 365 * s + t < 36524"
      using False doe b by auto
    moreover have "c < 3 \<Longrightarrow> 1461 * q + 365 * s + t < 36524"
      using b t by (cases "t = 365") auto
    ultimately have "1461 * q + 365 * s + t < 36524" using b by linarith
    then have "doe div 36524 = c" "doe div 146096 = 0"
      using doe b by (intro int_div_pos_eq [of _ _ _ "1461 * q + 365 * s + t"], auto intro!: div_pos_pos_trivial)
    then show ?thesis by simp
  qed
  have four: "doe div 1460 = 25 * c + q + (if e \<ge> 1460 then 1 else 0)"
    using doe b by (intro int_div_pos_eq [of _ _ _ "if e \<ge> 1460 then e - 1460 else e"]) (auto simp: e_def)
  have "0 \<le> t - (if e \<ge> 1460 then 1 else 0)" "t - (if e \<ge> 1460 then 1 else 0) < 365"
    using b t by (auto simp: e_def)
  moreover have "doe - doe div 1460 + doe div 36524 - doe div 146096 =
      365 * (100 * c + 4 * q + s) + (t - (if e \<ge> 1460 then 1 else 0))"
    using century four doe by simp
  ultimately show ?thesis by (intro int_div_pos_eq) auto
qed

lemma era_split:
  fixes z :: int
  defines "era \<equiv> z div 146097"
  defines "doe \<equiv> z - era * 146097"
  defines "yoe \<equiv> (doe - doe div 1460 + doe div 36524 - doe div 146096) div 365"
  defines "doy \<equiv> doe - (365 * yoe + yoe div 4 - yoe div 100)"
  shows "z = 365 * (yoe + era * 400) + leaps_to (yoe + era * 400) + doy"
    and "0 \<le> doy" and "doy < 365 + (if leap (yoe + era * 400 + 1) then 1 else 0)" and "0 \<le> yoe"
    and "0 \<le> doe" and "doe \<le> 146096" and "yoe \<le> 399"
proof -
  have d: "0 \<le> doe" "doe \<le> 146096"
    unfolding doe_def era_def minus_mult_div_eq_mod [symmetric] using pos_mod_bound [of 146097 z] pos_mod_sign [of 146097 z]
    by (auto simp: minus_div_mult_eq_mod)
  from era_digits [OF d] obtain c q s t where D: "doe = 36524 * c + 1461 * q + 365 * s + t"
      "0 \<le> c" "c \<le> 3" "0 \<le> q" "q \<le> 24" "0 \<le> s" "s \<le> 3" "0 \<le> t" "t \<le> 365"
      "t = 365 \<longrightarrow> s = 3 \<and> (q = 24 \<longrightarrow> c = 3)" .
  have yoe: "yoe = 100 * c + 4 * q + s" unfolding yoe_def by (rule year_of_era [OF D])
  have div4: "(yoe + k * 400) div 4 = 25 * c + q + 100 * k" for k
    unfolding yoe using D by (intro int_div_pos_eq [of _ _ _ s]) auto
  have div100: "(yoe + k * 400) div 100 = c + 4 * k" for k
    unfolding yoe using D by (intro int_div_pos_eq [of _ _ _ "4 * q + s"]) auto
  have div400: "(yoe + k * 400) div 400 = k" for k
    unfolding yoe using D by (intro int_div_pos_eq [of _ _ _ "100 * c + 4 * q + s"]) auto
  have divs: "yoe div 4 = 25 * c + q" "yoe div 100 = c"
    using div4 [of 0] div100 [of 0] by simp_all
  have doy: "doy = t" unfolding doy_def divs using D(1) yoe by simp
  have "leaps_to (yoe + era * 400) = 24 * c + q + 97 * era"
    unfolding leaps_to_def div4 div100 div400 by simp
  moreover have "z = era * 146097 + doe" by (simp add: doe_def)
  ultimately show "z = 365 * (yoe + era * 400) + leaps_to (yoe + era * 400) + doy"
    unfolding doy using D(1) yoe by simp
  have "leap (yoe + era * 400 + 1)" if "t = 365"
  proof -
    have s: "s = 3" and qc: "q = 24 \<longrightarrow> c = 3" using that D(10) by auto
    then have Y: "yoe + era * 400 + 1 = 4 * (25 * c + q + 1 + 100 * era)" unfolding yoe by simp
    have "400 dvd 4 * (25 * c + q + 1 + 100 * era)" if "100 dvd 4 * (25 * c + q + 1 + 100 * era)"
    proof -
      from that have "100 dvd 4 * (q + 1) + 100 * (c + 4 * era)" by (simp add: algebra_simps)
      then have "100 dvd 4 * (q + 1)" by (metis dvd_add_times_triv_right_iff mult.commute)
      then have "q = 24" using D(4,5) zdvd_imp_le [of 100 "4 * (q + 1)"] by simp
      with qc have "4 * (25 * c + q + 1 + 100 * era) = 400 * (era + 1)" by simp
      then show ?thesis by (metis dvd_triv_left)
    qed
    then show ?thesis unfolding leap_def Y by auto
  qed
  then show "doy < 365 + (if leap (yoe + era * 400 + 1) then 1 else 0)"
    unfolding doy using D(9) by (cases "t = 365") auto
  show "0 \<le> doy" "0 \<le> yoe" "yoe \<le> 399" "0 \<le> doe" "doe \<le> 146096" using doy yoe D d by auto
qed

text \<open>The month from the day of a year that starts in March.\<close>

lemma month_of_day:
  fixes doy :: int
  assumes "0 \<le> doy" and "doy \<le> 365"
  defines "mp \<equiv> (5 * doy + 2) div 153"
  shows "mp \<in> {0..11}" and "153 * mp \<le> 5 * doy + 2" and "5 * doy + 2 < 153 * mp + 153"
proof -
  show "153 * mp \<le> 5 * doy + 2" "5 * doy + 2 < 153 * mp + 153"
    using pos_mod_bound [of 153 "5 * doy + 2"] pos_mod_sign [of 153 "5 * doy + 2"] div_mult_mod_eq [of "5 * doy + 2" 153]
    by (simp_all only: mp_def)
  with assms(1,2) show "mp \<in> {0..11}" by simp
qed

definition valid_date :: "int \<Rightarrow> int \<Rightarrow> int \<Rightarrow> int \<Rightarrow> bool" where
  "valid_date y mon mday yday \<longleftrightarrow> 0 \<le> mon \<and> mon \<le> 11 \<and> 1 \<le> mday \<and> mday \<le> days_of y mon \<and>
     yday = month_start y mon + mday - 1"


lemmas months = valid_date_def days_of_def days_in_month_def month_start_def upt_conv_Cons

lemma date_of_march_day:
  fixes doy Y :: int
  assumes "0 \<le> doy" and "doy < 365 + (if leap (Y + 1) then 1 else 0)"
  defines "mp \<equiv> (5 * doy + 2) div 153"
  defines "mday \<equiv> doy - (153 * mp + 2) div 5 + 1"
  shows "mp \<ge> 10 \<Longrightarrow> valid_date (Y + 1) (mp - 10) mday (doy - 306)"
    and "\<not> mp \<ge> 10 \<Longrightarrow> valid_date Y (mp + 2) mday (doy + 59 + (if leap Y then 1 else 0))"
proof -
  have doy: "doy \<le> 365" using assms(2) by (simp split: if_splits)
  note m = month_of_day [OF assms(1) doy, folded mp_def]
  show "valid_date (Y + 1) (mp - 10) mday (doy - 306)" if "mp \<ge> 10"
  proof -
    have "mp = 10 \<or> mp = 11" using that m(1) by auto
    then show ?thesis using m(2,3) assms(2) by (elim disjE) (auto simp: mday_def months split: if_splits)
  qed
  show "valid_date Y (mp + 2) mday (doy + 59 + (if leap Y then 1 else 0))" if "\<not> mp \<ge> 10"
  proof -
    have "mp = 0 \<or> mp = 1 \<or> mp = 2 \<or> mp = 3 \<or> mp = 4 \<or> mp = 5 \<or> mp = 6 \<or> mp = 7 \<or> mp = 8 \<or> mp = 9"
      using that m(1) by simp presburger
    then show ?thesis using m(2,3) by (elim disjE) (simp_all add: mday_def months)
  qed
qed

lemma first_day: "valid_date y mon mday 0 \<Longrightarrow> mon = 0 \<and> mday = 1"
proof -
  assume v: "valid_date y mon mday 0"
  then have "mon = 0 \<or> mon = 1 \<or> mon = 2 \<or> mon = 3 \<or> mon = 4 \<or> mon = 5 \<or> mon = 6 \<or> mon = 7 \<or> mon = 8 \<or> mon = 9 \<or>
      mon = 10 \<or> mon = 11"
    unfolding valid_date_def by presburger
  with v show ?thesis by (elim disjE) (auto simp: months split: if_splits)
qed

lemma year_start_march: "year_start (Y + 1) = 365 * Y + leaps_to Y + 306 - 719468"
  by (simp add: year_start_def leaps_to_def)

lemma to_int_id: "- (2 ^ 31) \<le> x \<Longrightarrow> x < 2 ^ 31 \<Longrightarrow> to_int x = x"
  by (simp add: to_int_def signed_take_bit_int_eq_self)

definition broken_down :: "int \<Rightarrow> tm \<Rightarrow> bool" where
  "broken_down t tm \<longleftrightarrow>
     valid_date (tm_year tm + 1900) (tm_mon tm) (tm_mday tm) (tm_yday tm) \<and>
     0 \<le> tm_sec tm \<and> tm_sec tm < 60 \<and> 0 \<le> tm_min tm \<and> tm_min tm < 60 \<and> 0 \<le> tm_hour tm \<and> tm_hour tm < 24 \<and>
     t = (year_start (tm_year tm + 1900) + tm_yday tm) * 86400 + tm_hour tm * 3600 + tm_min tm * 60 + tm_sec tm \<and>
     tm_wday tm = (t div 86400 + 4) mod 7"

lemma clock_split:
  fixes sod :: int
  assumes "0 \<le> sod" and "sod < 86400"
  shows "0 \<le> sod smod 60" "sod smod 60 < 60" "0 \<le> (sod sdiv 60) smod 60" "(sod sdiv 60) smod 60 < 60"
    "0 \<le> sod sdiv 3600" "sod sdiv 3600 < 24" "sod = sod sdiv 3600 * 3600 + (sod sdiv 60) smod 60 * 60 + sod smod 60"
proof -
  have 1: "sod sdiv 60 = sod div 60" "sod smod 60 = sod mod 60" "sod sdiv 3600 = sod div 60 div 60"
    using assms by (simp_all add: sdiv_nonneg smod_nonneg zdiv_zmult2_eq [of 60 sod 60, symmetric])
  have 2: "(sod div 60) smod 60 = sod div 60 mod 60"
    using assms by (simp add: smod_nonneg pos_imp_zdiv_nonneg_iff)
  show "0 \<le> sod smod 60" "sod smod 60 < 60" "0 \<le> (sod sdiv 60) smod 60" "(sod sdiv 60) smod 60 < 60"
    unfolding 1 2 by simp_all
  show "0 \<le> sod sdiv 3600" "sod sdiv 3600 < 24" using assms by (simp_all add: sdiv_nonneg pos_imp_zdiv_nonneg_iff)
  show "sod = sod sdiv 3600 * 3600 + (sod sdiv 60) smod 60 * 60 + sod smod 60"
  proof -
    have "(a * 60 + b) * 60 + r = a * 3600 + b * 60 + r" for a b r :: int by simp
    from this [of "sod div 60 div 60" "sod div 60 mod 60" "sod mod 60"] show ?thesis
      unfolding 1 2 div_mult_mod_eq by (rule trans [rotated]) simp
  qed
qed

lemma wday_floor: "(let w = d smod 7 in if w < 0 then w + 7 else w) = d mod (7 :: int)"
  using floor_adjust [of 7 d] by (simp add: Let_def split: if_splits)

lemma leap_smod: "(y smod 4 = 0 \<and> y smod 100 \<noteq> 0) \<or> y smod 400 = 0 \<longleftrightarrow> leap y"
proof -
  have "4 dvd y" if "400 dvd y" using that dvd_trans [of 4 400 y] by simp
  then show ?thesis by (simp only: leap_def smod_0_iff zero_less_numeral) blast
qed

lemma gmtime_r_broken_down:
  assumes "\<bar>t\<bar> \<le> 2 ^ 55"
  shows "broken_down t (gmtime_r t)"
proof -
  define d sod where "d = t div 86400" and "sod = t mod 86400"
  have sod: "0 \<le> sod" "sod < 86400" by (simp_all add: sod_def)
  have td: "t = d * 86400 + sod" by (simp add: d_def sod_def)
  define z where "z = d + 719468"
  define era where "era = z div 146097"
  define doe where "doe = z - era * 146097"
  define yoe where "yoe = (doe - doe div 1460 + doe div 36524 - doe div 146096) div 365"
  define doy where "doy = doe - (365 * yoe + yoe div 4 - yoe div 100)"
  define Y where "Y = yoe + era * 400"
  define mp where "mp = (5 * doy + 2) div 153"
  note defs = era_def doe_def yoe_def doy_def
  note E = era_split [of z, folded era_def, folded doe_def, folded yoe_def, folded doy_def Y_def]
  have doy: "doy \<le> 365" using E(3) by (simp split: if_splits)
  note m = month_of_day [OF E(2) doy, folded mp_def]
  define y where "y = (if mp \<ge> 10 then Y + 1 else Y)"
  have num: "0 \<le> doe - doe div 1460 + doe div 36524 - doe div 146096"
    using E(4) pos_imp_zdiv_nonneg_iff [of 365 "doe - doe div 1460 + doe div 36524 - doe div 146096"] by (simp add: yoe_def)
  have tm: "gmtime_r t =
      \<lparr>tm_sec = sod smod 60, tm_min = (sod sdiv 60) smod 60, tm_hour = sod sdiv 3600,
       tm_mday = to_int (doy - (153 * mp + 2) div 5 + 1),
       tm_mon = to_int (if mp \<ge> 10 then mp - 10 else mp + 2), tm_year = to_int (y - 1900),
       tm_wday = (d + 4) mod 7,
       tm_yday = to_int (if mp \<ge> 10 then doy - 306 else doy + 59 + (if leap y then 1 else 0)),
       tm_isdst = -1\<rparr>"
  proof -
    have floor: "(if t smod 86400 < 0 then (t smod 86400 + 86400, t sdiv 86400 - 1) else (t smod 86400, t sdiv 86400)) = (sod, d)"
      using floor_adjust [of 86400 t] by (simp add: Let_def sod_def d_def)
    have era: "(if 0 \<le> z then z else z - 146096) sdiv 146097 = era"
      using floor_era [of 146097 z] by (cases "0 \<le> z") (simp_all add: era_def)
    have doe: "doe sdiv 1460 = doe div 1460" "doe sdiv 36524 = doe div 36524" "doe sdiv 146096 = doe div 146096"
      using E(5) by (simp_all add: sdiv_nonneg)
    have yoe: "(doe - doe div 1460 + doe div 36524 - doe div 146096) sdiv 365 = yoe"
      using sdiv_nonneg [OF num, of 365] by (simp add: yoe_def)
    have yoe': "yoe sdiv 4 = yoe div 4" "yoe sdiv 100 = yoe div 100"
      using E(4) by (simp_all add: sdiv_nonneg)
    have mp: "(5 * doy + 2) sdiv 153 = mp" "(153 * mp + 2) sdiv 5 = (153 * mp + 2) div 5"
      using E(2) m(1) by (simp_all add: sdiv_nonneg mp_def)
    have wday: "(if (d + 4) smod 7 < 0 then (d + 4) smod 7 + 7 else (d + 4) smod 7) = (d + 4) mod 7"
      using wday_floor [of "d + 4"] by (simp only: Let_def)
    show ?thesis
      unfolding gmtime_r_def Let_def floor prod.case z_def [symmetric] era doe_def [symmetric] doe yoe yoe'
        Y_def [symmetric] doy_def [symmetric] mp wday leap_smod y_def by (rule refl)
  qed
  have yb: "- (2 ^ 31) \<le> y - 1900" "y - 1900 < 2 ^ 31"
    using assms td sod E(4-7) by (simp_all add: y_def Y_def doe_def z_def abs_le_iff)
  have date: "valid_date y (if mp \<ge> 10 then mp - 10 else mp + 2) (doy - (153 * mp + 2) div 5 + 1)
      (if mp \<ge> 10 then doy - 306 else doy + 59 + (if leap y then 1 else 0))"
    using date_of_march_day [OF E(2,3), folded mp_def] by (simp add: y_def)
  have day: "year_start y + (if mp \<ge> 10 then doy - 306 else doy + 59 + (if leap y then 1 else 0)) = d"
    using E(1) year_start_march [of Y] year_start_Suc [of Y]
    by (cases "leap Y") (simp_all add: y_def z_def)
  have small: "to_int (doy - (153 * mp + 2) div 5 + 1) = doy - (153 * mp + 2) div 5 + 1"
      "to_int (if mp \<ge> 10 then mp - 10 else mp + 2) = (if mp \<ge> 10 then mp - 10 else mp + 2)"
      "to_int (if mp \<ge> 10 then doy - 306 else doy + 59 + (if leap y then 1 else 0)) =
        (if mp \<ge> 10 then doy - 306 else doy + 59 + (if leap y then 1 else 0))"
    using m(1) E(2) doy by (auto intro!: to_int_id)
  show ?thesis
    unfolding broken_down_def tm tm.simps small to_int_id [OF yb]
    using date clock_split [OF sod] td by (simp add: day d_def [symmetric])
qed

subsection \<open>From dates to times\<close>

lemma ceiling_div: "x < 0 \<Longrightarrow> 0 < k \<Longrightarrow> x sdiv k = (x + (k - 1)) div (k :: int)"
proof -
  assume x: "x < 0" and k: "0 < k"
  have "(x + (k - 1)) div k = - (- x div k)"
  proof (rule int_div_pos_eq)
    show "x + (k - 1) = k * - (- x div k) + (k - 1 - - x mod k)"
      by (simp add: minus_mod_eq_mult_div [symmetric])
  qed (use k pos_mod_bound [of k "- x"] pos_mod_sign [of k "- x"] in linarith)+
  with x k show ?thesis by (simp add: sdiv_neg)
qed

lemma leap_shift: "(n - 2) smod 4 = 0 \<and> ((n - 30) smod 100 \<noteq> 0 \<or> (n - 30) smod 400 = 0) \<longleftrightarrow> leap (n + 1970)"
proof -
  have "4 dvd n - 2 \<longleftrightarrow> 4 dvd n + 1970" "100 dvd n - 30 \<longleftrightarrow> 100 dvd n + 1970" "400 dvd n - 30 \<longleftrightarrow> 400 dvd n + 1970"
    using dvd_add_times_triv_right_iff [of 4 "n - 2" 493] dvd_add_times_triv_right_iff [of 100 "n - 30" 20]
      dvd_add_times_triv_right_iff [of 400 "n - 30" 5] by (simp_all add: ac_simps)
  then show ?thesis by (simp only: leap_def smod_0_iff zero_less_numeral)
qed

lemma div_shift: "(x + k * j) div k = x div k + j" if "0 < k" for x k j :: int
  using that by simp

lemma leaps_future: "0 \<le> n \<Longrightarrow> (n + 2) sdiv 4 - (n + 70) sdiv 100 + (n + 370) sdiv 400 = leaps_to (n + 1970) - leaps_to 1969"
  using div_shift [of 4 "n + 2" 492] div_shift [of 100 "n + 70" 19] div_shift [of 400 "n + 370" 4]
  by (simp add: sdiv_nonneg leaps_to_def ac_simps)

lemma leaps_past: "n < 0 \<Longrightarrow> (n - 2) sdiv 4 - (n - 30) sdiv 100 + (n - 30) sdiv 400 = leaps_to (n + 1969) - leaps_to 1969"
  using div_shift [of 4 "n + 1" 492] div_shift [of 100 "n + 69" 19] div_shift [of 400 "n + 369" 4]
  by (simp add: ceiling_div leaps_to_def ac_simps)

lemma year_to_time_spec: "year_to_time year = (year_start (year + 1900) * 86400, leap (year + 1900))"
proof -
  define n where "n = year - 70"
  have y: "year + 1900 = n + 1970" by (simp add: n_def)
  have pred: "leaps_to (n + 1969) = leaps_to (n + 1970) - (if leap (n + 1970) then 1 else 0)"
    using leap_count [of "n + 1970"] by (simp add: ac_simps)
  have days: "year_start (n + 1970) = 365 * n + leaps_to (n + 1969) - leaps_to 1969"
    by (simp add: year_start_def add.commute)
  show ?thesis
  proof (cases "n < 0")
    case True
    then show ?thesis
      unfolding year_to_time_def Let_def n_def [symmetric] y leap_shift days
      using leaps_past [OF True] by simp
  next
    case False
    then have "0 \<le> n" by simp
    then show ?thesis
      unfolding year_to_time_def Let_def n_def [symmetric] y leap_shift days pred
      using leaps_future [OF \<open>0 \<le> n\<close>] by (cases "leap (n + 1970)") simp_all
  qed
qed

text \<open>C23: breaking down a time gives a date of the Gregorian calendar, before and after 1970: the month and
  the day of the month exist in that year, the day of the year and of the week belong to them, and the
  days since the epoch and the time of day add up to the time again, as long as the year fits the
  structure.\<close>

theorem gmtime_correct:
  assumes "\<bar>t\<bar> \<le> 2 ^ 55"
  shows "broken_down t (gmtime_r t)"
  by (rule gmtime_r_broken_down [OF assms])

theorem gmtime_correct_witness: "broken_down (- 86401) (gmtime_r (- 86401))"
  using gmtime_correct [of "- 86401"] by simp

text \<open>C12: \<open>mktime\<close> takes the broken-down form of a time back to that time.\<close>

theorem mktime_gmtime:
  assumes "\<bar>t\<bar> \<le> 2 ^ 55"
  shows "mktime (gmtime_r t) = t"
proof -
  define tm where "tm = gmtime_r t"
  have B: "broken_down t tm" unfolding tm_def by (rule gmtime_r_broken_down [OF assms])
  have zero: "date_to_time (tm_mon tm) (tm_mday tm) l = 0" if yday: "tm_yday tm = 0" for l
    using B yday first_day [of "tm_year tm + 1900" "tm_mon tm" "tm_mday tm"]
    by (simp add: broken_down_def date_to_time_def)
  have "t = (year_start (tm_year tm + 1900) + tm_yday tm) * 86400 + tm_hour tm * 3600 + tm_min tm * 60 + tm_sec tm"
    using B by (simp add: broken_down_def)
  then show ?thesis
    unfolding tm_def [symmetric] mktime_def year_to_time_spec Let_def prod.case using zero by simp
qed

theorem mktime_gmtime_witness: "mktime (gmtime_r 951782400) = 951782400"
  using mktime_gmtime [of 951782400] by simp

end
