(* ===== verification/DList.thy ===== *)
theory DList
  imports Prelude
begin

text \<open>
  The doubly linked lists of the kernel (\<open>APPEND_DOUBLE_LINKED_LIST\<close> and \<open>UNLINK_DOUBLE_LINKED_LIST\<close> of
  \<open>src/src/include/kernel.h\<close>): the head's \<open>prev\<close> is the last item, the last item's \<open>next\<close> is NULL. The
  macros assign to the list head, so they return it with the heap.
\<close>

record dnode =
  dprev :: ptr
  dnext :: ptr

type_synonym dheap = "ptr \<rightharpoonup> dnode"

definition UNLINK_DOUBLE_LINKED_LIST :: "dheap \<Rightarrow> ptr \<Rightarrow> ptr \<Rightarrow> (dheap \<times> ptr) option" where
  "UNLINK_DOUBLE_LINKED_LIST h item list = do {
     n \<leftarrow> h item;
     h \<leftarrow> (if dnext n \<noteq> NULL then upd h (dnext n) (\<lambda>m. m\<lparr>dprev := dprev n\<rparr>)
          else upd h list (\<lambda>m. m\<lparr>dprev := dprev n\<rparr>));
     n \<leftarrow> h item;
     if item \<noteq> list then do {
       h \<leftarrow> upd h (dprev n) (\<lambda>m. m\<lparr>dnext := dnext n\<rparr>);
       Some (h, list) }
     else Some (h, dnext n) }"

definition APPEND_DOUBLE_LINKED_LIST :: "dheap \<Rightarrow> ptr \<Rightarrow> ptr \<Rightarrow> (dheap \<times> ptr) option" where
  "APPEND_DOUBLE_LINKED_LIST h item list = do {
     h \<leftarrow> upd h item (\<lambda>m. m\<lparr>dnext := NULL\<rparr>);
     if list = NULL then do {
       h \<leftarrow> upd h item (\<lambda>m. m\<lparr>dprev := item\<rparr>);
       Some (h, item) }
     else do {
       l \<leftarrow> h list;
       h \<leftarrow> upd h item (\<lambda>m. m\<lparr>dprev := dprev l\<rparr>);
       l \<leftarrow> h list;
       h \<leftarrow> upd h (dprev l) (\<lambda>m. m\<lparr>dnext := item\<rparr>);
       h \<leftarrow> upd h list (\<lambda>m. m\<lparr>dprev := item\<rparr>);
       Some (h, list) } }"

subsection \<open>The list a heap represents\<close>

fun links :: "dheap \<Rightarrow> ptr \<Rightarrow> ptr list \<Rightarrow> ptr \<Rightarrow> bool" where
  "links h pr [] nx = True"
| "links h pr (x # xs) nx \<longleftrightarrow>
     h x = Some \<lparr>dprev = pr, dnext = (case xs of [] \<Rightarrow> nx | y # _ \<Rightarrow> y)\<rparr> \<and> links h x xs nx"

definition dlist :: "dheap \<Rightarrow> ptr \<Rightarrow> ptr list \<Rightarrow> bool" where
  "dlist h p xs \<longleftrightarrow> distinct xs \<and> NULL \<notin> set xs \<and>
     (if xs = [] then p = NULL else p = hd xs \<and> links h (last xs) xs NULL)"

lemma links_other: "x \<notin> set xs \<Longrightarrow> links (h(x := v)) pr xs nx \<longleftrightarrow> links h pr xs nx"
  by (induction xs arbitrary: pr) auto

lemma links_append:
  "links h pr (xs @ ys) nx \<longleftrightarrow>
     links h pr xs (case ys of [] \<Rightarrow> nx | y # _ \<Rightarrow> y) \<and> links h (if xs = [] then pr else last xs) ys nx"
  by (induction xs arbitrary: pr) (auto split: list.splits)

lemma links_dom: "links h pr xs nx \<Longrightarrow> x \<in> set xs \<Longrightarrow> x \<in> dom h"
  by (induction xs arbitrary: pr) auto

lemma links_set_next: "links h pr xs nx \<Longrightarrow> xs \<noteq> [] \<Longrightarrow> distinct xs \<Longrightarrow> h (last xs) = Some n \<Longrightarrow>
    links (h(last xs \<mapsto> n\<lparr>dnext := nx'\<rparr>)) pr xs nx'"
proof (induction xs arbitrary: pr)
  case (Cons x xs)
  show ?case
  proof (cases xs)
    case Nil
    with Cons.prems show ?thesis by auto
  next
    case (Cons y ys)
    then have "x \<noteq> last xs" "last (x # xs) = last xs" using Cons.prems(3) by auto
    note ne = this
    define h' where "h' = h(last xs \<mapsto> n\<lparr>dnext := nx'\<rparr>)"
    have "links h' x xs nx'"
      unfolding h'_def using Cons.prems Cons by (intro Cons.IH) simp_all
    moreover have "h' x = Some \<lparr>dprev = pr, dnext = y\<rparr>"
      using Cons.prems(1) Cons \<open>x \<noteq> last xs\<close> by (simp add: h'_def)
    ultimately have "links h' pr (x # xs) nx'" using Cons by simp
    then show ?thesis using \<open>last (x # xs) = last xs\<close> by (simp only: h'_def)
  qed
qed simp

lemma links_set_prev: "links h pr (x # xs) nx \<Longrightarrow> x \<notin> set xs \<Longrightarrow> h x = Some n \<Longrightarrow>
    links (h(x \<mapsto> n\<lparr>dprev := pr'\<rparr>)) pr' (x # xs) nx"
  by (auto simp: links_other)

text \<open>C30: appending puts the item at the end of the list, whether it was empty or not, and changes no
  other object.\<close>

theorem dlist_append:
  assumes "dlist h p xs" and "item \<in> dom h" and "item \<notin> set xs" and "item \<noteq> NULL"
  shows "\<exists>h' p'. APPEND_DOUBLE_LINKED_LIST h item p = Some (h', p') \<and> dlist h' p' (xs @ [item]) \<and>
    (\<forall>q. q \<notin> set (item # xs) \<longrightarrow> h' q = h q)"
proof (cases "xs = []")
  case True
  with assms show ?thesis by (auto simp: APPEND_DOUBLE_LINKED_LIST_def dlist_def)
next
  case False
  obtain pr nx where n: "h item = Some \<lparr>dprev = pr, dnext = nx\<rparr>" using assms(2) by (metis domD dnode.cases_scheme old.unit.exhaust)
  obtain x ys where xs: "xs = x # ys" using False by (cases xs) auto
  define z where "z = last xs"
  have p: "p = x" and L: "links h z xs NULL" and d: "distinct xs" "NULL \<notin> set xs"
    using assms(1) False xs by (simp_all add: dlist_def z_def)
  have z: "z \<in> set xs" "x \<in> set xs" using xs by (simp_all add: z_def)
  then have ne: "item \<noteq> x" "item \<noteq> z" "x \<noteq> NULL" using assms(3) d(2) by metis+
  have hx: "h x = Some \<lparr>dprev = z, dnext = (case ys of [] \<Rightarrow> NULL | y # _ \<Rightarrow> y)\<rparr>" using L xs by simp
  let ?h1 = "h(item \<mapsto> \<lparr>dprev = z, dnext = NULL\<rparr>)"
  have L1: "links ?h1 z xs NULL" using L assms(3) by (simp add: links_other)
  obtain l where l: "?h1 z = Some l" using links_dom [OF L1 z(1)] by blast
  let ?h2 = "?h1(z \<mapsto> l\<lparr>dnext := item\<rparr>)"
  have L2: "links ?h2 z xs item"
    using links_set_next [OF L1 False d(1), folded z_def, OF l] .
  obtain k where k: "?h2 x = Some k" using links_dom [OF L2 z(2)] by blast
  let ?h3 = "?h2(x \<mapsto> k\<lparr>dprev := item\<rparr>)"
  have L3: "links ?h3 item xs item"
    unfolding xs by (rule links_set_prev [OF L2 [unfolded xs] _ k]) (use d(1) xs in simp)
  have "APPEND_DOUBLE_LINKED_LIST h item p = Some (?h3, p)"
    using n hx ne p l k by (cases "x = z") (auto simp: APPEND_DOUBLE_LINKED_LIST_def)
  moreover have "?h3 item = Some \<lparr>dprev = z, dnext = NULL\<rparr>" using ne by simp
  with L3 have "links ?h3 item (xs @ [item]) NULL" using False by (simp add: links_append z_def del: fun_upd_apply)
  then have "dlist ?h3 p (xs @ [item])"
    using d assms(3,4) p False unfolding dlist_def by (simp add: hd_append xs [THEN arg_cong [of _ _ hd]] del: links.simps)
  moreover have "\<forall>q. q \<notin> set (item # xs) \<longrightarrow> ?h3 q = h q" using z by auto
  ultimately show ?thesis by blast
qed

definition two_items :: dheap where
  "two_items = [8 \<mapsto> \<lparr>dprev = 9, dnext = 9\<rparr>, 9 \<mapsto> \<lparr>dprev = 8, dnext = 0\<rparr>, 7 \<mapsto> \<lparr>dprev = 0, dnext = 0\<rparr>]"

lemma two_items: "dlist two_items 8 [8, 9]"
  by (simp add: dlist_def two_items_def)

theorem dlist_append_witness:
  "\<exists>h' p'. APPEND_DOUBLE_LINKED_LIST two_items 7 8 = Some (h', p') \<and> dlist h' p' ([8, 9] @ [7])"
  using dlist_append [OF two_items, of 7] by (auto simp: two_items_def)

text \<open>C29: unlinking removes exactly the given item, at the head, at the end or in between.\<close>

theorem dlist_unlink:
  assumes "dlist h p (as @ item # bs)"
  shows "\<exists>h' p'. UNLINK_DOUBLE_LINKED_LIST h item p = Some (h', p') \<and> dlist h' p' (as @ bs) \<and>
    (\<forall>q. q \<notin> set (as @ item # bs) \<longrightarrow> h' q = h q)"
proof -
  define z where "z = last (as @ item # bs)"
  have d: "distinct (as @ item # bs)" "NULL \<notin> set (as @ item # bs)"
    and L: "links h z (as @ item # bs) NULL" and p: "p = hd (as @ item # bs)"
    using assms by (simp_all add: dlist_def z_def)
  have La: "links h z as item" and Lb: "links h item bs NULL"
    and it: "h item = Some \<lparr>dprev = (if as = [] then z else last as), dnext = (case bs of [] \<Rightarrow> NULL | y # _ \<Rightarrow> y)\<rparr>"
    using L by (auto simp: links_append)
  show ?thesis
  proof (cases as rule: rev_cases)
    case Nil
    show ?thesis
    proof (cases bs)
      case Nil
      then show ?thesis using \<open>as = []\<close> d it p by (simp add: UNLINK_DOUBLE_LINKED_LIST_def dlist_def)
    next
      case (Cons b cs)
      let ?h = "h(b \<mapsto> \<lparr>dprev = z, dnext = (case cs of [] \<Rightarrow> NULL | y # _ \<Rightarrow> y)\<rparr>)"
      have "links ?h z bs NULL" using Lb d Cons by (simp add: links_other)
      moreover have "z = last bs" using Cons by (simp add: z_def)
      moreover have "UNLINK_DOUBLE_LINKED_LIST h item p = Some (?h, b)"
        using Nil Cons d it p Lb by (auto simp: UNLINK_DOUBLE_LINKED_LIST_def)
      ultimately show ?thesis using Nil Cons d by (auto simp: dlist_def)
    qed
  next
    case (snoc as' a)
    then have ne: "as \<noteq> []" and last: "last as = a" and a: "a \<in> set as" "a \<noteq> item" "a \<notin> set bs"
      using d by auto
    obtain x xs where x: "as = x # xs" using ne by (cases as) auto
    have px: "p = x" "x \<noteq> item" "x \<noteq> NULL" "item \<notin> set as" using p d x by auto
    show ?thesis
    proof (cases bs)
      case Nil
      obtain k where k: "h x = Some k" using La x by simp
      define h1 where "h1 = h(x \<mapsto> k\<lparr>dprev := a\<rparr>)"
      have L1: "links h1 a as item"
        unfolding h1_def x by (rule links_set_prev [OF La [unfolded x] _ k]) (use d x in simp)
      obtain l where l: "h1 a = Some l" using links_dom [OF L1 a(1)] by blast
      have L2: "links (h1(a \<mapsto> l\<lparr>dnext := NULL\<rparr>)) a as NULL"
        using links_set_next [OF L1 ne, unfolded last, OF _ l] d by simp
      have "h1 item = h item" using px by (simp add: h1_def)
      then have "UNLINK_DOUBLE_LINKED_LIST h item p = Some (h1(a \<mapsto> l\<lparr>dnext := NULL\<rparr>), p)"
        using it Nil ne last px k l by (simp add: UNLINK_DOUBLE_LINKED_LIST_def h1_def [symmetric])
      moreover have "\<forall>q. q \<notin> set (as @ item # bs) \<longrightarrow> (h1(a \<mapsto> l\<lparr>dnext := NULL\<rparr>)) q = h q"
        using a x by (auto simp: h1_def)
      ultimately show ?thesis using L2 Nil d px last x by (auto simp: dlist_def simp del: links.simps)
    next
      case (Cons b cs)
      obtain k where k: "h b = Some k" using Lb Cons by simp
      define h1 where "h1 = h(b \<mapsto> k\<lparr>dprev := a\<rparr>)"
      have b: "b \<noteq> item" "b \<notin> set as" "b \<noteq> NULL" "b \<noteq> a" using d Cons a by auto
      have L1: "links h1 a bs NULL"
        unfolding h1_def Cons by (rule links_set_prev [OF Lb [unfolded Cons] _ k]) (use d Cons in simp)
      have La1: "links h1 z as item" using La b by (simp add: h1_def links_other)
      obtain l where l: "h1 a = Some l" using links_dom [OF La1 a(1)] by blast
      have L2: "links (h1(a \<mapsto> l\<lparr>dnext := b\<rparr>)) z as b"
        using links_set_next [OF La1 ne, unfolded last, OF _ l] d by simp
      have L3: "links (h1(a \<mapsto> l\<lparr>dnext := b\<rparr>)) a bs NULL" using L1 a(3) by (simp add: links_other)
      have "links (h1(a \<mapsto> l\<lparr>dnext := b\<rparr>)) z (as @ bs) NULL"
        using L2 L3 ne last Cons by (simp add: links_append del: links.simps)
      moreover have "z = last (as @ bs)" using Cons by (simp add: z_def)
      moreover have "h1 item = h item" using b by (simp add: h1_def)
      then have "UNLINK_DOUBLE_LINKED_LIST h item p = Some (h1(a \<mapsto> l\<lparr>dnext := b\<rparr>), p)"
        using it Cons ne last px k l b by (simp add: UNLINK_DOUBLE_LINKED_LIST_def h1_def [symmetric])
      moreover have "\<forall>q. q \<notin> set (as @ item # bs) \<longrightarrow> (h1(a \<mapsto> l\<lparr>dnext := b\<rparr>)) q = h q"
        using a Cons by (auto simp: h1_def)
      ultimately show ?thesis using d px x by (auto simp: dlist_def simp del: links.simps)
    qed
  qed
qed

theorem dlist_unlink_witness:
  "\<exists>h' p'. UNLINK_DOUBLE_LINKED_LIST two_items 8 8 = Some (h', p') \<and> dlist h' p' ([] @ [9])"
  using dlist_unlink [of two_items 8 "[]" 8 "[9]"] two_items by auto

end
