(* ===== verification/Kalloc.thy ===== *)
theory Kalloc
  imports Prelude
begin

text \<open>
  The kernel heap (\<open>src/src/mm/kalloc.c\<close>), a buddy allocator. The two bitmaps are arrays of 32-bit
  words. A bucket is the list of the free blocks of its order, in the order of the code's doubly
  linked list, whose macros are verified in \<open>DList\<close>: taking the head, appending at the end, and
  unlinking an item, which is undefined for an item that is not in the list. Heap pages are mapped
  on demand; whether the page of an address is or can be mapped is the argument \<open>mappable\<close>, and
  \<open>None\<close> is a failed assertion. Each operation is one step, as it is under \<open>kalloc_lock\<close>. The loop at
  the end of \<open>kalloc\<close> that populates the pages of the returned block, whose result the code does not
  test, and the optional poisoning of blocks are left out; of the copy in \<open>krealloc\<close> the model keeps
  the number of bytes. Subtracting the base of the heap from a pointer is exact for pointers into the
  heap; below it the code wraps around and the model does not.
\<close>

definition NORDER :: nat where
  "NORDER = 20"

definition MIN_ORDER :: nat where
  "MIN_ORDER = 6"

definition MAX_ORDER :: nat where
  "MAX_ORDER = 25"

definition MAX_ALLOC :: nat where
  "MAX_ALLOC = 2 ^ MAX_ORDER"

definition KERNEL_HEAP_BASE :: ptr where
  "KERNEL_HEAP_BASE = 0x05000000"

record kheap =
  used_bitmap :: "u32 list"
  split_bitmap :: "u32 list"
  buckets :: "ptr list list"
  free_mem :: u32

definition kalloc_prepare :: kheap where
  "kalloc_prepare =
     \<lparr>used_bitmap = replicate (2 ^ 14) 0, split_bitmap = replicate (2 ^ 14) 0,
      buckets = replicate (NORDER - 1) [] @ [[KERNEL_HEAP_BASE]], free_mem = 2 ^ 25\<rparr>"

definition bm_get :: "u32 list \<Rightarrow> nat \<Rightarrow> bool" where
  "bm_get bm idx \<longleftrightarrow> bm ! (idx div 32) AND push_bit (idx mod 32) 1 \<noteq> 0"

definition bm_set :: "u32 list \<Rightarrow> nat \<Rightarrow> bool \<Rightarrow> u32 list" where
  "bm_set bm idx val =
     (let bm = bm[idx div 32 := bm ! (idx div 32) AND NOT (push_bit (idx mod 32) 1)]
      in bm[idx div 32 := bm ! (idx div 32) OR push_bit (idx mod 32) (of_bool val)])"

definition bm_toggle :: "u32 list \<Rightarrow> nat \<Rightarrow> u32 list \<times> bool" where
  "bm_toggle bm idx =
     (let bm = bm[idx div 32 := bm ! (idx div 32) XOR push_bit (idx mod 32) 1]
      in (bm, bm ! (idx div 32) AND push_bit (idx mod 32) 1 \<noteq> 0))"

definition get_idx_in_lvl :: "ptr \<Rightarrow> nat \<Rightarrow> nat" where
  "get_idx_in_lvl block order = (block - KERNEL_HEAP_BASE) div (2 ^ MAX_ORDER div 2 ^ (NORDER - 1 - order))"

definition get_idx :: "ptr \<Rightarrow> nat \<Rightarrow> nat" where
  "get_idx block order = 2 ^ (NORDER - 1 - order) - 1 + get_idx_in_lvl block order"

definition get_order :: "kheap \<Rightarrow> ptr \<Rightarrow> nat" where
  "get_order s block =
     (case find (\<lambda>i. bm_get (split_bitmap s) (get_idx block (i + 1))) [0..<NORDER - 1] of
        Some i \<Rightarrow> i
      | None \<Rightarrow> NORDER - 1)"

definition toggle_used :: "kheap \<Rightarrow> nat \<Rightarrow> kheap" where
  "toggle_used s idx = s\<lparr>used_bitmap := fst (bm_toggle (used_bitmap s) idx)\<rparr>"

definition split_block :: "kheap \<Rightarrow> ptr \<Rightarrow> nat \<Rightarrow> kheap" where
  "split_block s block order =
     (let s = (if order < NORDER - 1 then toggle_used s (get_idx block (order + 1)) else s)
      in s\<lparr>split_bitmap := bm_set (split_bitmap s) (get_idx block order) True\<rparr>)"

definition bucket_append :: "kheap \<Rightarrow> ptr \<Rightarrow> nat \<Rightarrow> kheap" where
  "bucket_append s block i = s\<lparr>buckets := (buckets s)[i := buckets s ! i @ [block]]\<rparr>"

definition bucket_unlink :: "kheap \<Rightarrow> ptr \<Rightarrow> nat \<Rightarrow> kheap option" where
  "bucket_unlink s block i =
     (if block \<in> set (buckets s ! i) then Some (s\<lparr>buckets := (buckets s)[i := remove1 block (buckets s ! i)]\<rparr>)
      else None)"

definition bucket_pop :: "kheap \<Rightarrow> nat \<Rightarrow> ptr \<times> kheap" where
  "bucket_pop s i = (hd (buckets s ! i), s\<lparr>buckets := (buckets s)[i := tl (buckets s ! i)]\<rparr>)"

fun carve :: "(ptr \<Rightarrow> bool) \<Rightarrow> kheap \<Rightarrow> ptr \<Rightarrow> nat \<Rightarrow> nat \<Rightarrow> kheap option" where
  "carve mappable s block 0 order = Some s"
| "carve mappable s block (Suc j) order =
     (if Suc j > order then
        let s = split_block s block (Suc j); tgt = block + 2 ^ (MIN_ORDER + j)
        in if mappable tgt then carve mappable (bucket_append s tgt j) block j order else None
      else Some s)"

fun ilog2 :: "nat \<Rightarrow> nat" where
  "ilog2 n = (if n < 2 then 0 else Suc (ilog2 (n div 2)))"

declare ilog2.simps [simp del]

definition size_order :: "nat \<Rightarrow> nat" where
  "size_order sz =
     (let order = ilog2 sz;
          order = (if sz mod 2 ^ order \<noteq> 0 then order + 1 else order)
      in (if order < MIN_ORDER then MIN_ORDER else order) - MIN_ORDER)"

definition take_block :: "kheap \<Rightarrow> ptr \<Rightarrow> nat \<Rightarrow> kheap" where
  "take_block s block order =
     (let s = (if order < NORDER - 1 then toggle_used s (get_idx block (order + 1)) else s)
      in s\<lparr>free_mem := free_mem s - 2 ^ (order + MIN_ORDER)\<rparr>)"

definition kalloc :: "(ptr \<Rightarrow> bool) \<Rightarrow> kheap \<Rightarrow> nat \<Rightarrow> (kheap \<times> ptr) option" where
  "kalloc mappable s sz =
     (if sz = 0 \<or> sz > MAX_ALLOC then Some (s, NULL)
      else let order = size_order sz
           in case find (\<lambda>i. buckets s ! i \<noteq> []) [order..<NORDER] of
                None \<Rightarrow> Some (s, NULL)
              | Some i \<Rightarrow> do {
                  let (block, s) = bucket_pop s i;
                  s \<leftarrow> carve mappable s block i order;
                  Some (take_block s block order, block) })"

function free_loop :: "kheap \<Rightarrow> ptr \<Rightarrow> nat \<Rightarrow> kheap option" where
  "free_loop s p i =
     (let (used, other) = bm_toggle (used_bitmap s) (get_idx p (i + 1))
      in if i \<ge> NORDER - 1 then
           Some ((bucket_append s p i)\<lparr>free_mem := free_mem s + 2 ^ (i + MIN_ORDER)\<rparr>)
         else if other then
           Some ((bucket_append (s\<lparr>used_bitmap := used\<rparr>) p i)\<lparr>free_mem := free_mem s + 2 ^ (i + MIN_ORDER)\<rparr>)
         else let s = s\<lparr>used_bitmap := used, split_bitmap := bm_set (split_bitmap s) (get_idx p (i + 1)) False\<rparr>
              in if get_idx_in_lvl p i mod 2 = 1 then do {
                   s \<leftarrow> bucket_unlink s (p - 2 ^ (MIN_ORDER + i)) i;
                   free_loop s (p - 2 ^ (MIN_ORDER + i)) (i + 1) }
                 else do {
                   s \<leftarrow> bucket_unlink s (p + 2 ^ (MIN_ORDER + i)) i;
                   free_loop s p (i + 1) })"
  by pat_completeness auto
termination
  by (relation "measure (\<lambda>(s, p, i). NORDER - i)") (auto simp: NORDER_def)

declare free_loop.simps [simp del]

definition kfree :: "kheap \<Rightarrow> ptr \<Rightarrow> kheap option" where
  "kfree s p =
     (if p = NULL then Some s
      else if (p - KERNEL_HEAP_BASE) mod 2 ^ MIN_ORDER \<noteq> 0 then None
      else let order = get_order s p
           in if (p - KERNEL_HEAP_BASE) mod 2 ^ (MIN_ORDER + order) \<noteq> 0 then None
              else free_loop s p order)"

definition krealloc :: "(ptr \<Rightarrow> bool) \<Rightarrow> kheap \<Rightarrow> ptr \<Rightarrow> nat \<Rightarrow> (kheap \<times> ptr \<times> nat) option" where
  "krealloc mappable s p sz =
     (if sz = 0 then do { s \<leftarrow> kfree s p; Some (s, NULL, 0) }
      else if p = NULL then do { (s, q) \<leftarrow> kalloc mappable s sz; Some (s, q, 0) }
      else let new_order = size_order sz; old_order = get_order s p; old_size = 2 ^ (MIN_ORDER + old_order)
           in if old_order = new_order then Some (s, p, 0)
              else do {
                (s, new_chunk) \<leftarrow> kalloc mappable s sz;
                if new_chunk = NULL then Some (s, NULL, 0)
                else do {
                  s \<leftarrow> kfree s p;
                  Some (s, new_chunk, if old_size > sz then sz else old_size) } })"

lemmas heap_consts = NORDER_def MIN_ORDER_def MAX_ORDER_def

subsection \<open>Bitmaps\<close>

lemma bm_get_bit: "bm_get bm i \<longleftrightarrow> bit (bm ! (i div 32)) (i mod 32)"
  by (simp add: bm_get_def and_exp_eq_0_iff_not_bit)

lemma same_bit: "i div 32 = j div 32 \<Longrightarrow> i mod 32 = j mod 32 \<Longrightarrow> i = (j :: nat)"
  by (metis div_mult_mod_eq)

lemma bit_set_word:
  fixes w :: u32
  assumes "m < 32" and "n < 32"
  shows "bit ((w AND NOT (push_bit m 1)) OR push_bit m (of_bool v)) n = (if n = m then v else bit w n)"
  using assms by (cases v) (simp_all add: bit_and_iff bit_or_iff bit_not_iff bit_exp_iff)

lemma bm_get_set:
  assumes "i < 32 * length bm"
  shows "bm_get (bm_set bm i v) j = (if j = i then v else bm_get bm j)" and "length (bm_set bm i v) = length bm"
proof -
  have i: "i div 32 < length bm" using assms by auto
  show "length (bm_set bm i v) = length bm" by (simp add: bm_set_def Let_def)
  show "bm_get (bm_set bm i v) j = (if j = i then v else bm_get bm j)"
  proof (cases "j div 32 = i div 32")
    case True
    then have "j = i \<longleftrightarrow> j mod 32 = i mod 32" using same_bit by blast
    with True i show ?thesis
      unfolding bm_get_bit bm_set_def Let_def by (simp only: nth_list_update_eq length_list_update bit_set_word mod_less_divisor zero_less_numeral)
  next
    case False
    then have "j \<noteq> i" by auto
    with False show ?thesis unfolding bm_get_bit bm_set_def Let_def by simp
  qed
qed

lemma bm_toggle_spec:
  assumes "i < 32 * length bm"
  shows "snd (bm_toggle bm i) \<longleftrightarrow> \<not> bm_get bm i" and "length (fst (bm_toggle bm i)) = length bm"
    and "j < 32 * length bm \<Longrightarrow> bm_get (fst (bm_toggle bm i)) j \<longleftrightarrow> bm_get bm j \<noteq> (j = i)"
proof -
  have i: "i div 32 < length bm" using assms by auto
  show "length (fst (bm_toggle bm i)) = length bm" by (simp add: bm_toggle_def Let_def)
  show 1: "bm_get (fst (bm_toggle bm i)) j \<longleftrightarrow> bm_get bm j \<noteq> (j = i)" if "j < 32 * length bm" for j
    using i same_bit [of i j] unfolding bm_get_bit bm_toggle_def Let_def
    by (cases "i div 32 = j div 32"; cases "i mod 32 = j mod 32") (auto simp: nth_list_update bit_xor_iff bit_exp_iff)
  show "snd (bm_toggle bm i) \<longleftrightarrow> \<not> bm_get bm i"
    using 1 [OF assms] by (simp add: bm_toggle_def bm_get_def Let_def)
qed

end
