(* ===== verification/Buddy.thy ===== *)
theory Buddy
  imports Kalloc
begin

text \<open>
  The invariant of the kernel heap and its consequences. A node \<open>(o, k)\<close> of the buddy tree is the \<open>k\<close>-th
  block of order \<open>o\<close>. The heap is described by three sets of nodes, the free, the allocated and the
  split ones; the bitmaps and the buckets represent them. The bit of a split node in the bitmap
  \<open>used_bitmap\<close> says whether exactly one of its halves is free; \<open>P\<close> holds the nodes whose bit is
  momentarily wrong, between taking a block out of a bucket and the toggle that accounts for it.
\<close>

type_synonym node = "nat \<times> nat"

definition valid :: "node \<Rightarrow> bool" where
  "valid n \<longleftrightarrow> fst n < NORDER \<and> snd n < 2 ^ (19 - fst n)"

definition addr :: "node \<Rightarrow> ptr" where
  "addr n = KERNEL_HEAP_BASE + snd n * 2 ^ (MIN_ORDER + fst n)"

definition node_idx :: "node \<Rightarrow> nat" where
  "node_idx n = 2 ^ (19 - fst n) - 1 + snd n"

definition parent :: "node \<Rightarrow> node" where
  "parent n = (fst n + 1, snd n div 2)"

definition left :: "node \<Rightarrow> node" where
  "left n = (fst n - 1, 2 * snd n)"

definition right :: "node \<Rightarrow> node" where
  "right n = (fst n - 1, 2 * snd n + 1)"

definition buddy :: "node \<Rightarrow> node" where
  "buddy n = (fst n, if even (snd n) then snd n + 1 else snd n - 1)"

definition buddy_wf :: "node set \<Rightarrow> node set \<Rightarrow> node set \<Rightarrow> bool" where
  "buddy_wf F A S \<longleftrightarrow>
     (\<forall>n \<in> F \<union> A \<union> S. valid n \<and> (fst n < 19 \<longrightarrow> parent n \<in> S)) \<and>
     F \<inter> A = {} \<and> F \<inter> S = {} \<and> A \<inter> S = {} \<and>
     (\<forall>n \<in> S. 0 < fst n \<and> left n \<in> F \<union> A \<union> S \<and> right n \<in> F \<union> A \<union> S) \<and>
     (\<forall>n \<in> F. fst n < 19 \<longrightarrow> buddy n \<notin> F)"

definition used_bit :: "node set \<Rightarrow> node set \<Rightarrow> node \<Rightarrow> bool" where
  "used_bit F S n \<longleftrightarrow> n \<in> S \<and> (left n \<in> F) \<noteq> (right n \<in> F)"

definition heap_rel :: "kheap \<Rightarrow> node set \<Rightarrow> node set \<Rightarrow> node set \<Rightarrow> node set \<Rightarrow> bool" where
  "heap_rel s F A S P \<longleftrightarrow> buddy_wf F A S \<and>
     length (used_bitmap s) = 2 ^ 14 \<and> length (split_bitmap s) = 2 ^ 14 \<and> length (buckets s) = NORDER \<and>
     (\<forall>n. valid n \<and> 0 < fst n \<longrightarrow>
        bm_get (split_bitmap s) (node_idx n) = (n \<in> S) \<and>
        bm_get (used_bitmap s) (node_idx n) = (used_bit F S n \<noteq> (n \<in> P))) \<and>
     (\<forall>i < NORDER. distinct (buckets s ! i) \<and> set (buckets s ! i) = {addr n | n. n \<in> F \<and> fst n = i})"

subsection \<open>Addresses and indices\<close>

lemma valid_le: "valid n \<Longrightarrow> fst n \<le> 19" and valid_lt: "valid n \<Longrightarrow> snd n < 2 ^ (19 - fst n)"
  by (auto simp: valid_def NORDER_def)

lemma node_idx_bound: "valid n \<Longrightarrow> 0 < fst n \<Longrightarrow> node_idx n < 2 ^ 19"
proof -
  assume v: "valid n" "0 < fst n"
  have "(2::nat) ^ (19 - fst n) * 2 \<le> 2 ^ 18 * 2"
    using v(2) by (intro mult_right_mono power_increasing) auto
  with valid_lt [OF v(1)] show ?thesis by (simp add: node_idx_def)
qed

lemma node_idx_inj:
  assumes "valid n" and "valid m" and "node_idx n = node_idx m"
  shows "n = m"
proof -
  have less: False if "valid n" "valid m" "node_idx n = node_idx m" "fst m < fst n" for n m
  proof -
    have "19 - fst n + 1 \<le> 19 - fst m" using that(4) valid_le [OF that(1)] by linarith
    then have "(2::nat) ^ (19 - fst n + 1) \<le> 2 ^ (19 - fst m)" by (rule power_increasing) simp
    then have "2 * (2::nat) ^ (19 - fst n) \<le> 2 ^ (19 - fst m)" by simp
    moreover have "snd n < 2 ^ (19 - fst n)" using that(1) by (simp add: valid_def)
    ultimately show False using that(3) unfolding node_idx_def by linarith
  qed
  have "fst n = fst m" using less [of n m] less [of m n] assms by (metis nat_neq_iff)
  with assms(3) show ?thesis by (simp only: node_idx_def add_left_cancel prod_eq_iff)
qed

lemma level_size: "i \<le> 19 \<Longrightarrow> 2 ^ MAX_ORDER div 2 ^ (19 - i) = (2::nat) ^ (MIN_ORDER + i)"
proof -
  assume i: "i \<le> 19"
  have "MAX_ORDER = (MIN_ORDER + i) + (19 - i)" using i by (simp add: heap_consts)
  then have "(2::nat) ^ MAX_ORDER = 2 ^ (MIN_ORDER + i) * 2 ^ (19 - i)" by (metis power_add)
  then show ?thesis by simp
qed

lemma get_idx_in_lvl_addr: "valid n \<Longrightarrow> get_idx_in_lvl (addr n) (fst n) = snd n"
  using level_size [OF valid_le, of n] by (simp add: get_idx_in_lvl_def addr_def NORDER_def)

lemma get_idx_addr: "valid n \<Longrightarrow> get_idx (addr n) (fst n) = node_idx n"
  by (simp add: get_idx_def get_idx_in_lvl_addr node_idx_def NORDER_def)

lemma addr_up: "i \<le> 19 \<Longrightarrow> fst n \<le> i \<Longrightarrow> get_idx (addr n) i = node_idx (i, snd n div 2 ^ (i - fst n))"
proof -
  assume i: "i \<le> 19" "fst n \<le> i"
  have "(2::nat) ^ (MIN_ORDER + i) = 2 ^ (MIN_ORDER + fst n) * 2 ^ (i - fst n)" using i by (simp flip: power_add)
  then have "snd n * 2 ^ (MIN_ORDER + fst n) div 2 ^ (MIN_ORDER + i) = snd n div 2 ^ (i - fst n)"
    by (simp only: mult.commute [of "snd n"] div_mult_mult1 [OF power_not_zero [OF zero_neq_numeral [symmetric]]])
  then show ?thesis using i by (simp add: get_idx_def get_idx_in_lvl_def addr_def level_size node_idx_def NORDER_def)
qed

lemma addr_down: "fst n \<le> 19 \<Longrightarrow> i \<le> fst n \<Longrightarrow> get_idx (addr n) i = node_idx (i, snd n * 2 ^ (fst n - i))"
proof -
  assume i: "fst n \<le> 19" "i \<le> fst n"
  have "(2::nat) ^ (MIN_ORDER + fst n) = 2 ^ (fst n - i) * 2 ^ (MIN_ORDER + i)" using i by (simp flip: power_add)
  then have "snd n * 2 ^ (MIN_ORDER + fst n) = snd n * 2 ^ (fst n - i) * 2 ^ (MIN_ORDER + i)"
    by (simp only: mult.assoc)
  then have "snd n * 2 ^ (MIN_ORDER + fst n) div 2 ^ (MIN_ORDER + i) = snd n * 2 ^ (fst n - i)"
    by (simp only: div_mult_self_is_m zero_less_power zero_less_numeral)
  then show ?thesis using i by (simp add: get_idx_def get_idx_in_lvl_def addr_def level_size node_idx_def NORDER_def)
qed

lemma get_idx_parent: "valid n \<Longrightarrow> fst n < 19 \<Longrightarrow> get_idx (addr n) (fst n + 1) = node_idx (parent n)"
  using addr_up [of "fst n + 1" n] by (simp add: parent_def)

lemma valid_parent: "valid n \<Longrightarrow> fst n < 19 \<Longrightarrow> valid (parent n)"
proof -
  assume v: "valid n" "fst n < 19"
  then have "19 - fst n = Suc (19 - (fst n + 1))" by simp
  then have "snd n < 2 * 2 ^ (19 - (fst n + 1))" using v(1) unfolding valid_def by (metis power_Suc)
  with v show ?thesis by (simp add: valid_def parent_def NORDER_def less_mult_imp_div_less mult.commute)
qed

lemma valid_children: "valid n \<Longrightarrow> 0 < fst n \<Longrightarrow> valid (left n) \<and> valid (right n)"
proof -
  assume v: "valid n" "0 < fst n"
  have "19 - (fst n - 1) = Suc (19 - fst n)" using valid_le [OF v(1)] v(2) by linarith
  then have "(2::nat) ^ (19 - (fst n - 1)) = 2 * 2 ^ (19 - fst n)" by (simp only: power_Suc)
  with valid_le [OF v(1)] valid_lt [OF v(1)] show ?thesis
    unfolding valid_def left_def right_def fst_conv snd_conv NORDER_def by auto
qed

lemma addr_inj: "fst n = fst m \<Longrightarrow> addr n = addr m \<Longrightarrow> n = m"
  by (simp add: addr_def prod_eq_iff)

lemma addr_neq_NULL: "addr n \<noteq> NULL"
  by (simp add: addr_def KERNEL_HEAP_BASE_def)

lemma addr_left: "0 < fst n \<Longrightarrow> addr (left n) = addr n"
  by (cases "fst n") (simp_all add: addr_def left_def)

lemma addr_right: "0 < fst n \<Longrightarrow> addr (right n) = addr n + 2 ^ (MIN_ORDER + (fst n - 1))"
  by (cases "fst n") (simp_all add: addr_def right_def algebra_simps)

lemma children_parent:
  "0 < fst n \<Longrightarrow> parent (left n) = n" "0 < fst n \<Longrightarrow> parent (right n) = n"
  "left (parent n) = (if even (snd n) then n else buddy n)" "right (parent n) = (if even (snd n) then buddy n else n)"
  by (auto simp: parent_def left_def right_def buddy_def prod_eq_iff elim!: oddE)

lemma buddy_simps [simp]: "fst (buddy n) = fst n" "parent (buddy n) = parent n" "buddy n \<noteq> n" "buddy (buddy n) = n"
  by (auto simp: buddy_def parent_def prod_eq_iff elim!: oddE)

subsection \<open>Steps on the sets of nodes\<close>

definition par :: "node \<Rightarrow> node set" where
  "par n = (if fst n < 19 then {parent n} else {})"

lemma child_parent: "0 < fst m \<Longrightarrow> left m = n \<or> right m = n \<Longrightarrow> m = parent n"
  using children_parent by metis

lemma left_neq_right: "left m \<noteq> right m"
  by (simp add: left_def right_def)

lemma children_neq: "0 < fst m \<Longrightarrow> left m \<noteq> m" "0 < fst m \<Longrightarrow> right m \<noteq> m"
  by (auto simp: left_def right_def prod_eq_iff)

lemma parent_neq: "parent n \<noteq> n"
  by (simp add: parent_def prod_eq_iff)

lemma buddy_wfD:
  assumes "buddy_wf F A S"
  shows "n \<in> F \<or> n \<in> A \<or> n \<in> S \<Longrightarrow> valid n" and "n \<in> F \<or> n \<in> A \<or> n \<in> S \<Longrightarrow> fst n < 19 \<Longrightarrow> parent n \<in> S"
    and "n \<in> F \<Longrightarrow> n \<notin> A \<and> n \<notin> S" and "n \<in> A \<Longrightarrow> n \<notin> S"
    and "n \<in> S \<Longrightarrow> 0 < fst n \<and> (left n \<in> F \<or> left n \<in> A \<or> left n \<in> S) \<and> (right n \<in> F \<or> right n \<in> A \<or> right n \<in> S)"
    and "n \<in> F \<Longrightarrow> fst n < 19 \<Longrightarrow> buddy n \<notin> F"
  using assms unfolding buddy_wf_def by blast+

lemma wf_take: "buddy_wf F A S \<Longrightarrow> n \<in> F \<Longrightarrow> buddy_wf (F - {n}) (insert n A) S"
  unfolding buddy_wf_def by blast

lemma fst_children: "fst (left n) = fst n - 1" "fst (right n) = fst n - 1"
  by (simp_all add: left_def right_def)

lemma new_children:
  assumes "buddy_wf F A S" and "n \<in> A" and "0 < fst n"
  shows "left n \<notin> F \<union> A \<union> S" and "right n \<notin> F \<union> A \<union> S"
proof -
  have "fst n - 1 < 19" using valid_le [OF buddy_wfD(1) [OF assms(1)], of n] assms(2) by simp
  moreover have "n \<notin> S" using buddy_wfD(4) [OF assms(1,2)] .
  ultimately show "left n \<notin> F \<union> A \<union> S" "right n \<notin> F \<union> A \<union> S"
    using buddy_wfD(2) [OF assms(1), of "left n"] buddy_wfD(2) [OF assms(1), of "right n"] assms(3)
    by (auto simp: fst_children children_parent)
qed

lemma buddy_right: "0 < fst n \<Longrightarrow> buddy (right n) = left n"
  by (simp add: buddy_def right_def left_def)

lemma wf_split:
  assumes "buddy_wf F A S" and "n \<in> A" and "0 < fst n"
  shows "buddy_wf (insert (right n) F) (insert (left n) (A - {n})) (insert n S)"
proof -
  note new = new_children [OF assms]
  have n: "n \<notin> F" "n \<notin> S" "valid n" using buddy_wfD [OF assms(1)] assms(2) by blast+
  have v: "valid (left n)" "valid (right n)" using valid_children [OF n(3) assms(3)] by simp_all
  have b: "m \<in> F \<Longrightarrow> fst m < 19 \<Longrightarrow> buddy m \<noteq> right n" for m
    using new(1) buddy_right [OF assms(3)] by (metis UnI1 buddy_simps(4))
  show ?thesis
    unfolding buddy_wf_def
  proof (intro conjI ballI)
    fix m assume m: "m \<in> insert (right n) F \<union> insert (left n) (A - {n}) \<union> insert n S"
    then show "valid m" using v n(3) buddy_wfD(1) [OF assms(1)] by blast
    show "fst m < 19 \<longrightarrow> parent m \<in> insert n S"
      using m buddy_wfD(2) [OF assms(1), of m] assms(2,3) by (auto simp: children_parent)
  next
    fix m assume m: "m \<in> insert n S"
    then show "0 < fst m" using assms(3) buddy_wfD(5) [OF assms(1)] by blast
    show "left m \<in> insert (right n) F \<union> insert (left n) (A - {n}) \<union> insert n S"
      "right m \<in> insert (right n) F \<union> insert (left n) (A - {n}) \<union> insert n S"
      using m buddy_wfD(5) [OF assms(1), of m] by blast+
  next
    fix m assume m: "m \<in> insert (right n) F"
    then show "fst m < 19 \<longrightarrow> buddy m \<notin> insert (right n) F"
      using b [of m] new(1) buddy_right [OF assms(3)] left_neq_right [of n] buddy_wfD(6) [OF assms(1), of m] by auto
  qed (use new n buddy_wfD(3,4) [OF assms(1)] left_neq_right [of n] children_neq [OF assms(3)] in auto)
qed

lemma wf_free:
  assumes "buddy_wf F A S" and "n \<in> A" and "fst n < 19 \<Longrightarrow> buddy n \<notin> F"
  shows "buddy_wf (insert n F) (A - {n}) S"
proof -
  have b: "m \<in> F \<Longrightarrow> fst m < 19 \<Longrightarrow> buddy m \<noteq> n" for m
    using assms(3) by (metis buddy_simps(1,4))
  have "n \<notin> F" "n \<notin> S" using buddy_wfD [OF assms(1)] assms(2) by blast+
  then show ?thesis
    using assms b unfolding buddy_wf_def by (auto simp: Ball_def)
qed

lemma wf_merge:
  assumes "buddy_wf F A S" and "n \<in> A" and "fst n < 19" and "buddy n \<in> F"
  shows "buddy_wf (F - {buddy n}) (insert (parent n) (A - {n})) (S - {parent n})"
proof -
  have p: "parent n \<in> S" "valid (parent n)" "n \<notin> F" "n \<notin> S"
    using buddy_wfD [OF assms(1)] assms(2,3) by blast+
  have b: "buddy n \<notin> A" "buddy n \<notin> S" using buddy_wfD(3) [OF assms(1,4)] by simp_all
  have pp: "fst (parent n) < 19 \<longrightarrow> parent (parent n) \<in> S"
    using buddy_wfD(2) [OF assms(1)] p(1) by blast
  have kids: "m = n \<or> m = buddy n" if "parent m = parent n" for m
    using that children_parent(3,4) [of m] children_parent(3,4) [of n] by (metis buddy_simps(4))
  show ?thesis
    unfolding buddy_wf_def
  proof (intro conjI ballI)
    fix m assume m: "m \<in> F - {buddy n} \<union> insert (parent n) (A - {n}) \<union> (S - {parent n})"
    then show "valid m" using p(2) buddy_wfD(1) [OF assms(1)] by blast
    show "fst m < 19 \<longrightarrow> parent m \<in> S - {parent n}"
      using m kids [of m] pp parent_neq [of "parent n"] p b buddy_wfD(2) [OF assms(1), of m] assms(4) by auto
  next
    fix m assume m: "m \<in> S - {parent n}"
    then show "0 < fst m" using buddy_wfD(5) [OF assms(1)] by blast
    then have "left m \<noteq> n" "right m \<noteq> n" "left m \<noteq> buddy n" "right m \<noteq> buddy n"
      using m child_parent [of m n] child_parent [of m "buddy n"] by auto
    then show "left m \<in> F - {buddy n} \<union> insert (parent n) (A - {n}) \<union> (S - {parent n})"
      "right m \<in> F - {buddy n} \<union> insert (parent n) (A - {n}) \<union> (S - {parent n})"
      using m buddy_wfD(5) [OF assms(1), of m] by blast+
  next
    fix m assume "m \<in> F - {buddy n}"
    then show "fst m < 19 \<longrightarrow> buddy m \<notin> F - {buddy n}"
      using buddy_wfD(6) [OF assms(1)] by blast
  qed (use p b buddy_wfD(3,4) [OF assms(1)] in blast)+
qed

lemma used_bit_take:
  assumes "buddy_wf F A S" and "n \<in> F" and "valid m" and "0 < fst m"
  shows "used_bit (F - {n}) S m \<longleftrightarrow> used_bit F S m \<noteq> (m \<in> par n)"
proof (cases "m = parent n")
  case True
  then have "fst n < 19" using valid_le [OF assms(3)] by (simp add: parent_def)
  with True assms(2) have "m \<in> S" using buddy_wfD(2) [OF assms(1), of n] by blast
  then show ?thesis
    using True \<open>fst n < 19\<close> assms(2) children_parent(3,4) [of n] by (auto simp: used_bit_def par_def)
next
  case False
  then have "left m \<noteq> n" "right m \<noteq> n" using child_parent [OF assms(4)] by blast+
  with False show ?thesis by (auto simp: used_bit_def par_def)
qed

lemma used_bit_split:
  assumes "buddy_wf F A S" and "n \<in> A" and "0 < fst n" and "0 < fst m"
  shows "used_bit (insert (right n) F) (insert n S) m \<longleftrightarrow> used_bit F S m \<noteq> (m \<in> {n})"
proof (cases "m = n")
  case True
  then show ?thesis
    using new_children [OF assms(1-3)] left_neq_right [of n] buddy_wfD(4) [OF assms(1,2)] by (auto simp: used_bit_def)
next
  case False
  then have "left m \<noteq> right n" "right m \<noteq> right n" using child_parent [OF assms(4)] children_parent(2) [OF assms(3)] by metis+
  with False show ?thesis by (auto simp: used_bit_def)
qed

lemma used_bit_free:
  assumes "buddy_wf F A S" and "n \<in> A" and "fst n < 19 \<Longrightarrow> buddy n \<notin> F" and "valid m" and "0 < fst m"
  shows "used_bit (insert n F) S m \<longleftrightarrow> used_bit F S m \<noteq> (m \<in> par n)"
proof -
  have "n \<notin> F" using buddy_wfD [OF assms(1)] assms(2) by blast
  then show ?thesis
    using used_bit_take [OF wf_free [OF assms(1-3)], of n m] assms(4,5) by (auto simp: insert_Diff_if)
qed

lemma used_bit_merge:
  assumes "buddy_wf F A S" and "n \<in> A" and "fst n < 19" and "buddy n \<in> F" and "0 < fst m"
  shows "used_bit (F - {buddy n}) (S - {parent n}) m \<longleftrightarrow> used_bit F S m \<noteq> (m \<in> par n)"
proof (cases "m = parent n")
  case True
  have "n \<notin> F" "parent n \<in> S" using buddy_wfD [OF assms(1)] assms(2,3) by blast+
  with True assms(3,4) show ?thesis using children_parent(3,4) [of n] by (auto simp: used_bit_def par_def)
next
  case False
  then have "left m \<noteq> buddy n" "right m \<noteq> buddy n" using child_parent [OF assms(5), of "buddy n"] by auto
  with False show ?thesis by (auto simp: used_bit_def par_def)
qed

subsection \<open>Steps of the heap\<close>

lemma heap_relD:
  assumes "heap_rel s F A S P"
  shows "buddy_wf F A S" and "length (used_bitmap s) = 2 ^ 14" and "length (split_bitmap s) = 2 ^ 14"
    and "length (buckets s) = NORDER"
    and "valid n \<Longrightarrow> 0 < fst n \<Longrightarrow> bm_get (split_bitmap s) (node_idx n) = (n \<in> S)"
    and "valid n \<Longrightarrow> 0 < fst n \<Longrightarrow> bm_get (used_bitmap s) (node_idx n) = (used_bit F S n \<noteq> (n \<in> P))"
    and "i < NORDER \<Longrightarrow> distinct (buckets s ! i)"
    and "i < NORDER \<Longrightarrow> set (buckets s ! i) = {addr n | n. n \<in> F \<and> fst n = i}"
  using assms unfolding heap_rel_def by blast+

lemma idx_in_bitmap: "valid n \<Longrightarrow> 0 < fst n \<Longrightarrow> length bm = 2 ^ 14 \<Longrightarrow> node_idx n < 32 * length (bm :: u32 list)"
  using node_idx_bound [of n] by simp

lemma toggle_rel:
  assumes "heap_rel s F A S P" and "valid m" and "0 < fst m"
  shows "heap_rel (toggle_used s (node_idx m)) F A S (if m \<in> P then P - {m} else insert m P)"
proof -
  note R = heap_relD [OF assms(1)]
  have i: "node_idx m < 32 * length (used_bitmap s)" by (rule idx_in_bitmap [OF assms(2,3) R(2)])
  have "bm_get (fst (bm_toggle (used_bitmap s) (node_idx m))) (node_idx n) =
      (used_bit F S n \<noteq> (n \<in> (if m \<in> P then P - {m} else insert m P)))" if n: "valid n" "0 < fst n" for n
    using bm_toggle_spec(3) [OF i idx_in_bitmap [OF n R(2)]] R(6) [OF n] node_idx_inj [OF n(1) assms(2)] by auto
  then show ?thesis
    using assms(1) bm_toggle_spec(2) [OF i] unfolding heap_rel_def toggle_used_def by simp
qed

lemma toggle_parent:
  assumes "heap_rel s F A S P" and "valid n" and "fst n < 19"
  shows "heap_rel (toggle_used s (get_idx (addr n) (fst n + 1))) F A S
    (if parent n \<in> P then P - {parent n} else insert (parent n) P)"
  unfolding get_idx_parent [OF assms(2,3)]
  by (rule toggle_rel [OF assms(1) valid_parent [OF assms(2,3)]]) (simp add: parent_def)

lemma heap_rel_free_mem [simp]: "heap_rel (s\<lparr>free_mem := x\<rparr>) F A S P = heap_rel s F A S P"
  by (simp add: heap_rel_def)

lemma buckets_update:
  assumes "length bs = NORDER" and "i < NORDER"
    and "\<forall>j < NORDER. distinct (bs ! j) \<and> set (bs ! j) = {addr n | n. n \<in> F \<and> fst n = j}"
    and "distinct xs" and "set xs = {addr n | n. n \<in> F' \<and> fst n = i}"
    and "\<And>n. fst n \<noteq> i \<Longrightarrow> n \<in> F' \<longleftrightarrow> n \<in> F"
  shows "\<forall>j < NORDER. distinct (bs[i := xs] ! j) \<and> set (bs[i := xs] ! j) = {addr n | n. n \<in> F' \<and> fst n = j}"
proof (intro allI impI)
  fix j assume j: "j < NORDER"
  show "distinct (bs[i := xs] ! j) \<and> set (bs[i := xs] ! j) = {addr n | n. n \<in> F' \<and> fst n = j}"
  proof (cases "j = i")
    case True
    then show ?thesis using assms by simp
  next
    case False
    then have "{addr n | n. n \<in> F' \<and> fst n = j} = {addr n | n. n \<in> F \<and> fst n = j}" using assms(6) by metis
    with False assms(3) j show ?thesis by simp
  qed
qed

lemma level_diff: "fst n = i \<Longrightarrow> {addr m | m. m \<in> F \<and> fst m = i} - {addr n} = {addr m | m. m \<in> F - {n} \<and> fst m = i}"
proof (intro set_eqI iffI)
  fix x assume n: "fst n = i" and x: "x \<in> {addr m | m. m \<in> F - {n} \<and> fst m = i}"
  then obtain m where m: "x = addr m" "m \<in> F" "m \<noteq> n" "fst m = i" by blast
  then have "x \<noteq> addr n" using n addr_inj [of m n] by metis
  with m show "x \<in> {addr m | m. m \<in> F \<and> fst m = i} - {addr n}" by blast
qed blast

lemma level_mem: "addr n \<in> {addr m | m. m \<in> F \<and> fst m = fst n} \<Longrightarrow> n \<in> F"
proof -
  assume "addr n \<in> {addr m | m. m \<in> F \<and> fst m = fst n}"
  then obtain m where m: "addr n = addr m" "m \<in> F" "fst m = fst n" by blast
  have "n = m" by (rule addr_inj) (simp_all only: m)
  with m(2) show ?thesis by (simp only:)
qed

lemma pop_rel:
  assumes "heap_rel s F A S {}" and "i < NORDER" and "buckets s ! i \<noteq> []"
  obtains n where "n \<in> F" and "fst n = i" and "fst (bucket_pop s i) = addr n"
    and "heap_rel (snd (bucket_pop s i)) (F - {n}) (insert n A) S (par n)"
proof -
  note R = heap_relD [OF assms(1)]
  obtain b bs where b: "buckets s ! i = b # bs" using assms(3) by (cases "buckets s ! i") auto
  then have "b \<in> {addr n | n. n \<in> F \<and> fst n = i}" using R(8) [OF assms(2)] by (metis list.set_intros(1))
  then obtain n where n: "n \<in> F" "fst n = i" "b = addr n" by blast
  have d: "distinct (b # bs)" "set (b # bs) = {addr n | n. n \<in> F \<and> fst n = i}"
    using R(7,8) [OF assms(2)] b by simp_all
  have "set bs = set (b # bs) - {b}" using d(1) by auto
  also have "\<dots> = {addr m | m. m \<in> F - {n} \<and> fst m = i}" unfolding d(2) unfolding n(3) by (rule level_diff [OF n(2)])
  finally have bs: "set bs = {addr m | m. m \<in> F - {n} \<and> fst m = i}" .
  have "\<forall>j < NORDER. distinct ((buckets s)[i := bs] ! j) \<and>
      set ((buckets s)[i := bs] ! j) = {addr m | m. m \<in> F - {n} \<and> fst m = j}"
    using d(1) R(7,8) n(2) by (intro buckets_update [OF R(4) assms(2) _ _ bs, of F]) auto
  then have "heap_rel (snd (bucket_pop s i)) (F - {n}) (insert n A) S (par n)"
    using R(1-6) wf_take [OF R(1) n(1)] used_bit_take [OF R(1) n(1)] b
    by (auto simp: heap_rel_def bucket_pop_def)
  then show ?thesis using n b by (intro that [of n]) (simp_all add: bucket_pop_def)
qed

lemma append_buckets:
  assumes "heap_rel s F A S P" and "valid n" and "n \<notin> F"
  shows "\<forall>j < NORDER. distinct (buckets (bucket_append s (addr n) (fst n)) ! j) \<and>
    set (buckets (bucket_append s (addr n) (fst n)) ! j) = {addr m | m. m \<in> insert n F \<and> fst m = j}"
proof -
  note R = heap_relD [OF assms(1)]
  have i: "fst n < NORDER" using assms(2) by (simp add: valid_def)
  have new: "addr n \<notin> set (buckets s ! fst n)"
    unfolding R(8) [OF i] using level_mem assms(3) by blast
  have level: "set (buckets s ! fst n @ [addr n]) = {addr m | m. m \<in> insert n F \<and> fst m = fst n}"
    by (simp only: set_append list.set R(8) [OF i]) blast
  have "\<forall>j < NORDER. distinct ((buckets s)[fst n := buckets s ! fst n @ [addr n]] ! j) \<and>
      set ((buckets s)[fst n := buckets s ! fst n @ [addr n]] ! j) = {addr m | m. m \<in> insert n F \<and> fst m = j}"
    by (rule buckets_update [OF R(4) i _ _ level, of F]) (use R(7,8) new i in \<open>simp_all only: distinct_append distinct.simps, auto\<close>)
  then show ?thesis by (simp add: bucket_append_def)
qed

lemma split_rel:
  assumes "heap_rel s F A S {}" and "n \<in> A" and "0 < fst n"
  shows "heap_rel (bucket_append (s\<lparr>split_bitmap := bm_set (split_bitmap s) (node_idx n) True\<rparr>) (addr (right n)) (fst n - 1))
    (insert (right n) F) (insert (left n) (A - {n})) (insert n S) {n}"
proof -
  note R = heap_relD [OF assms(1)]
  have v: "valid n" using buddy_wfD(1) [OF R(1)] assms(2) by blast
  have i: "node_idx n < 32 * length (split_bitmap s)" by (rule idx_in_bitmap [OF v assms(3) R(3)])
  have r: "valid (right n)" "right n \<notin> F" "fst (right n) = fst n - 1"
    using valid_children [OF v assms(3)] new_children(2) [OF R(1) assms(2,3)] by (simp_all add: fst_children)
  have sp: "bm_get (bm_set (split_bitmap s) (node_idx n) True) (node_idx m) = (m \<in> insert n S)"
    if "valid m" "0 < fst m" for m
    using bm_get_set(1) [OF i] R(5) [OF that] node_idx_inj [OF that(1) v] by auto
  show ?thesis
    using append_buckets [OF assms(1) r(1,2), unfolded r(3)] sp R(2-6) used_bit_split [OF R(1) assms(2,3)]
      wf_split [OF R(1) assms(2,3)] bm_get_set(2) [OF i]
    unfolding heap_rel_def bucket_append_def by auto
qed

lemma free_rel:
  assumes "heap_rel s F A S (par n)" and "n \<in> A" and "fst n < 19 \<Longrightarrow> buddy n \<notin> F"
  shows "heap_rel (bucket_append s (addr n) (fst n)) (insert n F) (A - {n}) S {}"
proof -
  note R = heap_relD [OF assms(1)]
  have v: "valid n" "n \<notin> F" using buddy_wfD [OF R(1)] assms(2) by blast+
  show ?thesis
    using append_buckets [OF assms(1) v] R(2-6) used_bit_free [OF R(1) assms(2,3)] wf_free [OF R(1) assms(2,3)]
    unfolding heap_rel_def bucket_append_def by auto
qed

lemma merge_rel:
  assumes "heap_rel s F A S (par n)" and "n \<in> A" and "fst n < 19" and "buddy n \<in> F"
  obtains s' where "bucket_unlink (s\<lparr>split_bitmap := bm_set (split_bitmap s) (node_idx (parent n)) False\<rparr>) (addr (buddy n)) (fst n) = Some s'"
    and "heap_rel s' (F - {buddy n}) (insert (parent n) (A - {n})) (S - {parent n}) {}"
proof -
  note R = heap_relD [OF assms(1)]
  have v: "valid n" using buddy_wfD [OF R(1)] assms(2) by blast
  have p: "valid (parent n)" "0 < fst (parent n)" using valid_parent [OF v assms(3)] by (simp_all add: parent_def)
  have i: "node_idx (parent n) < 32 * length (split_bitmap s)" by (rule idx_in_bitmap [OF p R(3)])
  have o: "fst n < NORDER" using v by (simp add: valid_def)
  have mem: "addr (buddy n) \<in> set (buckets s ! fst n)" unfolding R(8) [OF o] using assms(4) buddy_simps(1) [of n] by blast
  have sp: "bm_get (bm_set (split_bitmap s) (node_idx (parent n)) False) (node_idx m) = (m \<in> S - {parent n})"
    if "valid m" "0 < fst m" for m
    using bm_get_set(1) [OF i] R(5) [OF that] node_idx_inj [OF that(1) p(1)] by auto
  let ?bs = "(buckets s)[fst n := remove1 (addr (buddy n)) (buckets s ! fst n)]"
  have rest: "set (remove1 (addr (buddy n)) (buckets s ! fst n)) = {addr m | m. m \<in> F - {buddy n} \<and> fst m = fst n}"
    using R(7) [OF o] by (simp only: set_remove1_eq R(8) [OF o] level_diff buddy_simps)
  have "\<forall>j < NORDER. distinct (?bs ! j) \<and> set (?bs ! j) = {addr m | m. m \<in> F - {buddy n} \<and> fst m = j}"
    using R(7,8) o by (intro buckets_update [OF R(4) o _ _ rest, of F]) auto
  then have "heap_rel (s\<lparr>split_bitmap := bm_set (split_bitmap s) (node_idx (parent n)) False, buckets := ?bs\<rparr>)
      (F - {buddy n}) (insert (parent n) (A - {n})) (S - {parent n}) {}"
    using sp R(2-6) used_bit_merge [OF R(1) assms(2-4)] wf_merge [OF R(1) assms(2-4)] bm_get_set(2) [OF i]
    unfolding heap_rel_def by auto
  then show ?thesis using mem by (intro that) (simp_all add: bucket_unlink_def)
qed

subsection \<open>Allocation\<close>

lemma par_left: "0 < fst n \<Longrightarrow> fst n \<le> 19 \<Longrightarrow> par (left n) = {n}"
  by (simp add: par_def fst_children children_parent)

lemma split_block_rel:
  assumes "heap_rel s F A S (par n)" and "n \<in> A" and "0 < fst n"
  shows "heap_rel (bucket_append (split_block s (addr n) (fst n)) (addr (right n)) (fst n - 1))
    (insert (right n) F) (insert (left n) (A - {n})) (insert n S) (par (left n))"
proof -
  have v: "valid n" using buddy_wfD(1) [OF heap_relD(1) [OF assms(1)]] assms(2) by blast
  have b: "fst n \<le> 19" by (rule valid_le [OF v])
  let ?s = "if fst n < NORDER - 1 then toggle_used s (get_idx (addr n) (fst n + 1)) else s"
  have "heap_rel ?s F A S {}"
    using assms(1) toggle_parent [OF assms(1) v] b by (auto simp: par_def NORDER_def)
  from split_rel [OF this assms(2,3)] show ?thesis
    unfolding split_block_def Let_def get_idx_addr [OF v] par_left [OF assms(3) b] .
qed

lemma carve_same: "carve mappable s b i i = Some s"
  by (cases i) simp_all

lemma carve_rel:
  assumes "\<forall>a. mappable a"
  shows "heap_rel s F A S (par n) \<Longrightarrow> n \<in> A \<Longrightarrow> order \<le> fst n \<Longrightarrow>
    \<exists>s' F' S' m. carve mappable s (addr n) (fst n) order = Some s' \<and> fst m = order \<and> addr m = addr n \<and>
      (m = n \<or> m \<notin> A) \<and> heap_rel s' F' (insert m (A - {n})) S' (par m)"
proof (induction "fst n" arbitrary: n s F A S)
  case 0
  then have "order = fst n" "insert n (A - {n}) = A" by auto
  with 0 show ?case using carve_same by metis
next
  case (Suc j)
  note wf = heap_relD(1) [OF Suc.prems(1)]
  show ?case
  proof (cases "Suc j = order")
    case True
    then have "order = fst n" "insert n (A - {n}) = A" using Suc.hyps(2) Suc.prems(2) by auto
    then show ?thesis using Suc.prems(1) carve_same by metis
  next
    case False
    have pos: "0 < fst n" "j = fst (left n)" "fst n - 1 = j" using Suc.hyps(2) [symmetric] by (simp_all add: fst_children)
    let ?s = "bucket_append (split_block s (addr n) (fst n)) (addr (right n)) (fst n - 1)"
    have R: "heap_rel ?s (insert (right n) F) (insert (left n) (A - {n})) (insert n S) (par (left n))"
      by (rule split_block_rel [OF Suc.prems(1,2) pos(1)])
    have "\<exists>s' F' S' m. carve mappable ?s (addr (left n)) (fst (left n)) order = Some s' \<and> fst m = order \<and>
        addr m = addr (left n) \<and> (m = left n \<or> m \<notin> insert (left n) (A - {n})) \<and>
        heap_rel s' F' (insert m (insert (left n) (A - {n}) - {left n})) S' (par m)"
      using Suc.prems(3) False Suc.hyps(2) pos(2) by (intro Suc.hyps(1) [OF pos(2) R]) auto
    moreover have "insert (left n) (A - {n}) - {left n} = A - {n}"
      using new_children(1) [OF wf Suc.prems(2) pos(1)] by blast
    moreover have "carve mappable s (addr n) (fst n) order = carve mappable ?s (addr (left n)) (fst (left n)) order"
      using assms False Suc.prems(3) pos addr_left [OF pos(1)] addr_right [OF pos(1)]
      by (simp add: Let_def flip: Suc.hyps(2))
    moreover have "left n \<notin> A" using new_children(1) [OF wf Suc.prems(2) pos(1)] by blast
    moreover have "fst n \<noteq> order" using False Suc.hyps(2) by simp
    ultimately show ?thesis using addr_left [OF pos(1)] by (metis DiffI insertCI singletonD)
  qed
qed

lemma ilog2_bounds: "0 < n \<Longrightarrow> 2 ^ ilog2 n \<le> n \<and> n < 2 * 2 ^ ilog2 n"
proof (induction n rule: ilog2.induct)
  case (1 n)
  show ?case
  proof (cases "n < 2")
    case True
    with 1(2) show ?thesis by (simp add: ilog2.simps)
  next
    case False
    with 1(1) have "2 ^ ilog2 (n div 2) \<le> n div 2" "n div 2 < 2 * 2 ^ ilog2 (n div 2)" by auto
    moreover have l: "2 ^ ilog2 n = (2::nat) * 2 ^ ilog2 (n div 2)" using False by (subst ilog2.simps) simp
    ultimately show ?thesis unfolding l by auto
  qed
qed

lemma size_order_bounds:
  assumes "0 < sz" and "sz \<le> MAX_ALLOC"
  shows "size_order sz \<le> 19" and "sz \<le> 2 ^ (MIN_ORDER + size_order sz)"
proof -
  note b = ilog2_bounds [OF assms(1)]
  have le: "sz \<le> 2 ^ 25" using assms(2) by (simp add: MAX_ALLOC_def MAX_ORDER_def)
  then have "2 ^ ilog2 sz \<le> (2::nat) ^ 25" using b by linarith
  then have l: "ilog2 sz \<le> 25" by (rule power_le_imp_le_exp [rotated]) simp
  define q where "q = (if sz mod 2 ^ ilog2 sz \<noteq> 0 then ilog2 sz + 1 else ilog2 sz)"
  have "ilog2 sz = 25 \<Longrightarrow> sz = 2 ^ 25" using b le by simp
  then have q25: "q \<le> 25" using l by (cases "ilog2 sz = 25") (auto simp: q_def)
  have "sz = 2 ^ ilog2 sz" if "sz mod 2 ^ ilog2 sz = 0"
  proof -
    have "sz div 2 ^ ilog2 sz = 1" using b assms(1) by (intro div_nat_eqI) auto
    with that show ?thesis by (metis add.right_neutral div_mult_mod_eq mult_1)
  qed
  then have szq: "sz \<le> 2 ^ q" using b by (auto simp: q_def)
  have so: "size_order sz = (if q < MIN_ORDER then MIN_ORDER else q) - MIN_ORDER" by (simp add: size_order_def q_def Let_def)
  show "size_order sz \<le> 19" using q25 by (auto simp: so MIN_ORDER_def)
  have "q \<le> MIN_ORDER + size_order sz" by (simp add: so)
  then have "(2::nat) ^ q \<le> 2 ^ (MIN_ORDER + size_order sz)" by (intro power_increasing) simp_all
  with szq show "sz \<le> 2 ^ (MIN_ORDER + size_order sz)" by linarith
qed

definition heap_inv :: "kheap \<Rightarrow> node set \<Rightarrow> bool" where
  "heap_inv s A \<longleftrightarrow> (\<exists>F S. heap_rel s F A S {})"

lemma kalloc_inv:
  assumes "heap_inv s A" and "\<forall>a. mappable a" and "0 < sz" and "sz \<le> MAX_ALLOC"
    and "\<exists>i < NORDER. size_order sz \<le> i \<and> buckets s ! i \<noteq> []"
  shows "\<exists>s' m. kalloc mappable s sz = Some (s', addr m) \<and> m \<notin> A \<and> fst m = size_order sz \<and> heap_inv s' (insert m A)"
proof -
  obtain F S where R: "heap_rel s F A S {}" using assms(1) by (auto simp: heap_inv_def)
  have "find (\<lambda>i. buckets s ! i \<noteq> []) [size_order sz..<NORDER] \<noteq> None"
    using assms(5) by (auto simp: find_None_iff)
  then obtain i where i: "find (\<lambda>i. buckets s ! i \<noteq> []) [size_order sz..<NORDER] = Some i" by blast
  then have ib: "size_order sz \<le> i" "i < NORDER" "buckets s ! i \<noteq> []"
    by (auto simp: find_Some_iff)
  obtain n where n: "n \<in> F" "fst n = i" "fst (bucket_pop s i) = addr n"
      "heap_rel (snd (bucket_pop s i)) (F - {n}) (insert n A) S (par n)"
    by (rule pop_rel [OF R ib(2,3)])
  have nA: "n \<notin> A" using buddy_wfD(3) [OF heap_relD(1) [OF R] n(1)] by simp
  from carve_rel [OF assms(2) n(4), of "size_order sz"] ib(1) n(2) obtain s' F' S' m where
      c: "carve mappable (snd (bucket_pop s i)) (addr n) i (size_order sz) = Some s'" "fst m = size_order sz"
      "addr m = addr n" "m = n \<or> m \<notin> insert n A" "heap_rel s' F' (insert m (insert n A - {n})) S' (par m)" by auto
  have A: "insert m (insert n A - {n}) = insert m A" using nA by blast
  have v: "valid m" using buddy_wfD(1) [OF heap_relD(1) [OF c(5)]] by blast
  have "heap_rel (take_block s' (addr m) (fst m)) F' (insert m A) S' {}"
    using c(5) toggle_parent [OF c(5) v] unfolding take_block_def Let_def A by (auto simp: par_def NORDER_def)
  then have "heap_rel (take_block s' (addr n) (size_order sz)) F' (insert m A) S' {}"
    by (simp only: c(2,3))
  moreover have "kalloc mappable s sz = Some (take_block s' (addr n) (size_order sz), addr m)"
    using assms(3,4) i n(3) c(1,3) by (simp add: kalloc_def Let_def split_beta)
  moreover have "m \<notin> A" using c(4) nA by blast
  ultimately show ?thesis using c(2) unfolding heap_inv_def by blast
qed

subsection \<open>Freeing\<close>

lemma ancestor_split:
  assumes "buddy_wf F A S" and "n \<in> F \<or> n \<in> A \<or> n \<in> S"
  shows "0 < d \<Longrightarrow> fst n + d \<le> 19 \<Longrightarrow> (fst n + d, snd n div 2 ^ d) \<in> S"
proof (induction d)
  case (Suc d)
  show ?case
  proof (cases "d = 0")
    case True
    then show ?thesis using buddy_wfD(2) [OF assms] Suc.prems(2) by (simp add: parent_def)
  next
    case False
    then have "(fst n + d, snd n div 2 ^ d) \<in> S" using Suc by simp
    from buddy_wfD(2) [OF assms(1), OF disjI2, OF disjI2, OF this] Suc.prems(2)
    have "parent (fst n + d, snd n div 2 ^ d) \<in> S" by simp
    then show ?thesis by (simp add: parent_def div_mult2_eq [symmetric] mult.commute)
  qed
qed simp

lemma below_not_split:
  assumes "buddy_wf F A S" and "n \<in> A" and "0 < i" and "i \<le> fst n"
  shows "(i, snd n * 2 ^ (fst n - i)) \<notin> S" and "valid (i, snd n * 2 ^ (fst n - i))"
proof -
  have v: "valid n" using buddy_wfD(1) [OF assms(1)] assms(2) by blast
  have le: "fst n \<le> 19" by (rule valid_le [OF v])
  have nS: "n \<notin> S" by (rule buddy_wfD(4) [OF assms(1,2)])
  show "(i, snd n * 2 ^ (fst n - i)) \<notin> S"
  proof
    assume in_S: "(i, snd n * 2 ^ (fst n - i)) \<in> S"
    show False
    proof (cases "i = fst n")
      case True
      with in_S nS show False by simp
    next
      case False
      with ancestor_split [OF assms(1), of "(i, snd n * 2 ^ (fst n - i))" "fst n - i"] in_S le assms(4) nS
      show False by simp
    qed
  qed
  have "(2::nat) ^ (19 - i) = 2 ^ (19 - fst n) * 2 ^ (fst n - i)"
    using le assms(4) by (simp flip: power_add)
  with valid_lt [OF v] le assms(4) show "valid (i, snd n * 2 ^ (fst n - i))"
    by (simp add: valid_def NORDER_def)
qed

lemma get_order_addr:
  assumes "heap_rel s F A S P" and "n \<in> A"
  shows "get_order s (addr n) = fst n"
proof -
  note R = heap_relD [OF assms(1)]
  have v: "valid n" using buddy_wfD(1) [OF R(1)] assms(2) by blast
  have le: "fst n \<le> 19" by (rule valid_le [OF v])
  let ?P = "\<lambda>i. bm_get (split_bitmap s) (get_idx (addr n) (i + 1))"
  have no: "\<not> ?P i" if "i < fst n" for i
    using that le below_not_split [OF R(1) assms(2), of "i + 1"] R(5) [of "(i + 1, snd n * 2 ^ (fst n - (i + 1)))"]
    by (simp add: addr_down)
  show ?thesis
  proof (cases "fst n = 19")
    case True
    then have "find ?P [0..<NORDER - 1] = None" using no by (auto simp: find_None_iff NORDER_def)
    with True show ?thesis by (simp add: get_order_def NORDER_def)
  next
    case False
    then have lt: "fst n < 19" using le by simp
    have p: "valid (parent n)" "0 < fst (parent n)" using valid_parent [OF v lt] by (simp_all add: parent_def)
    have "?P (fst n)"
      using get_idx_parent [OF v lt] R(5) [OF p] buddy_wfD(2) [OF R(1) _ lt] assms(2) by simp
    then have "find ?P [0..<NORDER - 1] = Some (fst n)"
      using no lt by (auto simp: find_Some_iff NORDER_def)
    then show ?thesis by (simp add: get_order_def)
  qed
qed

lemma addr_parent: "addr n = (if odd (snd n) then addr (parent n) + 2 ^ (MIN_ORDER + fst n) else addr (parent n))"
  by (auto simp: addr_def parent_def algebra_simps elim!: evenE oddE)

lemma addr_buddy:
  "odd (snd n) \<Longrightarrow> addr (buddy n) = addr (parent n)"
  "even (snd n) \<Longrightarrow> addr (buddy n) = addr n + 2 ^ (MIN_ORDER + fst n)"
  by (auto simp: addr_def parent_def buddy_def algebra_simps elim!: evenE oddE)

lemma free_loop_rel:
  "heap_rel s F A S {} \<Longrightarrow> n \<in> A \<Longrightarrow>
    \<exists>s' F' S'. free_loop s (addr n) (fst n) = Some s' \<and> heap_rel s' F' (A - {n}) S' {}"
proof (induction "19 - fst n" arbitrary: s F A S n)
  case 0
  have v: "valid n" using buddy_wfD(1) [OF heap_relD(1) [OF 0(2)]] 0(3) by blast
  then have n: "fst n = 19" using 0(1) valid_le [OF v] by simp
  then have "heap_rel (bucket_append s (addr n) (fst n)) (insert n F) (A - {n}) S {}"
    using 0(2,3) by (intro free_rel) (simp_all add: par_def)
  moreover have "free_loop s (addr n) (fst n) =
      Some ((bucket_append s (addr n) (fst n))\<lparr>free_mem := free_mem s + 2 ^ (fst n + MIN_ORDER)\<rparr>)"
    using n by (subst free_loop.simps) (simp add: NORDER_def split_beta)
  ultimately show ?case using heap_rel_free_mem by blast
next
  case (Suc d)
  note R = heap_relD [OF Suc.prems(1)]
  have v: "valid n" and nF: "n \<notin> F" using buddy_wfD [OF R(1)] Suc.prems(2) by blast+
  have lt: "fst n < 19" using Suc.hyps(2) by simp
  have pS: "parent n \<in> S" using buddy_wfD(2) [OF R(1) _ lt] Suc.prems(2) by blast
  have p: "valid (parent n)" "0 < fst (parent n)" using valid_parent [OF v lt] by (simp_all add: parent_def)
  let ?t = "bm_toggle (used_bitmap s) (node_idx (parent n))"
  have T: "heap_rel (s\<lparr>used_bitmap := fst ?t\<rparr>) F A S (par n)"
    using toggle_rel [OF Suc.prems(1) p] lt by (simp add: toggle_used_def par_def)
  have "used_bit F S (parent n) \<longleftrightarrow> buddy n \<in> F"
    using pS nF children_parent(3,4) [of n] by (auto simp: used_bit_def)
  then have other: "snd ?t \<longleftrightarrow> buddy n \<notin> F"
    using bm_toggle_spec(1) [OF idx_in_bitmap [OF p R(2)]] R(6) [OF p] by simp
  show ?case
  proof (cases "buddy n \<in> F")
    case False
    have "heap_rel (bucket_append (s\<lparr>used_bitmap := fst ?t\<rparr>) (addr n) (fst n)) (insert n F) (A - {n}) S {}"
      using False by (intro free_rel [OF T Suc.prems(2)])
    moreover have "free_loop s (addr n) (fst n) =
        Some ((bucket_append (s\<lparr>used_bitmap := fst ?t\<rparr>) (addr n) (fst n))\<lparr>free_mem := free_mem s + 2 ^ (fst n + MIN_ORDER)\<rparr>)"
      using lt other False get_idx_parent [OF v lt] by (subst free_loop.simps) (simp add: NORDER_def split_beta)
    ultimately show ?thesis using heap_rel_free_mem by blast
  next
    case True
    obtain s1 where s1: "bucket_unlink (s\<lparr>used_bitmap := fst ?t, split_bitmap := bm_set (split_bitmap s) (node_idx (parent n)) False\<rparr>)
          (addr (buddy n)) (fst n) = Some s1"
        "heap_rel s1 (F - {buddy n}) (insert (parent n) (A - {n})) (S - {parent n}) {}"
      using merge_rel [OF T Suc.prems(2) lt True] by auto
    have "d = 19 - fst (parent n)" using Suc.hyps(2) by (simp add: parent_def)
    from Suc.hyps(1) [OF this s1(2)] obtain s' F' S' where
        s': "free_loop s1 (addr (parent n)) (fst (parent n)) = Some s'"
        "heap_rel s' F' (insert (parent n) (A - {n}) - {parent n}) S' {}" by auto
    have "insert (parent n) (A - {n}) - {parent n} = A - {n}"
      using pS buddy_wfD(4) [OF R(1)] by blast
    moreover have "free_loop s (addr n) (fst n) = free_loop s1 (addr (parent n)) (fst (parent n))"
    proof (cases "odd (snd n)")
      case odd: True
      then have "addr n - 2 ^ (MIN_ORDER + fst n) = addr (parent n)" using addr_parent [of n] by simp
      then show ?thesis
        using lt other True odd get_idx_parent [OF v lt] s1(1) addr_buddy(1) [OF odd] get_idx_in_lvl_addr [OF v]
        by (subst free_loop.simps) (simp add: NORDER_def split_beta Let_def parent_def odd_iff_mod_2_eq_one)
    next
      case even: False
      then have "addr (parent n) = addr n" "addr (buddy n) = addr n + 2 ^ (MIN_ORDER + fst n)"
        using addr_parent [of n] addr_buddy(2) [of n] by simp_all
      then show ?thesis
        using lt other True even get_idx_parent [OF v lt] s1(1) get_idx_in_lvl_addr [OF v]
        by (subst free_loop.simps) (simp add: NORDER_def split_beta Let_def parent_def odd_iff_mod_2_eq_one)
    qed
    ultimately show ?thesis using s' by metis
  qed
qed

lemma kfree_inv:
  assumes "heap_inv s A" and "n \<in> A"
  shows "\<exists>s'. kfree s (addr n) = Some s' \<and> heap_inv s' (A - {n})"
proof -
  obtain F S where R: "heap_rel s F A S {}" using assms(1) by (auto simp: heap_inv_def)
  have al: "(addr n - KERNEL_HEAP_BASE) mod 2 ^ (MIN_ORDER + fst n) = 0" "(addr n - KERNEL_HEAP_BASE) mod 2 ^ MIN_ORDER = 0"
    by (simp_all add: addr_def power_add)
  have "addr n \<noteq> NULL" by (simp add: addr_def KERNEL_HEAP_BASE_def)
  then show ?thesis
    using free_loop_rel [OF R assms(2)] get_order_addr [OF R assms(2)] al
    unfolding kfree_def heap_inv_def by (auto simp: Let_def)
qed

subsection \<open>Every state the kernel reaches\<close>

definition block_size :: "node \<Rightarrow> nat" where
  "block_size n = 2 ^ (MIN_ORDER + fst n)"

definition apart :: "node \<Rightarrow> node \<Rightarrow> bool" where
  "apart n m \<longleftrightarrow> addr n + block_size n \<le> addr m \<or> addr m + block_size m \<le> addr n"

lemma apart_same_order: "fst n = fst m \<Longrightarrow> n \<noteq> m \<Longrightarrow> apart n m"
proof -
  assume "fst n = fst m" "n \<noteq> m"
  then have "Suc (snd n) \<le> snd m \<or> Suc (snd m) \<le> snd n" by (auto simp: prod_eq_iff)
  then have "Suc (snd n) * block_size n \<le> snd m * block_size n \<or> Suc (snd m) * block_size n \<le> snd n * block_size n"
    using mult_le_mono1 by blast
  with \<open>fst n = fst m\<close> show ?thesis by (auto simp: apart_def addr_def block_size_def)
qed

lemma inside_ancestor:
  assumes "d \<le> i"
  shows "addr (i, k div 2 ^ d) \<le> addr (i - d, k)" and "addr (i - d, k) + block_size (i - d, k) \<le> addr (i, k div 2 ^ d) + block_size (i, k div 2 ^ d)"
proof -
  have s: "(2::nat) ^ (MIN_ORDER + i) = 2 ^ d * 2 ^ (MIN_ORDER + (i - d))" using assms by (simp flip: power_add)
  have "k div 2 ^ d * 2 ^ d \<le> k" by (rule div_times_less_eq_dividend)
  then have "k div 2 ^ d * 2 ^ d * 2 ^ (MIN_ORDER + (i - d)) \<le> k * 2 ^ (MIN_ORDER + (i - d))" by (rule mult_le_mono1)
  then show "addr (i, k div 2 ^ d) \<le> addr (i - d, k)" by (simp add: addr_def s mult.assoc)
  have "Suc k \<le> (k div 2 ^ d + 1) * 2 ^ d"
    using dividend_less_div_times [of "2 ^ d" k] by simp
  then have "Suc k * 2 ^ (MIN_ORDER + (i - d)) \<le> (k div 2 ^ d + 1) * 2 ^ d * 2 ^ (MIN_ORDER + (i - d))" by (rule mult_le_mono1)
  then show "addr (i - d, k) + block_size (i - d, k) \<le> addr (i, k div 2 ^ d) + block_size (i, k div 2 ^ d)"
    by (simp add: addr_def block_size_def s mult.assoc add_mult_distrib)
qed

lemma allocated_apart:
  assumes "buddy_wf F A S" and "n \<in> A" and "m \<in> A" and "n \<noteq> m"
  shows "apart n m"
proof -
  have ordered: "apart n m" if nm: "n \<in> A" "m \<in> A" "n \<noteq> m" "fst n \<le> fst m" for n m
  proof (cases "fst n = fst m")
    case True
    then show ?thesis using nm by (intro apart_same_order)
  next
    case False
    define d where "d = fst m - fst n"
    have d: "0 < d" "fst n + d = fst m" "fst m - d = fst n" "d \<le> fst m" using False nm(4) by (simp_all add: d_def)
    have "fst m \<le> 19" using valid_le buddy_wfD(1) [OF assms(1)] nm(2) by blast
    with ancestor_split [OF assms(1), of n d] nm(1) d have "(fst m, snd n div 2 ^ d) \<in> S" by simp
    then have "(fst m, snd n div 2 ^ d) \<noteq> m" using buddy_wfD(4) [OF assms(1) nm(2)] by metis
    then have "apart (fst m, snd n div 2 ^ d) m" by (intro apart_same_order) simp_all
    moreover have "(fst m - d, snd n) = n" using d by (simp add: prod_eq_iff)
    ultimately show ?thesis using inside_ancestor [OF d(4), of "snd n"] by (auto simp: apart_def)
  qed
  show ?thesis
    using ordered [of n m] ordered [of m n] assms(2-4) by (cases "fst n \<le> fst m") (auto simp: apart_def)
qed

lemma block_in_heap: "valid n \<Longrightarrow> KERNEL_HEAP_BASE \<le> addr n \<and> addr n + block_size n \<le> KERNEL_HEAP_BASE + MAX_ALLOC"
proof -
  assume v: "valid n"
  have "Suc (snd n) * 2 ^ (MIN_ORDER + fst n) \<le> 2 ^ (19 - fst n) * 2 ^ (MIN_ORDER + fst n)"
    using valid_lt [OF v] by (intro mult_le_mono1) simp
  also have "\<dots> = 2 ^ MAX_ORDER"
    using valid_le [OF v] by (simp add: heap_consts flip: power_add)
  finally show ?thesis by (simp add: addr_def block_size_def MAX_ALLOC_def)
qed

inductive heap_run :: "(ptr \<Rightarrow> bool) \<Rightarrow> kheap \<Rightarrow> (ptr \<times> nat) set \<Rightarrow> bool" for mappable where
  start: "heap_run mappable kalloc_prepare {}"
| alloc: "heap_run mappable s L \<Longrightarrow> kalloc mappable s sz = Some (s', p) \<Longrightarrow> p \<noteq> NULL \<Longrightarrow>
    heap_run mappable s' (insert (p, 2 ^ (MIN_ORDER + size_order sz)) L)"
| free: "heap_run mappable s L \<Longrightarrow> (p, len) \<in> L \<Longrightarrow> kfree s p = Some s' \<Longrightarrow> heap_run mappable s' (L - {(p, len)})"

definition area :: "node \<Rightarrow> ptr \<times> nat" where
  "area n = (addr n, block_size n)"

lemma area_inj: "area n = area m \<Longrightarrow> n = m"
  by (auto simp: area_def block_size_def intro: addr_inj)

lemma kalloc_prepare_inv: "heap_inv kalloc_prepare {}"
proof -
  have zero: "bm_get (replicate (2 ^ 14) 0) (node_idx n) = False" if "valid n" "0 < fst n" for n
    using node_idx_bound [OF that] by (simp add: bm_get_def)
  have "heap_rel kalloc_prepare {(19, 0)} {} {} {}"
    unfolding heap_rel_def
  proof (intro conjI allI impI)
    show "buddy_wf {(19, 0)} {} {}" by (simp add: buddy_wf_def valid_def NORDER_def)
    fix i assume i: "i < NORDER"
    show "distinct (buckets kalloc_prepare ! i)" "set (buckets kalloc_prepare ! i) = {addr n | n. n \<in> {(19, 0)} \<and> fst n = i}"
      using i by (auto simp: kalloc_prepare_def nth_append addr_def NORDER_def)
  qed (use zero in \<open>auto simp: kalloc_prepare_def used_bit_def NORDER_def\<close>)
  then show ?thesis unfolding heap_inv_def by blast
qed

lemma kalloc_cases:
  assumes "heap_inv s A" and "\<forall>a. mappable a" and "kalloc mappable s sz = Some (s', p)" and "p \<noteq> NULL"
  shows "0 < sz" and "sz \<le> MAX_ALLOC" and "\<exists>m. p = addr m \<and> m \<notin> A \<and> fst m = size_order sz \<and> heap_inv s' (insert m A)"
proof -
  show sz: "0 < sz" "sz \<le> MAX_ALLOC" using assms(3,4) by (auto simp: kalloc_def split: if_splits)
  have "find (\<lambda>i. buckets s ! i \<noteq> []) [size_order sz..<NORDER] \<noteq> None"
  proof
    assume "find (\<lambda>i. buckets s ! i \<noteq> []) [size_order sz..<NORDER] = None"
    then show False using assms(3,4) sz by (simp add: kalloc_def)
  qed
  then have "\<exists>i < NORDER. size_order sz \<le> i \<and> buckets s ! i \<noteq> []" by (auto simp: find_None_iff)
  from kalloc_inv [OF assms(1,2) sz this] assms(3)
  show "\<exists>m. p = addr m \<and> m \<notin> A \<and> fst m = size_order sz \<and> heap_inv s' (insert m A)" by auto
qed

lemma heap_run_inv:
  assumes "heap_run mappable s L" and "\<forall>a. mappable a"
  shows "\<exists>A. heap_inv s A \<and> L = area ` A"
  using assms(1)
proof (induction rule: heap_run.induct)
  case start
  show ?case using kalloc_prepare_inv by (intro exI [of _ "{}"]) simp
next
  case (alloc s L sz s' p)
  then obtain A where A: "heap_inv s A" "L = area ` A" by blast
  obtain m where m: "p = addr m" "fst m = size_order sz" "heap_inv s' (insert m A)"
    using kalloc_cases(3) [OF A(1) assms(2) alloc.hyps(2,3)] by blast
  then have "area m = (p, 2 ^ (MIN_ORDER + size_order sz))" by (simp add: area_def block_size_def)
  with m A show ?case by (intro exI [of _ "insert m A"]) simp
next
  case (free s L p len s')
  then obtain A where A: "heap_inv s A" "L = area ` A" by blast
  with free.hyps(2) obtain n where n: "n \<in> A" "area n = (p, len)" by auto
  then have "kfree s p = Some s' \<and> heap_inv s' (A - {n})"
    using kfree_inv [OF A(1) n(1)] free.hyps(3) by (auto simp: area_def)
  moreover have "L - {(p, len)} = area ` (A - {n})"
    unfolding A(2) n(2) [symmetric] using area_inj by blast
  ultimately show ?case by blast
qed

lemma areas_apart:
  assumes "heap_inv s A" and "(p, len) \<in> area ` A" and "(q, len') \<in> area ` A" and "(p, len) \<noteq> (q, len')"
  shows "p + len \<le> q \<or> q + len' \<le> p"
proof -
  obtain F S where "heap_rel s F A S {}" using assms(1) by (auto simp: heap_inv_def)
  note wf = heap_relD(1) [OF this]
  obtain n m where nm: "n \<in> A" "m \<in> A" "(p, len) = area n" "(q, len') = area m" using assms(2,3) by blast
  then have "n \<noteq> m" using assms(4) by auto
  with allocated_apart [OF wf nm(1,2)] nm(3,4) show ?thesis by (auto simp: apart_def area_def)
qed

lemma areas_in_heap: "heap_inv s A \<Longrightarrow> (p, len) \<in> area ` A \<Longrightarrow> KERNEL_HEAP_BASE \<le> p \<and> p + len \<le> KERNEL_HEAP_BASE + MAX_ALLOC"
proof -
  assume "heap_inv s A" "(p, len) \<in> area ` A"
  then obtain F S n where "heap_rel s F A S {}" "n \<in> A" "(p, len) = area n" by (auto simp: heap_inv_def)
  then show ?thesis
    using block_in_heap [OF buddy_wfD(1) [OF heap_relD(1)], of s F A S "{}" n] by (simp add: area_def)
qed

text \<open>C1: in every state the kernel heap reaches by allocating blocks and freeing allocated ones, any two
  allocated blocks are disjoint, every block lies inside the heap, and freeing it succeeds: no
  assertion of \<open>kfree\<close> fails and no free list is corrupted.\<close>

theorem kernel_heap_safe:
  assumes "heap_run mappable s L" and "\<forall>a. mappable a" and "(p, len) \<in> L"
  shows "KERNEL_HEAP_BASE \<le> p \<and> p + len \<le> KERNEL_HEAP_BASE + MAX_ALLOC \<and> (\<exists>s'. kfree s p = Some s') \<and>
    (\<forall>(q, len') \<in> L. (q, len') \<noteq> (p, len) \<longrightarrow> p + len \<le> q \<or> q + len' \<le> p)"
proof -
  obtain A where A: "heap_inv s A" "L = area ` A" using heap_run_inv [OF assms(1,2)] by blast
  obtain n where n: "n \<in> A" "p = addr n" using assms(3) A(2) by (auto simp: area_def)
  then have "\<exists>s'. kfree s p = Some s'" using kfree_inv [OF A(1) n(1)] by blast
  moreover have "\<forall>(q, len') \<in> L. (q, len') \<noteq> (p, len) \<longrightarrow> p + len \<le> q \<or> q + len' \<le> p"
    using areas_apart [OF A(1)] assms(3) unfolding A(2) by blast
  ultimately show ?thesis using areas_in_heap [OF A(1)] assms(3) unfolding A(2) by blast
qed

text \<open>C14: an allocation of at most 32 MiB either returns a block of at least the requested size that is
  disjoint from every allocated block, or returns NULL, and then no free block is large enough.\<close>

theorem kalloc_correct:
  assumes "heap_run mappable s L" and "\<forall>a. mappable a" and "0 < sz" and "sz \<le> MAX_ALLOC"
  shows "\<exists>s' p. kalloc mappable s sz = Some (s', p) \<and>
    (if p = NULL then s' = s \<and> (\<forall>i < NORDER. size_order sz \<le> i \<longrightarrow> buckets s ! i = [])
     else sz \<le> 2 ^ (MIN_ORDER + size_order sz) \<and>
       (\<forall>(q, len) \<in> L. p + 2 ^ (MIN_ORDER + size_order sz) \<le> q \<or> q + len \<le> p))"
proof -
  obtain A where A: "heap_inv s A" "L = area ` A" using heap_run_inv [OF assms(1,2)] by blast
  show ?thesis
  proof (cases "\<exists>i < NORDER. size_order sz \<le> i \<and> buckets s ! i \<noteq> []")
    case True
    from kalloc_inv [OF A(1) assms(2-4) True] obtain s' m where
      m: "kalloc mappable s sz = Some (s', addr m)" "m \<notin> A" "fst m = size_order sz" "heap_inv s' (insert m A)" by blast
    have "\<forall>(q, len) \<in> L. addr m + 2 ^ (MIN_ORDER + size_order sz) \<le> q \<or> q + len \<le> addr m"
    proof clarify
      fix q len assume q: "(q, len) \<in> L" and "\<not> q + len \<le> addr m"
      have area: "area m = (addr m, 2 ^ (MIN_ORDER + size_order sz))" by (simp add: area_def block_size_def m(3))
      have "area m \<notin> L" unfolding A(2) using m(2) area_inj by blast
      then have "(addr m, 2 ^ (MIN_ORDER + size_order sz)) \<noteq> (q, len)" using q area by metis
      moreover have "(addr m, 2 ^ (MIN_ORDER + size_order sz)) \<in> area ` insert m A" "(q, len) \<in> area ` insert m A"
        using area q A(2) by simp_all
      ultimately show "addr m + 2 ^ (MIN_ORDER + size_order sz) \<le> q"
        using areas_apart [OF m(4)] \<open>\<not> q + len \<le> addr m\<close> by blast
    qed
    with m(1) size_order_bounds(2) [OF assms(3,4)] show ?thesis
      by (intro exI [of _ s'] exI [of _ "addr m"]) (auto simp: addr_def KERNEL_HEAP_BASE_def)
  next
    case False
    then have "find (\<lambda>i. buckets s ! i \<noteq> []) [size_order sz..<NORDER] = None" by (auto simp: find_None_iff)
    then have "kalloc mappable s sz = Some (s, NULL)" by (simp add: kalloc_def)
    with False show ?thesis by auto
  qed
qed

lemma free_loop_free_mem:
  "free_loop s p i = Some s' \<Longrightarrow> i \<le> 19 \<Longrightarrow> \<exists>j. i \<le> j \<and> j \<le> 19 \<and> free_mem s' = free_mem s + 2 ^ (j + MIN_ORDER)"
proof (induction "19 - i" arbitrary: s p i)
  case 0
  then show ?case by (subst (asm) free_loop.simps) (auto simp: NORDER_def split_beta)
next
  case (Suc d)
  let ?t = "bm_toggle (used_bitmap s) (get_idx p (i + 1))"
  let ?s = "s\<lparr>used_bitmap := fst ?t, split_bitmap := bm_set (split_bitmap s) (get_idx p (i + 1)) False\<rparr>"
  have i: "i < 19" "d = 19 - (i + 1)" using Suc.hyps(2) by simp_all
  show ?case
  proof (cases "snd ?t")
    case True
    then have "free_mem s' = free_mem s + 2 ^ (i + MIN_ORDER)"
      using Suc.prems(1) i(1) by (subst (asm) free_loop.simps) (auto simp: NORDER_def split_beta)
    then show ?thesis using i(1) by (intro exI [of _ i]) simp
  next
    case False
    then obtain b q s1 where u: "bucket_unlink ?s b i = Some s1" "free_loop s1 q (i + 1) = Some s'"
      using Suc.prems(1) i(1)
      by (subst (asm) free_loop.simps) (auto simp: NORDER_def split_beta Let_def bind_eq_Some_conv split: if_splits)
    then have "free_mem s1 = free_mem s" by (auto simp: bucket_unlink_def split: if_splits)
    with Suc.hyps(1) [OF i(2) u(2)] i(1) show ?thesis by (metis Suc_eq_plus1 Suc_leD Suc_leI)
  qed
qed

lemma free_loop_merge_free_mem:
  assumes "free_loop s p i = Some s'" and "i < 19" and "\<not> snd (bm_toggle (used_bitmap s) (get_idx p (i + 1)))"
  shows "\<exists>j. i < j \<and> j \<le> 19 \<and> free_mem s' = free_mem s + 2 ^ (j + MIN_ORDER)"
proof -
  let ?t = "bm_toggle (used_bitmap s) (get_idx p (i + 1))"
  let ?s = "s\<lparr>used_bitmap := fst ?t, split_bitmap := bm_set (split_bitmap s) (get_idx p (i + 1)) False\<rparr>"
  obtain b q s1 where u: "bucket_unlink ?s b i = Some s1" "free_loop s1 q (i + 1) = Some s'"
    using assms by (subst (asm) free_loop.simps) (auto simp: NORDER_def split_beta Let_def bind_eq_Some_conv split: if_splits)
  then have "free_mem s1 = free_mem s" by (auto simp: bucket_unlink_def split: if_splits)
  with free_loop_free_mem [OF u(2)] assms(2) show ?thesis by (metis Suc_eq_plus1 Suc_le_eq Suc_leI)
qed

lemma carve_free_mem: "carve mappable s b i order = Some s' \<Longrightarrow> free_mem s' = free_mem s"
  by (induction i arbitrary: s)
    (auto simp: Let_def split_block_def toggle_used_def bucket_append_def split: if_splits)

lemma first_alloc: "\<exists>s m. kalloc (\<lambda>_. True) kalloc_prepare 64 = Some (s, addr m) \<and> fst m = 0 \<and> heap_inv s {m} \<and>
    free_mem s = 2 ^ 25 - 64"
proof -
  have order: "size_order 64 = 0" by (simp add: size_order_def ilog2.simps MIN_ORDER_def)
  have "\<exists>i < NORDER. size_order 64 \<le> i \<and> buckets kalloc_prepare ! i \<noteq> []"
    by (intro exI [of _ 19]) (simp add: order NORDER_def kalloc_prepare_def nth_append)
  from kalloc_inv [OF kalloc_prepare_inv _ _ _ this, of "\<lambda>_. True"] obtain s m where
      s: "kalloc (\<lambda>_. True) kalloc_prepare 64 = Some (s, addr m)" "fst m = 0" "heap_inv s {m}"
    by (auto simp: MAX_ALLOC_def MAX_ORDER_def order)
  have "free_mem s = 2 ^ 25 - 64"
  proof -
    obtain i s1 b s2 where "s = take_block s2 b 0" "carve (\<lambda>_. True) s1 b i 0 = Some s2" "free_mem s1 = 2 ^ 25"
      using s(1) addr_neq_NULL [of m] by (auto simp: kalloc_def order bucket_pop_def kalloc_prepare_def MAX_ALLOC_def MAX_ORDER_def
          bind_eq_Some_conv split: option.splits)
    then show ?thesis using carve_free_mem by (auto simp: take_block_def toggle_used_def MIN_ORDER_def Let_def)
  qed
  with s show ?thesis by blast
qed

text \<open>C27: the count of free memory is wrong after a block is merged with its buddy: allocating and freeing
  64 bytes in the fresh heap does not give back the initial count, because \<open>kfree\<close> adds the size of the
  merged block.\<close>

theorem kfree_miscounts:
  "\<exists>s p s'. kalloc (\<lambda>_. True) kalloc_prepare 64 = Some (s, p) \<and> kfree s p = Some s' \<and>
    free_mem s' \<noteq> free_mem kalloc_prepare"
proof -
  obtain s m where s: "kalloc (\<lambda>_. True) kalloc_prepare 64 = Some (s, addr m)" "fst m = 0" "heap_inv s {m}"
      "free_mem s = 2 ^ 25 - 64" using first_alloc by blast
  obtain F S where R: "heap_rel s F {m} S {}" using s(3) by (auto simp: heap_inv_def)
  note D = heap_relD [OF R]
  have v: "valid m" and pS: "parent m \<in> S" using buddy_wfD(1,2) [OF D(1), of m] s(2) by simp_all
  have mF: "m \<notin> F" using buddy_wfD(3) [OF D(1), of m] by blast
  have p: "valid (parent m)" "0 < fst (parent m)" using valid_parent [OF v] s(2) by (simp_all add: parent_def)
  have "buddy m \<notin> S" using buddy_wfD(5) [OF D(1), of "buddy m"] s(2) by auto
  moreover have "buddy m \<in> F \<or> buddy m \<in> {m} \<or> buddy m \<in> S"
    using buddy_wfD(5) [OF D(1) pS] children_parent(3,4) [of m] by (auto split: if_splits)
  ultimately have bF: "buddy m \<in> F" by simp
  then have "used_bit F S (parent m)" using pS mF children_parent(3,4) [of m] by (auto simp: used_bit_def)
  then have "\<not> snd (bm_toggle (used_bitmap s) (get_idx (addr m) (0 + 1)))"
    using bm_toggle_spec(1) [OF idx_in_bitmap [OF p D(2)]] D(6) [OF p] get_idx_parent [OF v] s(2) by simp
  moreover obtain s' where s': "kfree s (addr m) = Some s'" using kfree_inv [OF s(3)] by blast
  moreover have "free_loop s (addr m) 0 = Some s'"
    using s' get_order_addr [OF R] s(2) by (simp add: kfree_def addr_def KERNEL_HEAP_BASE_def split: if_splits)
  ultimately obtain j where j: "0 < j" "j \<le> 19" "free_mem s' = free_mem s + 2 ^ (j + MIN_ORDER)"
    using free_loop_merge_free_mem [of s "addr m" 0 s'] by auto
  have "free_mem s' \<noteq> 2 ^ 25"
  proof
    assume "free_mem s' = 2 ^ 25"
    then have "(2::u32) ^ (j + 6) = 2 ^ 6" using j(3) s(4) by (simp add: MIN_ORDER_def)
    moreover have "bit ((2::u32) ^ (j + 6)) (j + 6)" using j(2) by (simp only: bit_exp_iff possible_bit_word) simp
    moreover have "\<not> bit ((2::u32) ^ 6) (j + 6)" using j(1) by (simp only: bit_exp_iff) simp
    ultimately show False by metis
  qed
  then show ?thesis using s(1) s' by (auto simp: kalloc_prepare_def)
qed

theorem kernel_heap_safe_witness:
  "\<exists>s p. heap_run (\<lambda>_. True) s {(p, 64)} \<and> KERNEL_HEAP_BASE \<le> p \<and> p + 64 \<le> KERNEL_HEAP_BASE + MAX_ALLOC \<and>
    (\<exists>s'. kfree s p = Some s')"
proof -
  obtain s m where s: "kalloc (\<lambda>_. True) kalloc_prepare 64 = Some (s, addr m)" using first_alloc by blast
  have "heap_run (\<lambda>_. True) s {(addr m, 2 ^ (MIN_ORDER + size_order 64))}"
    by (rule heap_run.alloc [OF heap_run.start s addr_neq_NULL])
  then have "heap_run (\<lambda>_. True) s {(addr m, 64)}"
    by (simp add: size_order_def ilog2.simps MIN_ORDER_def)
  with kernel_heap_safe [OF this, of "addr m" 64] show ?thesis by auto
qed

theorem kalloc_correct_witness:
  "\<exists>s' p. kalloc (\<lambda>_. True) kalloc_prepare 100 = Some (s', p) \<and> p \<noteq> NULL \<and> 100 \<le> (2::nat) ^ (MIN_ORDER + size_order 100)"
proof -
  have sz: "100 \<le> MAX_ALLOC" by (simp add: MAX_ALLOC_def MAX_ORDER_def)
  obtain s' p where p: "kalloc (\<lambda>_. True) kalloc_prepare 100 = Some (s', p)"
      "if p = NULL then s' = kalloc_prepare \<and> (\<forall>i < NORDER. size_order 100 \<le> i \<longrightarrow> buckets kalloc_prepare ! i = [])
       else 100 \<le> (2::nat) ^ (MIN_ORDER + size_order 100) \<and> (\<forall>(q, len) \<in> {}. p + 2 ^ (MIN_ORDER + size_order 100) \<le> q \<or> q + len \<le> p)"
    using kalloc_correct [OF heap_run.start _ _ sz, of "\<lambda>_. True"] by force
  have "buckets kalloc_prepare ! 19 \<noteq> []" "19 < NORDER" "size_order 100 \<le> 19"
    using size_order_bounds(1) [of 100] sz by (simp_all add: kalloc_prepare_def NORDER_def nth_append)
  with p(2) have "p \<noteq> NULL" by metis
  with p show ?thesis by auto
qed

end
