(* ===== verification/UTF8.thy ===== *)
theory UTF8
  imports Prelude
begin

text \<open>
  The conversions between wide characters and UTF-8 of the C library
  (\<open>src/libc/src/wchar/convs.c\<close>). Bytes and the unsigned integers of the code are natural numbers
  below \<open>2 ^ 8\<close> and \<open>2 ^ 32\<close>; a shift to the left is cut to 32 bits where bits can leave the
  word. A buffer is a list of bytes, and an access outside of it or a call of \<open>__builtin_clz\<close> with
  zero, which is undefined, is \<open>None\<close>. The state \<open>*ps\<close> is an argument and a result; the buffer and
  \<open>pwc\<close> are not null.
\<close>

subsection \<open>Encoding\<close>

fun msb :: "nat \<Rightarrow> nat" where
  "msb n = (if n < 2 then 0 else Suc (msb (n div 2)))"

declare msb.simps [simp del]

definition builtin_clz :: "nat \<Rightarrow> nat option" where
  "builtin_clz c = (if c = 0 then None else Some (31 - msb c))"

definition store :: "nat list \<Rightarrow> nat \<Rightarrow> nat \<Rightarrow> nat list option" where
  "store s i v = (if i < length s then Some (s[i := v mod 256]) else None)"

function count_loop :: "nat \<Rightarrow> nat \<Rightarrow> nat \<times> nat" where
  "count_loop c b = (if drop_bit 7 c \<noteq> 0 then count_loop (drop_bit 6 c) (b + 1) else (c, b))"
  by pat_completeness auto
termination
  by (relation "measure fst") (auto simp: drop_bit_eq_div)

function put_loop :: "nat list \<Rightarrow> nat \<Rightarrow> nat \<Rightarrow> (nat list \<times> nat \<times> nat) option" where
  "put_loop s c i =
     (if drop_bit 7 c \<noteq> 0 then do {
        s \<leftarrow> store s i ((c AND 0x3F) OR 0x80);
        put_loop s (drop_bit 6 c) (i - 1) }
      else Some (s, c, i))"
  by pat_completeness auto
termination
  by (relation "measure (\<lambda>(s, c, i). c)") (auto simp: drop_bit_eq_div)

declare count_loop.simps [simp del] put_loop.simps [simp del]

definition wcrtomb :: "nat list \<Rightarrow> int \<Rightarrow> (nat list \<times> nat sysret) option" where
  "wcrtomb s wc =
     (if wc < 0 \<or> wc > 0x10FFFF then Some (s, Inl EILSEQ)
      else let (c, b) = count_loop (nat wc) 0
           in if b = 0 then do { s \<leftarrow> store s 0 c; Some (s, Inr 1) }
              else do {
                z \<leftarrow> builtin_clz c;
                let b = (if z - 24 < b + 2 then b + 1 else b);
                (s, c, i) \<leftarrow> put_loop s (nat wc) b;
                z \<leftarrow> builtin_clz c;
                (s, c) \<leftarrow> (if z - 24 < b + 1
                  then do { s \<leftarrow> store s i ((c AND 0x3F) OR 0x80); Some (s, drop_bit 6 c) }
                  else Some (s, c));
                s \<leftarrow> store s 0 ((255 - (2 ^ (7 - b) - 1)) OR c);
                Some (s, Inr (b + 1)) })"

subsection \<open>Decoding\<close>

datatype mbres = Complete nat nat | Incomplete | Illegal

definition load :: "nat list \<Rightarrow> nat \<Rightarrow> nat option" where
  "load s i = (if i < length s then Some (s ! i) else None)"

function mb_loop :: "nat list \<Rightarrow> nat \<Rightarrow> nat \<Rightarrow> nat \<Rightarrow> nat \<Rightarrow> (nat \<times> mbres) option" where
  "mb_loop s n i ps remain =
     (if i < n then do {
        x \<leftarrow> load s i;
        if remain \<noteq> 0 \<and> x AND 0xC0 \<noteq> 0x80 then Some (0, Illegal)
        else let ps = take_bit 32 (push_bit 6 ps) OR (x AND 0x3F);
                 remain = (remain + 2 ^ 32 - 1) mod 2 ^ 32
             in if remain = 0 then Some (0, Complete ps (i + 1))
                else mb_loop s n (i + 1) ps remain }
      else Some (take_bit 30 ps OR take_bit 32 (push_bit 30 remain), Incomplete))"
  by pat_completeness auto
termination
  by (relation "measure (\<lambda>(s, n, i, ps, remain). n - i)") auto

declare mb_loop.simps [simp del]

definition mbrtowc :: "nat list \<Rightarrow> nat \<Rightarrow> nat \<Rightarrow> (nat \<times> mbres) option" where
  "mbrtowc s n ps =
     (if ps = 0 then do {
        x \<leftarrow> load s 0;
        if x < 128 then Some (ps, Complete x 1)
        else do {
          z \<leftarrow> builtin_clz (255 - x);
          let w = z - 24;
          if w > 4 \<or> w = 1 then Some (0, Illegal)
          else let w = w - 1; ps = (x AND (2 ^ (6 - w) - 1)) OR push_bit 30 w
               in mb_loop s n 1 ps (drop_bit 30 ps) } }
      else mb_loop s n 0 ps (drop_bit 30 ps))"

definition mbrlen :: "nat list \<Rightarrow> nat \<Rightarrow> nat option \<Rightarrow> (nat \<times> mbres) option" where
  "mbrlen s n ps = mbrtowc s n (case ps of Some ps \<Rightarrow> ps | None \<Rightarrow> 0)"

subsection \<open>The encoding of a character\<close>

definition utf8 :: "nat \<Rightarrow> nat list" where
  "utf8 c =
     (if c < 0x80 then [c]
      else if c < 0x800 then [0xC0 + c div 64, 0x80 + c mod 64]
      else if c < 0x10000 then [0xE0 + c div 4096, 0x80 + c div 64 mod 64, 0x80 + c mod 64]
      else [0xF0 + c div 262144, 0x80 + c div 4096 mod 64, 0x80 + c div 64 mod 64, 0x80 + c mod 64])"

lemma msb_ge: "0 < n \<Longrightarrow> k \<le> msb n \<longleftrightarrow> 2 ^ k \<le> n"
proof (induction n arbitrary: k rule: msb.induct)
  case (1 n)
  show ?case
  proof (cases k)
    case 0
    with 1 show ?thesis by simp
  next
    case (Suc j)
    show ?thesis
    proof (cases "n < 2")
      case True
      moreover have "(1::nat) \<le> 2 ^ j" by simp
      ultimately have "\<not> 2 ^ Suc j \<le> n" unfolding power_Suc by linarith
      with True Suc show ?thesis by (simp add: msb.simps [of n])
    next
      case False
      with 1 have "j \<le> msb (n div 2) \<longleftrightarrow> 2 ^ j \<le> n div 2" by simp
      with False Suc show ?thesis by (simp add: msb.simps [of n] less_eq_div_iff_mult_less_eq mult.commute)
    qed
  qed
qed

lemma clz_less: "0 < c \<Longrightarrow> c < 128 \<Longrightarrow> k \<le> 7 \<Longrightarrow> 7 - msb c < k \<longleftrightarrow> 2 ^ (8 - k) \<le> c"
  using msb_ge [of c "8 - k"] msb_ge [of c 7] by (cases k) auto

lemma and_63: "c AND 63 = c mod (64 :: nat)"
  using take_bit_eq_mask [of 6 c] by (simp add: take_bit_eq_mod mask_eq_exp_minus_1)

lemma or_shifted: "y < 2 ^ k \<Longrightarrow> push_bit k x OR y = push_bit k x + (y :: nat)"
proof (rule disjunctive_add [symmetric])
  fix n assume "y < 2 ^ k"
  then have "take_bit k y = y" by (simp add: take_bit_nat_eq_self_iff)
  then show "\<not> bit (push_bit k x) n \<or> \<not> bit y n" by (metis bit_push_bit_iff_nat bit_take_bit_iff not_le)
qed

lemma two_6: "(2 :: nat) ^ 6 = 64"
  by simp

lemma or_128: "y < 64 \<Longrightarrow> y OR 128 = 128 + (y :: nat)"
  using or_shifted [of y 7 1] by (simp add: or.commute)

lemma lead_byte:
  "y < 32 \<Longrightarrow> 192 OR y = 192 + (y :: nat)" "y < 16 \<Longrightarrow> 224 OR y = 224 + (y :: nat)" "y < 8 \<Longrightarrow> 240 OR y = 240 + (y :: nat)"
  using or_shifted [of y 5 6] or_shifted [of y 4 14] or_shifted [of y 3 30] by simp_all

lemma high_bits: "drop_bit 7 c = 0 \<longleftrightarrow> c < (128 :: nat)"
  by (simp add: drop_bit_eq_div div_eq_0_iff)

lemma drop_6: "drop_bit 6 c = c div (64 :: nat)"
  by (simp add: drop_bit_eq_div)

lemma count_step: "128 \<le> c \<Longrightarrow> count_loop c b = count_loop (c div 64) (b + 1)" "c < 128 \<Longrightarrow> count_loop c b = (c, b)"
  by (simp_all add: count_loop.simps [of c b] high_bits drop_6)

lemma put_step:
  "128 \<le> c \<Longrightarrow> i < length s \<Longrightarrow> put_loop s c i = put_loop (s[i := 128 + c mod 64]) (c div 64) (i - 1)"
  "c < 128 \<Longrightarrow> put_loop s c i = Some (s, c, i)"
  by (simp_all add: put_loop.simps [of s c i] high_bits drop_6 store_def and_63 or_128)

lemma wcrtomb_utf8_4:
  assumes "c \<le> 0x10FFFF"
  shows "wcrtomb (x0 # x1 # x2 # x3 # r) (int c) =
    Some (utf8 c @ drop (length (utf8 c)) (x0 # x1 # x2 # x3 # r), Inr (length (utf8 c)))"
proof -
  have d: "c div 64 div 64 = c div 4096" "c div 4096 div 64 = c div 262144" by (simp_all add: div_mult2_eq [symmetric])
  note simps = wcrtomb_def count_step put_step builtin_clz_def clz_less store_def and_63 or_128 lead_byte utf8_def d drop_6
  consider "c < 0x80" | "0x80 \<le> c" "c < 0x800" | "0x800 \<le> c" "c < 0x2000" | "0x2000 \<le> c" "c < 0x10000"
    | "0x10000 \<le> c" "c < 0x80000" | "0x80000 \<le> c" by linarith
  then show ?thesis
  proof cases
    case 1 then show ?thesis by (simp add: simps)
  next
    case 2
    then have "2 \<le> c div 64" "c div 64 < 32" by auto
    with 2 show ?thesis by (simp add: simps)
  next
    case 3
    then have "32 \<le> c div 64" "c div 64 < 128" "c div 4096 < 16" by auto
    with 3 show ?thesis by (simp add: simps)
  next
    case 4
    then have "128 \<le> c div 64" "2 \<le> c div 4096" "c div 4096 < 16" by auto
    with 4 show ?thesis by (simp add: simps)
  next
    case 5
    then have "128 \<le> c div 64" "16 \<le> c div 4096" "c div 4096 < 128" "c div 262144 < 8" by auto
    with 5 show ?thesis by (simp add: simps)
  next
    case 6
    then have "128 \<le> c div 64" "128 \<le> c div 4096" "2 \<le> c div 262144" "c div 262144 < 8" using assms by auto
    with 6 assms show ?thesis by (simp add: simps)
  qed
qed

subsection \<open>Decoding the encoding\<close>

lemma shift_or:
  assumes "y < 64" and "x < 2 ^ 26"
  shows "take_bit 32 (push_bit 6 (x + k * 2 ^ 30)) OR (y :: nat) = 64 * x + y"
proof -
  have "push_bit 6 (x + k * 2 ^ 30) = 64 * x + (16 * k) * 2 ^ 32" by (simp add: push_bit_eq_mult)
  then have "take_bit 32 (push_bit 6 (x + k * 2 ^ 30)) = (64 * x + (16 * k) * 2 ^ 32) mod 2 ^ 32"
    by (simp only: take_bit_eq_mod)
  also have "\<dots> = 64 * x" using assms(2) by (simp only: mod_mult_self1) simp
  finally show ?thesis using or_shifted [of y 6 x] assms(1) by (simp add: push_bit_eq_mult mult.commute)
qed

lemma and_or_distrib: "(a OR b) AND c = (a AND c) OR (b AND (c :: nat))"
  by (intro bit_eqI) (auto simp: bit_and_iff bit_or_iff)

lemma cont_byte:
  assumes "y < 64"
  shows "(128 + y) AND 192 = (128 :: nat)"
proof -
  have "\<not> bit y n \<or> \<not> bit (192 :: nat) n" for n
  proof -
    have "bit y n \<Longrightarrow> n < 6" using assms by (metis bit_take_bit_iff take_bit_nat_eq_self_iff two_6)
    moreover have "push_bit 6 3 = (192 :: nat)" by (simp add: push_bit_eq_mult)
    then have "\<not> bit (192 :: nat) n" if "n < 6" using that by (metis bit_push_bit_iff_nat not_le)
    ultimately show ?thesis by blast
  qed
  then have "y AND 192 = 0" by (intro bit_eqI) (auto simp: bit_and_iff)
  moreover have "(128 OR y) AND 192 = (128 AND 192) OR (y AND 192)" by (rule and_or_distrib)
  moreover have "128 + y = 128 OR y" using or_128 [OF assms] by (simp add: or.commute)
  ultimately show ?thesis by simp
qed

definition join :: "nat \<Rightarrow> nat list \<Rightarrow> nat" where
  "join x ds = foldl (\<lambda>a d. 64 * a + d) x ds"

lemma mb_step:
  assumes "i < n" "i < length s" "s ! i = 128 + y" "y < 64" "x < 2 ^ 26" "r < 4"
  shows "mb_loop s n i (x + k * 2 ^ 30) (Suc r) =
    (if r = 0 then Some (0, Complete (64 * x + y) (i + 1)) else mb_loop s n (i + 1) (64 * x + y) r)"
proof -
  define ps where "ps = x + k * 2 ^ 30"
  have a: "(128 + y) AND 63 = y" using assms(4) by (simp add: and_63 mod_add_left_eq [symmetric, of 128])
  have b: "(Suc r + 2 ^ 32 - 1) mod 2 ^ 32 = r" using assms(6) by simp
  have c: "take_bit 32 (push_bit 6 ps) OR y = 64 * x + y" unfolding ps_def by (rule shift_or [OF assms(4,5)])
  show ?thesis
    unfolding ps_def [symmetric] mb_loop.simps [of s n i ps] load_def Let_def b
    using assms(1-3) by (simp add: a c cont_byte [OF assms(4)])
qed

lemma join_bound:
  assumes "(x + 1) * 64 ^ Suc m \<le> (2 :: nat) ^ 32" and "y < 64"
  shows "x < 2 ^ 26" and "(64 * x + y + 1) * 64 ^ m \<le> 2 ^ 32"
proof -
  have "64 * (x + 1) * 64 ^ m \<le> 2 ^ 32" using assms(1) by (simp add: algebra_simps)
  moreover have "(64 * x + y + 1) * 64 ^ m \<le> 64 * (x + 1) * 64 ^ m" using assms(2) by (intro mult_right_mono) auto
  moreover have "64 * (x + 1) * 1 \<le> 64 * (x + 1) * (64 :: nat) ^ m" by (intro mult_left_mono) auto
  ultimately have "64 * (x + 1) \<le> 2 ^ 32" and *: "(64 * x + y + 1) * 64 ^ m \<le> 2 ^ 32" by linarith+
  then show "x < 2 ^ 26" by simp
  show "(64 * x + y + 1) * 64 ^ m \<le> 2 ^ 32" by (rule *)
qed

lemma join_bounds:
  assumes "\<forall>d \<in> set (a @ b). d < 64" and "(x + 1) * 64 ^ length (a @ b) \<le> (2 :: nat) ^ 32"
  shows "(join x a + 1) * 64 ^ length b \<le> 2 ^ 32"
  using assms
proof (induction a arbitrary: x)
  case (Cons d a)
  then show ?case using Cons.IH [of "64 * x + d"] join_bound(2) [of x "length (a @ b)" d] by (simp add: join_def)
qed (simp add: join_def)

lemma mb_loop_complete:
  assumes "ds \<noteq> []" "\<forall>d \<in> set ds. d < 64" "length ds < 4" "(x + 1) * 64 ^ length ds \<le> 2 ^ 32"
    and "length pre + length ds \<le> n"
  shows "mb_loop (pre @ map ((+) 128) ds @ rest) n (length pre) (x + k * 2 ^ 30) (length ds) =
    Some (0, Complete (join x ds) (length pre + length ds))"
  using assms
proof (induction ds arbitrary: x pre k)
  case (Cons d ds)
  note b = join_bound [of x "length ds" d]
  have "mb_loop (pre @ map ((+) 128) (d # ds) @ rest) n (length pre) (x + k * 2 ^ 30) (length (d # ds)) =
    (if length ds = 0 then Some (0, Complete (64 * x + d) (length pre + 1))
     else mb_loop (pre @ map ((+) 128) (d # ds) @ rest) n (length pre + 1) (64 * x + d) (length ds))"
    unfolding length_Cons by (rule mb_step) (use Cons.prems b in \<open>auto simp: nth_append\<close>)
  moreover have "mb_loop ((pre @ [128 + d]) @ map ((+) 128) ds @ rest) n (length (pre @ [128 + d])) (64 * x + d + 0 * 2 ^ 30) (length ds)
    = Some (0, Complete (join (64 * x + d) ds) (length (pre @ [128 + d]) + length ds))" if "ds \<noteq> []"
    by (rule Cons.IH [OF that]) (use Cons.prems b in auto)
  ultimately show ?case by (cases "ds = []") (simp_all add: join_def)
qed simp

lemma save_state: "x < 2 ^ 30 \<Longrightarrow> r < 4 \<Longrightarrow> take_bit 30 (x + k * 2 ^ 30) OR take_bit 32 (push_bit 30 r) = x + r * (2 ^ 30 :: nat)"
  using or_shifted [of x 30 r] by (simp add: take_bit_eq_mod push_bit_eq_mult or.commute)

lemma mb_loop_partial:
  assumes "0 < m" "\<forall>d \<in> set ds. d < 64" "length ds + m < 4" "(x + 1) * 64 ^ (length ds + m) \<le> 2 ^ 32"
  shows "mb_loop (pre @ map ((+) 128) ds) (length pre + length ds) (length pre) (x + k * 2 ^ 30) (length ds + m) =
    Some (join x ds + m * 2 ^ 30, Incomplete)"
  using assms
proof (induction ds arbitrary: x pre k)
  case Nil
  obtain m' where "m = Suc m'" using Nil.prems(1) gr0_implies_Suc by blast
  then have "x < 2 ^ 26" using Nil.prems(4) join_bound(1) [of x m' 0] by simp
  then have "x < 2 ^ 30" by simp
  then show ?case
    using save_state [of x m k] Nil.prems(3) unfolding mb_loop.simps [of _ _ _ "x + k * 2 ^ 30"] join_def by simp
next
  case (Cons d ds)
  note b = join_bound [of x "length ds + m" d]
  have "mb_loop (pre @ map ((+) 128) (d # ds)) (length pre + length (d # ds)) (length pre) (x + k * 2 ^ 30) (Suc (length ds + m)) =
    (if length ds + m = 0 then Some (0, Complete (64 * x + d) (length pre + 1))
     else mb_loop (pre @ map ((+) 128) (d # ds)) (length pre + length (d # ds)) (length pre + 1) (64 * x + d) (length ds + m))"
    by (rule mb_step) (use Cons.prems b in \<open>auto simp: nth_append\<close>)
  moreover have "mb_loop ((pre @ [128 + d]) @ map ((+) 128) ds) (length (pre @ [128 + d]) + length ds) (length (pre @ [128 + d]))
      (64 * x + d + 0 * 2 ^ 30) (length ds + m) = Some (join (64 * x + d) ds + m * 2 ^ 30, Incomplete)"
    by (rule Cons.IH) (use Cons.prems b in auto)
  ultimately show ?case using Cons.prems(1) by (simp add: join_def)
qed

lemma clz_eq: "2 ^ k \<le> n \<Longrightarrow> n < 2 ^ Suc k \<Longrightarrow> builtin_clz n = Some (31 - k)"
proof -
  assume a: "2 ^ k \<le> n" "n < 2 ^ Suc k"
  have "0 < n" using a(1) by (metis gr0I not_le zero_less_numeral zero_less_power)
  then have "msb n = k" using a msb_ge [of n k] msb_ge [of n "Suc k"] by linarith
  with \<open>0 < n\<close> show ?thesis by (simp add: builtin_clz_def)
qed

lemma and_low: "c AND (2 ^ k - 1) = c mod (2 ^ k :: nat)"
  using take_bit_eq_mask [of k c] by (simp add: take_bit_eq_mod mask_eq_exp_minus_1)

lemma lead_bytes:
  "x < 32 \<Longrightarrow> builtin_clz (63 - x) = Some 26 \<and> (192 + x) AND 31 = x"
  "x < 16 \<Longrightarrow> builtin_clz (31 - x) = Some 27 \<and> (224 + x) AND 15 = x"
  "x < 8 \<Longrightarrow> builtin_clz (15 - x) = Some 28 \<and> (240 + x) AND 7 = x"
  using clz_eq [of 5 "63 - x"] clz_eq [of 4 "31 - x"] clz_eq [of 3 "15 - x"]
    and_low [of "192 + x" 5] and_low [of "224 + x" 4] and_low [of "240 + x" 3]
    mod_mult_self1 [of x 6 32] mod_mult_self1 [of x 14 16] mod_mult_self1 [of x 30 8]
  by (simp_all add: add.commute)

lemma start_state: "x < 2 ^ 30 \<Longrightarrow> x OR push_bit 30 w = x + w * 2 ^ 30 \<and> drop_bit 30 (x + w * (2 ^ 30 :: nat)) = w"
  using or_shifted [of x 30 w] by (simp add: or.commute push_bit_eq_mult drop_bit_eq_div)

lemma mbrtowc_start:
  "x < 32 \<Longrightarrow> mbrtowc ((192 + x) # s) n 0 = mb_loop ((192 + x) # s) n 1 (x + 1 * 2 ^ 30) 1"
  "x < 16 \<Longrightarrow> mbrtowc ((224 + x) # s) n 0 = mb_loop ((224 + x) # s) n 1 (x + 2 * 2 ^ 30) 2"
  "x < 8 \<Longrightarrow> mbrtowc ((240 + x) # s) n 0 = mb_loop ((240 + x) # s) n 1 (x + 3 * 2 ^ 30) 3"
  using lead_bytes [of x] start_state [of x 1] start_state [of x 2] start_state [of x 3]
  by (simp_all add: mbrtowc_def load_def Let_def)

definition decodes :: "nat \<Rightarrow> nat \<Rightarrow> nat \<Rightarrow> nat list \<Rightarrow> bool" where
  "decodes c l x ds \<longleftrightarrow> utf8 c = l # map ((+) 128) ds \<and> ds \<noteq> [] \<and> (\<forall>d \<in> set ds. d < 64) \<and> length ds < 4 \<and>
     (x + 1) * 64 ^ length ds \<le> 2 ^ 32 \<and> join x ds = c \<and>
     (\<forall>s n. mbrtowc (l # s) n 0 = mb_loop (l # s) n 1 (x + length ds * 2 ^ 30) (length ds))"

lemma utf8_decodes:
  assumes "0x80 \<le> c" and "c \<le> 0x10FFFF"
  obtains l x ds where "decodes c l x ds"
proof -
  have d: "c div 64 div 64 = c div 4096" "c div 4096 div 64 = c div 262144" by (simp_all add: div_mult2_eq [symmetric])
  have j: "64 * (c div 64) + c mod 64 = c" "64 * (c div 4096) + c div 64 mod 64 = c div 64"
    "64 * (c div 262144) + c div 4096 mod 64 = c div 4096"
    using mult_div_mod_eq [of 64 "c div 64"] mult_div_mod_eq [of 64 "c div 4096"] by (simp_all add: d)
  consider "c < 0x800" | "0x800 \<le> c" "c < 0x10000" | "0x10000 \<le> c" by linarith
  then show thesis
  proof cases
    case 1
    then have b: "c div 64 < 32" by auto
    have "decodes c (192 + c div 64) (c div 64) [c mod 64]"
      using assms 1 b mbrtowc_start(1) [OF b] by (simp add: decodes_def utf8_def join_def)
    then show thesis by (rule that)
  next
    case 2
    then have b: "c div 4096 < 16" by auto
    have "decodes c (224 + c div 4096) (c div 4096) [c div 64 mod 64, c mod 64]"
      using assms 2 b j mbrtowc_start(2) [OF b] by (simp add: decodes_def utf8_def join_def numeral_2_eq_2 [symmetric])
    then show thesis by (rule that)
  next
    case 3
    then have b: "c div 262144 < 8" using assms(2) by auto
    have "decodes c (240 + c div 262144) (c div 262144) [c div 4096 mod 64, c div 64 mod 64, c mod 64]"
      using assms 3 b j mbrtowc_start(3) [OF b] by (simp add: decodes_def utf8_def join_def numeral_3_eq_3 [symmetric])
    then show thesis by (rule that)
  qed
qed

subsection \<open>Correctness\<close>

lemma utf8_length: "0 < length (utf8 c)" "length (utf8 c) \<le> 4"
  by (auto simp: utf8_def)

lemma wcrtomb_utf8:
  assumes "4 \<le> length s" and "0 \<le> wc" and "wc \<le> 0x10FFFF"
  shows "wcrtomb s wc = Some (utf8 (nat wc) @ drop (length (utf8 (nat wc))) s, Inr (length (utf8 (nat wc))))"
proof -
  obtain x0 x1 x2 x3 r where "s = x0 # x1 # x2 # x3 # r"
    using assms(1) by (auto simp: Suc_le_length_iff eval_nat_numeral)
  then show ?thesis using wcrtomb_utf8_4 [of "nat wc" x0 x1 x2 x3 r] assms(2,3) by simp
qed

lemma mbrtowc_utf8:
  assumes "c \<le> 0x10FFFF" and "length (utf8 c) \<le> n"
  shows "mbrtowc (utf8 c @ r) n 0 = Some (0, Complete c (length (utf8 c)))"
proof (cases "c < 0x80")
  case True
  then show ?thesis by (simp add: utf8_def mbrtowc_def load_def)
next
  case False
  then obtain l x ds where "decodes c l x ds" using utf8_decodes assms(1) by (metis not_le)
  then show ?thesis
    using mb_loop_complete [of ds x "[l]" n r "length ds"] assms(2) by (simp add: decodes_def)
qed

lemma mbrtowc_utf8_split:
  assumes "c \<le> 0x10FFFF" and "0 < j" and "j < length (utf8 c)" and "length (utf8 c) \<le> j + n"
  shows "\<exists>ps. ps \<noteq> 0 \<and> mbrtowc (take j (utf8 c)) j 0 = Some (ps, Incomplete) \<and>
    mbrtowc (drop j (utf8 c) @ r) n ps = Some (0, Complete c (length (utf8 c) - j))"
proof -
  have "\<not> c < 0x80" using assms(2,3) by (auto simp: utf8_def split: if_splits)
  then obtain l x ds where d: "decodes c l x ds" using utf8_decodes assms(1) by (metis not_le)
  obtain i where j: "j = Suc i" using assms(2) gr0_implies_Suc by blast
  define a b where "a = take i ds" and "b = drop i ds"
  have ab: "ds = a @ b" "length a = i" "b \<noteq> []" "length b < 4" using d assms(3) by (auto simp: a_def b_def j decodes_def)
  have u: "utf8 c = l # map ((+) 128) a @ map ((+) 128) b" using d ab(1) by (simp add: decodes_def)
  have x: "(join x a + 1) * 64 ^ length b \<le> 2 ^ 32"
    using d ab(1) join_bounds [of a b x] by (simp add: decodes_def)
  have y: "join x a < 2 ^ 26" using x ab(3) join_bound(1) [of "join x a" "length b - 1" 0] by (cases b) auto
  define ps where "ps = join x a + length b * 2 ^ 30"
  have p: "ps \<noteq> 0" "drop_bit 30 ps = length b" using ab(3) y start_state [of "join x a" "length b"] by (auto simp: ps_def)
  have "mbrtowc (take j (utf8 c)) j 0 = Some (ps, Incomplete)"
    using mb_loop_partial [of "length b" a x "[l]" "length ds"] d ab by (simp add: u j decodes_def ps_def)
  moreover have "mbrtowc (drop j (utf8 c) @ r) n ps = Some (0, Complete c (length (utf8 c) - j))"
  proof -
    have "join (join x a) b = c" "\<forall>d \<in> set b. d < 64" using d ab(1) by (auto simp: decodes_def join_def)
    moreover have "length b \<le> n" using assms(4) ab(2) by (simp add: u j)
    ultimately have "mb_loop (map ((+) 128) b @ r) n 0 ps (length b) = Some (0, Complete c (length b))"
      using mb_loop_complete [of b "join x a" "[]" n r "length b"] ab(3,4) x unfolding ps_def by simp
    with p ab(2) show ?thesis by (simp add: mbrtowc_def u j)
  qed
  ultimately show ?thesis using p(1) by blast
qed

text \<open>C10: A wide character up to U+10FFFF that \<open>wcrtomb\<close> writes into a buffer of at least
  \<open>MB_CUR_MAX\<close> bytes takes one to four bytes and is read back by \<open>mbrtowc\<close>, which consumes exactly
  these bytes and returns to the initial state. This also holds when the bytes arrive in two parts:
  the first call reports an incomplete character, and the second one completes it from the state
  that the first left.\<close>

theorem utf8_roundtrip:
  assumes "4 \<le> length s" and "0 \<le> wc" and "wc \<le> 0x10FFFF"
  shows "\<exists>s' k. wcrtomb s wc = Some (s', Inr k) \<and> 1 \<le> k \<and> k \<le> 4 \<and> drop k s' = drop k s \<and>
    (\<forall>n. k \<le> n \<longrightarrow> mbrtowc s' n 0 = Some (0, Complete (nat wc) k)) \<and>
    (\<forall>j n. 0 < j \<and> j < k \<and> k \<le> j + n \<longrightarrow>
       (\<exists>ps. mbrtowc (take j s') j 0 = Some (ps, Incomplete) \<and>
          mbrtowc (drop j s') n ps = Some (0, Complete (nat wc) (k - j))))"
proof -
  define u where "u = utf8 (nat wc)"
  have c: "nat wc \<le> 0x10FFFF" using assms(2,3) by simp
  have "\<exists>ps. mbrtowc (take j (u @ drop (length u) s)) j 0 = Some (ps, Incomplete) \<and>
      mbrtowc (drop j (u @ drop (length u) s)) n ps = Some (0, Complete (nat wc) (length u - j))"
    if "0 < j" "j < length u" "length u \<le> j + n" for j n
    using mbrtowc_utf8_split [OF c, of j n "drop (length u) s"] that by (auto simp: u_def)
  moreover have "mbrtowc (u @ drop (length u) s) n 0 = Some (0, Complete (nat wc) (length u))" if "length u \<le> n" for n
    using mbrtowc_utf8 [OF c, of n] that by (simp add: u_def)
  moreover have "wcrtomb s wc = Some (u @ drop (length u) s, Inr (length u))"
    using wcrtomb_utf8 [OF assms] by (simp add: u_def)
  moreover have "1 \<le> length u" "length u \<le> 4" using utf8_length [of "nat wc"] by (simp_all add: u_def Suc_le_eq)
  ultimately show ?thesis by (intro exI [of _ "u @ drop (length u) s"] exI [of _ "length u"]) simp
qed

theorem utf8_roundtrip_witness:
  "\<exists>s' k. wcrtomb [0, 0, 0, 0] 0x20AC = Some (s', Inr k) \<and> (\<forall>n. k \<le> n \<longrightarrow> mbrtowc s' n 0 = Some (0, Complete 0x20AC k))"
  using utf8_roundtrip [of "[0, 0, 0, 0]" "0x20AC"] by auto

text \<open>C21: \<open>wcrtomb\<close> writes the UTF-8 encoding of the character, in its shortest form, and leaves the rest
  of the buffer alone; a negative character or one above U+10FFFF is \<open>EILSEQ\<close> and writes nothing.\<close>

theorem wcrtomb_correct:
  assumes "4 \<le> length s"
  shows "wcrtomb s wc =
    (if 0 \<le> wc \<and> wc \<le> 0x10FFFF
     then Some (utf8 (nat wc) @ drop (length (utf8 (nat wc))) s, Inr (length (utf8 (nat wc))))
     else Some (s, Inl EILSEQ))"
  using wcrtomb_utf8 [OF assms, of wc] by (auto simp: wcrtomb_def)

theorem wcrtomb_correct_witness: "wcrtomb [0, 0, 0, 0] 0xE9 = Some ([0xC3, 0xA9, 0, 0], Inr 2)"
  using wcrtomb_correct [of "[0, 0, 0, 0]" "0xE9"] by (simp add: utf8_def)

end
