(* ===== verification/Spec2Isabelle.thy ===== *)
theory Spec2Isabelle
  imports RBTree_Props WCase Users SleepQueue Futex Pipe Qsort CTime  DList Kalloc Buddy UTF8 ThreadQueue CNum
begin

text \<open>
  \<^bold>\<open>A verification development for UnstableOS\<close>

  UnstableOS is a small Unix-like operating system for 32-bit x86: a kernel (\<open>src/src\<close>) with a
  scheduler, memory management, file systems and system calls, and a C library (\<open>src/libc\<close>). This
  library models parts of both in Isabelle/HOL and proves what they do. Each theory below opens
  with the source files it translates; definitions carry the names of the C functions.

  \<^bold>\<open>How the C code is modelled.\<close> Machine integers are words of their width where wrap-around matters
  and natural numbers or integers where the code keeps them in range. Pointers are natural numbers
  with \<open>NULL = 0\<close>. Kernel objects live in explicit heaps, partial maps from addresses to records; the
  C library works on byte memory. A NULL or dangling access, a failed \<open>kassert\<close>, a \<open>panic\<close>, undefined
  behaviour and a loop that does not end are the value \<open>None\<close>, so a theorem that a result is \<open>Some\<close>
  shows the absence of all of them. Loops whose end depends on the data are \<open>partial_function (option)\<close>
  and their theorems state that they return; no fuel is used. System calls return \<open>Inl\<close> of an error
  number or \<open>Inr\<close> of their result.

  \<^bold>\<open>Prelude\<close> fixes these conventions.

  \<^bold>\<open>Red-black trees\<close> (\<open>src/src/rbtree.c\<close>), the index of processes and memory mappings. \<open>RBTree\<close> is the
  pointer program; \<open>RBTree_Repr\<close> relates a heap with parent pointers to a functional tree and its
  zipper contexts; \<open>RBTree_Search\<close>, \<open>RBTree_Rotate\<close>, \<open>RBTree_Add\<close>, \<open>RBTree_Rebalance\<close> and
  \<open>RBTree_Remove\<close> verify the operations; \<open>RBTree_Index\<close> states the contract of an ordered index as the
  locale \<open>ordered_index\<close> and interprets it on the code; \<open>RBTree_Props\<close> has the results: insertion keeps
  the red-black invariant and refines sorted insertion, the height is logarithmic, the searches are
  correct, removal takes out exactly the given node. Two faults of the removal are theorems.

  \<^bold>\<open>C library: memory, strings, numbers.\<close> \<open>CMem\<close> is byte memory; \<open>Ctype\<close> models \<open>ctype.c\<close>, \<open>CString\<close> the
  routines of \<open>string.c\<close>, \<open>strings.c\<close> and \<open>string_asm.s\<close>, \<open>CNum\<close> the \<open>itoa\<close> and \<open>strto\<close> families.
  \<open>CString_Props\<close> and \<open>CNum\<close> show copying with overlap, concatenation, comparison, search, that printing
  writes the digits of a number and that parsing reads them back.

  \<^bold>\<open>C library: wide characters.\<close> \<open>WTables\<close> holds every table of \<open>unicode_luts.c\<close>, \<open>WCtype\<close> the functions
  of \<open>wctype.c\<close>. The locale \<open>sorted_keys\<close> proves the binary search correct and \<open>range_table\<close> the
  classes; \<open>WCtype_Props\<close> interprets them on the tables of the program that are in order and shows which
  entries are lost in those that are not. \<open>WCase\<close> compares with ASCII and describes the case mappings.

  \<^bold>\<open>Identities and permissions.\<close> \<open>Users\<close> models the calls of \<open>users.c\<close> as functions on credentials and
  their sequences as an inductive relation, and \<open>inode_check_perm\<close> of \<open>fs/fs.c\<close>. No sequence of calls
  raises privilege.

  \<^bold>\<open>Thread queues.\<close> \<open>ThreadQueue\<close> models \<open>kernel_sched_queue.c\<close>: linked queues of blocked threads over a
  heap, with the references they hold to threads. Up to two waiting threads they refine a FIFO list;
  with three the code loses waiting threads and writes to freed memory.

  \<^bold>\<open>Pipes.\<close> \<open>Ring\<close> proves the ring-buffer arithmetic shared by pipes and terminals once, in the locale
  \<open>ring\<close>; \<open>Pipe\<close> models \<open>fs/pipe.c\<close> with blocking, signals and the actions of other threads as explicit
  resumptions, and shows that reading and writing refine a FIFO of characters: an extension of the pipe
  by logs records what the others take out and put in during a sleep.

  \<^bold>\<open>Sleeping and futexes.\<close> \<open>SleepQueue\<close> models \<open>kernel_sched_sleep_queue.c\<close>: the delta list of sleeping
  threads, linked through an explicit heap of nodes, refines a list of absolute wake-up times for falling
  asleep, for the timer tick, and for removal except of the first of several sleepers, after which the
  queue points to freed memory. \<open>Futex\<close> models \<open>futex.c\<close> over the threads of one
  process: a wait that sleeps is ended by a wake-up that reaches its place in the list; which returns keep
  the lock on the address space is a theorem.

  \<^bold>\<open>Sorting.\<close> \<open>Qsort\<close> models \<open>qsort.c\<close> on byte memory. The pivot of the partition is an object of the
  array that the first swap moves; the proof shows that the sort is correct all the same, and that it
  returns, for every comparison function that is a total preorder.

  \<^bold>\<open>Calendar.\<close> \<open>CTime\<close> models \<open>gmtime_r\<close> and \<open>mktime\<close> of \<open>time.c\<close> with division that rounds towards zero, and
  compares them with a reference definition of the Gregorian calendar.

  \<^bold>\<open>Kernel heap.\<close> \<open>DList\<close> verifies the macros on doubly linked lists. \<open>Kalloc\<close> models the buddy allocator of
  \<open>mm/kalloc.c\<close> down to the words of its bitmaps. \<open>Buddy\<close> describes the heap by the sets of its free,
  allocated and split nodes, shows that every step keeps the bitmaps and free lists in accordance with
  them, and concludes that allocated blocks are disjoint and can be freed in every reachable state.

  \<^bold>\<open>Multibyte characters.\<close> \<open>UTF8\<close> models \<open>wcrtomb\<close>, \<open>mbrtowc\<close> and \<open>mbrlen\<close> of \<open>wchar/convs.c\<close> and shows
  that the encoder writes the shortest form and that the decoder inverts it, also across two calls.
  The branches for null pointers and the conversions of whole strings are not modelled.
  \<^bold>\<open>Locks.\<close> Spinlocks that are held for the whole of an operation are left out of its model, which is
  then one atomic step; where an operation releases its lock and sleeps, what others do meanwhile is
  an argument of the model. The address an allocation returns is an argument too.

  \<^bold>\<open>Not modelled.\<close> Drivers and console output (\<open>kernel_console.c\<close>, \<open>kernel_ps2.c\<close>, \<open>rs232.c\<close>, \<open>gfx.c\<close>, the
  block devices) are port I/O; \<open>kernel_interrupts.c\<close>, \<open>lowlevel.c\<close>, \<open>v8086.c\<close>, \<open>kernel_gdt_idt.c\<close> and
  the boot code are processor set-up; the ports, utilities and root file
  system under \<open>src/ports\<close>, \<open>src/utils\<close> and \<open>src/rootfs_files\<close> are clients of the library.
  The on-disk file systems, the virtual file system, the terminal line discipline, program loading,
  formatted input and output and floating point are not modelled, nor are page tables, the physical allocator and memory mappings:
  the heap takes from them only whether a page can be mapped.
\<close>

end
